(* ===== verification/Prelude.thy ===== *)
theory Prelude
  imports Main "HOL-Library.Word" "HOL-Library.Monad_Syntax"
begin

text \<open>
  Shared vocabulary of the development.

  Addresses are 64-bit words and \<^verbatim>\<open>NULL\<close> is the word 0.  A region of typed C memory is a
  finite-map-like function \<^typ>\<open>64 word \<Rightarrow> 'n option\<close>: \<open>None\<close> is memory the program does not own
  (never allocated, or freed).  Every operation that touches memory returns an option; \<open>None\<close> means
  that the C code would have dereferenced \<^verbatim>\<open>NULL\<close> or memory it does not own, or that a loop does not
  end.  A statement \<open>f m = Some r\<close> therefore claims termination and memory safety together with the
  result.

  The second half of the theory holds the facts about singly linked chains and doubly linked rings
  that the list components share.
\<close>

unbundle bit_operations_syntax

named_theorems mem_simps \<open>unfolding rules of the memory primitives\<close>

type_synonym addr = "64 word"

abbreviation NULL :: addr where
  "NULL \<equiv> 0"

section \<open>Loads and stores\<close>

definition load :: "(addr \<rightharpoonup> 'n) \<Rightarrow> addr \<Rightarrow> 'n option" where
  "load h p = (if p = NULL then None else h p)"

definition store :: "(addr \<rightharpoonup> 'n) \<Rightarrow> addr \<Rightarrow> ('n \<Rightarrow> 'n) \<Rightarrow> (addr \<rightharpoonup> 'n) option" where
  "store h p f = do { n \<leftarrow> load h p; Some (h(p \<mapsto> f n)) }"

lemma load_null [simp]: "load h NULL = None"
  by (simp add: load_def)

lemma load_Some [simp]: "load h p = Some n \<longleftrightarrow> p \<noteq> NULL \<and> h p = Some n"
  by (simp add: load_def)

lemma load_known: "p \<noteq> NULL \<Longrightarrow> h p = Some n \<Longrightarrow> load h p = Some n"
  by simp

lemma load_upd [simp]: "load (h(a := v)) p = (if p = a \<and> p \<noteq> NULL then v else load h p)"
  by (simp add: load_def)

lemma store_Some [simp]:
  "store h p f = Some h' \<longleftrightarrow> (\<exists>n. p \<noteq> NULL \<and> h p = Some n \<and> h' = h(p \<mapsto> f n))"
  by (auto simp: store_def bind_eq_Some_conv)

lemma store_known: "p \<noteq> NULL \<Longrightarrow> h p = Some n \<Longrightarrow> store h p f = Some (h(p \<mapsto> f n))"
  by (simp add: store_def load_def)

lemma store_null [simp]: "store h NULL f = None"
  by (simp add: store_def)

lemmas mem_known [mem_simps] = load_known store_known

section \<open>Chains: null-terminated linked lists\<close>

text \<open>\<open>first_of xs q\<close> is the pointer that leads into the cells \<open>xs\<close> when the cell after them is \<open>q\<close>.\<close>

fun first_of :: "addr list \<Rightarrow> addr \<Rightarrow> addr" where
  "first_of [] q = q"
| "first_of (x # xs) q = x"

text \<open>
  \<open>chain nx h xs q\<close>: in the heap \<open>h\<close>, whose cells have their successor at \<open>nx\<close>, the cells \<open>xs\<close> are
  linked one after the other and the last one points to \<open>q\<close>.
\<close>

primrec chain :: "('n \<Rightarrow> addr) \<Rightarrow> (addr \<rightharpoonup> 'n) \<Rightarrow> addr list \<Rightarrow> addr \<Rightarrow> bool" where
  "chain nx h [] q \<longleftrightarrow> True"
| "chain nx h (x # xs) q \<longleftrightarrow>
     x \<noteq> NULL \<and> map_option nx (h x) = Some (first_of xs q) \<and> chain nx h xs q"

lemma first_of_append [simp]: "first_of (xs @ ys) q = first_of xs (first_of ys q)"
  by (cases xs) auto

lemma first_of_eq_hd: "xs \<noteq> [] \<Longrightarrow> first_of xs q = hd xs"
  by (cases xs) auto

lemma chain_append [simp]:
  "chain nx h (xs @ ys) q \<longleftrightarrow> chain nx h xs (first_of ys q) \<and> chain nx h ys q"
  by (induction xs) auto

lemma chain_frame [simp]: "a \<notin> set xs \<Longrightarrow> chain nx (h(a := v)) xs q \<longleftrightarrow> chain nx h xs q"
  by (induction xs) auto

lemma chain_nonnull: "chain nx h xs q \<Longrightarrow> x \<in> set xs \<Longrightarrow> x \<noteq> NULL"
  by (induction xs) auto

lemma chain_owned: "chain nx h xs q \<Longrightarrow> x \<in> set xs \<Longrightarrow> \<exists>n. h x = Some n"
  by (induction xs) auto

lemma chain_first_null: "chain nx h xs NULL \<Longrightarrow> first_of xs NULL = NULL \<longleftrightarrow> xs = []"
  by (cases xs) auto

text \<open>Redirecting the successor of the last cell retargets the chain.\<close>

lemma chain_retarget:
  assumes "chain nx h (xs @ [a]) q" and "distinct (xs @ [a])" and "nx v = r"
  shows "chain nx (h(a \<mapsto> v)) (xs @ [a]) r"
  using assms by auto

text \<open>A chain from a pointer to a fixed end is unique.\<close>

lemma chain_unique:
  "chain nx h xs NULL \<Longrightarrow> chain nx h ys NULL \<Longrightarrow> first_of xs NULL = first_of ys NULL \<Longrightarrow> xs = ys"
proof (induction xs arbitrary: ys)
  case Nil
  then show ?case by (cases ys) auto
next
  case (Cons x xs)
  then obtain ys' where "ys = x # ys'" by (cases ys) auto
  with Cons show ?case by auto
qed

text \<open>\<open>prev_of xs\<close> is the trailing pointer of a \<^verbatim>\<open>PREVPTR\<close> loop that has passed the cells \<open>xs\<close>.\<close>

definition prev_of :: "addr list \<Rightarrow> addr" where
  "prev_of xs = (if xs = [] then NULL else last xs)"

lemma prev_of_simps [simp]: "prev_of [] = NULL" "prev_of (xs @ [x]) = x"
  by (simp_all add: prev_of_def)

text \<open>\<^verbatim>\<open>free\<close>: a no-op on \<^verbatim>\<open>NULL\<close>, undefined on memory that is not owned (a double free).\<close>

definition release :: "(addr \<rightharpoonup> 'n) \<Rightarrow> addr \<Rightarrow> (addr \<rightharpoonup> 'n) option" where
  "release h p = (if p = NULL then Some h else if h p = None then None else Some (h(p := None)))"

lemma release_owned [mem_simps]: "p \<noteq> NULL \<Longrightarrow> h p = Some n \<Longrightarrow> release h p = Some (h(p := None))"
  by (simp add: release_def)

lemma restrict_drop [mem_simps]:
  "(\<lambda>a. if a = v then None else h a) |` (- S) = h |` (- insert v S)"
  "(h(v := None)) |` (- S) = h |` (- insert v S)"
  by (auto simp: restrict_map_def)

section \<open>Splitting lists around an element\<close>

lemma in_set_split_first:
  assumes "x \<in> set xs"
  obtains ys zs where "xs = ys @ x # zs" and "x \<notin> set ys"
  using assms by (meson split_list_first)

lemma remove1_split [simp]: "x \<notin> set ys \<Longrightarrow> remove1 x (ys @ x # zs) = ys @ zs"
  by (simp add: remove1_append)

end
