(* ===== verification/List_Interfaces.thy ===== *)
theory List_Interfaces
  imports Prelude
begin

text \<open>
  The contracts that the list flavours of \<^verbatim>\<open>include/list.h\<close> share, as locales.  A list flavour is given
  by a representation predicate \<open>repr m l xs\<close> (in memory \<open>m\<close>, the list whose head is at \<open>l\<close> holds the
  nodes \<open>xs\<close> in this order) and by its operations.  Each law says that the operation terminates without
  touching memory it does not own, what the list holds afterwards, and that every list apart from the
  one it works on stays as it is.

  The clients (pushing a batch, draining, moving nodes from one list to another, deleting a batch)
  are written once over the operations and proved once inside the locales.
\<close>

section \<open>Separation of two lists\<close>

definition apart :: "addr \<Rightarrow> addr list \<Rightarrow> addr \<Rightarrow> addr list \<Rightarrow> bool" where
  "apart l xs l' ys \<longleftrightarrow> set (l # xs) \<inter> set (l' # ys) = {}"

definition keeps_others ::
  "('m \<Rightarrow> addr \<Rightarrow> addr list \<Rightarrow> bool) \<Rightarrow> 'm \<Rightarrow> 'm \<Rightarrow> addr \<Rightarrow> addr list \<Rightarrow> bool" where
  "keeps_others repr m m' l xs \<longleftrightarrow> (\<forall>l' ys. repr m l' ys \<longrightarrow> apart l xs l' ys \<longrightarrow> repr m' l' ys)"

lemma apart_commute: "apart l xs l' ys \<longleftrightarrow> apart l' ys l xs"
  by (auto simp: apart_def)

lemma keeps_othersD: "keeps_others repr m m' l xs \<Longrightarrow> repr m l' ys \<Longrightarrow> apart l xs l' ys \<Longrightarrow> repr m' l' ys"
  by (auto simp: keeps_others_def)

section \<open>Clients of the operations\<close>

fun add_all :: "('m \<Rightarrow> addr \<Rightarrow> addr \<Rightarrow> 'm option) \<Rightarrow> 'm \<Rightarrow> addr \<Rightarrow> addr list \<Rightarrow> 'm option" where
  "add_all add m l [] = Some m"
| "add_all add m l (x # xs) = do { m \<leftarrow> add m l x; add_all add m l xs }"

fun del_n :: "('m \<Rightarrow> addr \<Rightarrow> (addr \<times> 'm) option) \<Rightarrow> 'm \<Rightarrow> addr \<Rightarrow> nat \<Rightarrow> (addr list \<times> 'm) option" where
  "del_n del m l 0 = Some ([], m)"
| "del_n del m l (Suc n) =
     do { (x, m) \<leftarrow> del m l;
          (xs, m) \<leftarrow> del_n del m l n;
          Some (x # xs, m) }"

fun move_n ::
  "('m \<Rightarrow> addr \<Rightarrow> (addr \<times> 'm) option) \<Rightarrow> ('m \<Rightarrow> addr \<Rightarrow> addr \<Rightarrow> 'm option) \<Rightarrow>
   'm \<Rightarrow> addr \<Rightarrow> addr \<Rightarrow> nat \<Rightarrow> 'm option" where
  "move_n del add m src dst 0 = Some m"
| "move_n del add m src dst (Suc n) =
     do { (x, m) \<leftarrow> del m src;
          m \<leftarrow> add m dst x;
          move_n del add m src dst n }"

section \<open>Stacks\<close>

locale list_stack =
  fixes repr :: "'m \<Rightarrow> addr \<Rightarrow> addr list \<Rightarrow> bool"
    and avail :: "'m \<Rightarrow> addr \<Rightarrow> addr \<Rightarrow> bool"
    and is_empty :: "'m \<Rightarrow> addr \<Rightarrow> bool option"
    and add_head :: "'m \<Rightarrow> addr \<Rightarrow> addr \<Rightarrow> 'm option"
    and del_head :: "'m \<Rightarrow> addr \<Rightarrow> (addr \<times> 'm) option"
  assumes repr_distinct: "repr m l xs \<Longrightarrow> distinct (l # xs)"
    and repr_avail: "repr m l xs \<Longrightarrow> x \<in> set xs \<Longrightarrow> l' \<noteq> x \<Longrightarrow> avail m l' x"
    and is_empty_law: "repr m l xs \<Longrightarrow> is_empty m l = Some (xs = [])"
    and add_head_law: "repr m l xs \<Longrightarrow> avail m l x \<Longrightarrow> x \<notin> set xs \<Longrightarrow>
      \<exists>m'. add_head m l x = Some m' \<and> repr m' l (x # xs) \<and> avail m' = avail m \<and>
           keeps_others repr m m' l (x # xs)"
    and del_head_law: "repr m l (x # xs) \<Longrightarrow>
      \<exists>m'. del_head m l = Some (x, m') \<and> repr m' l xs \<and> avail m' = avail m \<and>
           keeps_others repr m m' l (x # xs)"
    and del_head_empty_law: "repr m l [] \<Longrightarrow> del_head m l = Some (NULL, m)"
begin

lemma push_all:
  "repr m l ys \<Longrightarrow> distinct (xs @ ys) \<Longrightarrow> \<forall>x \<in> set xs. avail m l x \<Longrightarrow>
   \<exists>m'. add_all add_head m l xs = Some m' \<and> repr m' l (rev xs @ ys) \<and> avail m' = avail m"
proof (induction xs arbitrary: m ys)
  case Nil
  then show ?case by simp
next
  case (Cons x xs)
  then obtain m1 where m1: "add_head m l x = Some m1" "repr m1 l (x # ys)" "avail m1 = avail m"
    using add_head_law [of m l ys x] by auto
  with Cons.IH [of m1 "x # ys"] Cons.prems
  obtain m2 where "add_all add_head m1 l xs = Some m2" "repr m2 l (rev xs @ x # ys)" "avail m2 = avail m1"
    by auto
  with m1 show ?case by auto
qed

lemma pop_n:
  "repr m l (xs @ ys) \<Longrightarrow>
   \<exists>m'. del_n del_head m l (length xs) = Some (xs, m') \<and> repr m' l ys \<and> avail m' = avail m"
proof (induction xs arbitrary: m)
  case Nil
  then show ?case by simp
next
  case (Cons x xs)
  then obtain m1 where m1: "del_head m l = Some (x, m1)" "repr m1 l (xs @ ys)" "avail m1 = avail m"
    using del_head_law [of m l x "xs @ ys"] by auto
  with Cons.IH [of m1] show ?case by auto
qed

text \<open>Last in, first out: a batch pushed comes back in reverse order, and the list is as before.\<close>

lemma lifo:
  assumes "repr m l ys" and "distinct (xs @ ys)" and "\<forall>x \<in> set xs. avail m l x"
  shows "\<exists>m1 m2. add_all add_head m l xs = Some m1 \<and>
    del_n del_head m1 l (length xs) = Some (rev xs, m2) \<and> repr m2 l ys"
proof -
  from push_all [OF assms] obtain m1 where
    m1: "add_all add_head m l xs = Some m1" "repr m1 l (rev xs @ ys)" by blast
  from pop_n [OF m1(2)] obtain m2 where
    "del_n del_head m1 l (length (rev xs)) = Some (rev xs, m2)" "repr m2 l ys" by blast
  with m1(1) show ?thesis by auto
qed

end

section \<open>Queues\<close>

locale list_queue = list_stack +
  fixes add_tail :: "'m \<Rightarrow> addr \<Rightarrow> addr \<Rightarrow> 'm option"
  assumes add_tail_law: "repr m l xs \<Longrightarrow> avail m l x \<Longrightarrow> x \<notin> set xs \<Longrightarrow>
      \<exists>m'. add_tail m l x = Some m' \<and> repr m' l (xs @ [x]) \<and> avail m' = avail m \<and>
           keeps_others repr m m' l (x # xs)"
begin

lemma enqueue_all:
  "repr m l ys \<Longrightarrow> distinct (ys @ xs) \<Longrightarrow> \<forall>x \<in> set xs. avail m l x \<Longrightarrow>
   \<exists>m'. add_all add_tail m l xs = Some m' \<and> repr m' l (ys @ xs) \<and> avail m' = avail m"
proof (induction xs arbitrary: m ys)
  case Nil
  then show ?case by simp
next
  case (Cons x xs)
  then obtain m1 where m1: "add_tail m l x = Some m1" "repr m1 l (ys @ [x])" "avail m1 = avail m"
    using add_tail_law [of m l ys x] by auto
  with Cons.IH [of m1 "ys @ [x]"] Cons.prems show ?case by auto
qed

text \<open>First in, first out.\<close>

lemma fifo:
  assumes "repr m l ys" and "distinct (ys @ xs)" and "\<forall>x \<in> set xs. avail m l x"
  shows "\<exists>m1 m2. add_all add_tail m l xs = Some m1 \<and>
    del_n del_head m1 l (length (ys @ xs)) = Some (ys @ xs, m2) \<and> repr m2 l []"
proof -
  from enqueue_all [OF assms] obtain m1 where
    m1: "add_all add_tail m l xs = Some m1" "repr m1 l (ys @ xs)" by blast
  then have "repr m1 l ((ys @ xs) @ [])" by simp
  from pop_n [OF this] obtain m2 where
    "del_n del_head m1 l (length (ys @ xs)) = Some (ys @ xs, m2)" "repr m2 l []" by blast
  with m1(1) show ?thesis by auto
qed

text \<open>Moving nodes from the front of one queue to the back of another keeps their order.\<close>

lemma move_front:
  "repr m src (xs @ zs) \<Longrightarrow> repr m dst ys \<Longrightarrow> apart src (xs @ zs) dst ys \<Longrightarrow>
   \<exists>m'. move_n del_head add_tail m src dst (length xs) = Some m' \<and> repr m' src zs \<and> repr m' dst (ys @ xs)"
proof (induction xs arbitrary: m ys)
  case Nil
  then show ?case by simp
next
  case (Cons x xs)
  from Cons.prems(1) have dist: "distinct (src # x # xs @ zs)" using repr_distinct by fastforce
  from Cons.prems obtain m1 where
    m1: "del_head m src = Some (x, m1)" "repr m1 src (xs @ zs)" "avail m1 = avail m"
        "keeps_others repr m m1 src (x # xs @ zs)"
    using del_head_law [of m src x "xs @ zs"] by auto
  have dst1: "repr m1 dst ys"
    using m1(4) Cons.prems(2,3) by (auto dest: keeps_othersD)
  have "avail m1 dst x"
    unfolding m1(3) using Cons.prems(3) by (intro repr_avail [OF Cons.prems(1)]) (auto simp: apart_def)
  then obtain m2 where
    m2: "add_tail m1 dst x = Some m2" "repr m2 dst (ys @ [x])" "keeps_others repr m1 m2 dst (x # ys)"
    using add_tail_law [OF dst1, of x] Cons.prems(3) by (auto simp: apart_def)
  have "repr m2 src (xs @ zs)"
    using m2(3) m1(2) by (rule keeps_othersD) (use Cons.prems(3) dist in \<open>auto simp: apart_def\<close>)
  moreover have "apart src (xs @ zs) dst (ys @ [x])"
    using Cons.prems(3) dist by (auto simp: apart_def)
  ultimately obtain m3 where
    "move_n del_head add_tail m2 src dst (length xs) = Some m3" "repr m3 src zs" "repr m3 dst ((ys @ [x]) @ xs)"
    using Cons.IH [of m2 "ys @ [x]"] m2(2) by auto
  with m1(1) m2(1) show ?case by auto
qed

end

section \<open>Removal of a given node\<close>

locale list_removal = list_stack +
  fixes del :: "'m \<Rightarrow> addr \<Rightarrow> addr \<Rightarrow> 'm option"
  assumes del_law: "repr m l (xs @ x # ys) \<Longrightarrow>
      \<exists>m'. del m l x = Some m' \<and> repr m' l (xs @ ys) \<and> avail m' = avail m \<and>
           keeps_others repr m m' l (xs @ x # ys)"
begin

lemma del_remove1:
  assumes "repr m l xs" and "x \<in> set xs"
  shows "\<exists>m'. del m l x = Some m' \<and> repr m' l (remove1 x xs)"
proof -
  from assms(2) obtain ys zs where xs: "xs = ys @ x # zs" "x \<notin> set ys" by (rule in_set_split_first)
  with assms(1) del_law [of m l ys x zs] show ?thesis by auto
qed

text \<open>Deleting a batch of members, in any order, leaves exactly the others in their order.\<close>

lemma del_all:
  "repr m l xs \<Longrightarrow> set ds \<subseteq> set xs \<Longrightarrow> distinct ds \<Longrightarrow>
   \<exists>m'. add_all del m l ds = Some m' \<and> repr m' l (filter (\<lambda>x. x \<notin> set ds) xs)"
proof (induction ds arbitrary: m xs)
  case Nil
  then show ?case by simp
next
  case (Cons d ds)
  then obtain m1 where m1: "del m l d = Some m1" "repr m1 l (remove1 d xs)"
    using del_remove1 [of m l xs d] by auto
  have dist: "distinct xs" using repr_distinct [OF Cons.prems(1)] by simp
  have "set ds \<subseteq> set (remove1 d xs)" using Cons.prems dist by auto
  with Cons.IH [OF m1(2)] Cons.prems obtain m2 where
    "add_all del m1 l ds = Some m2" "repr m2 l (filter (\<lambda>x. x \<notin> set ds) (remove1 d xs))" by auto
  moreover have "filter (\<lambda>x. x \<notin> set ds) (remove1 d xs) = filter (\<lambda>x. x \<notin> set (d # ds)) xs"
    using dist by (simp add: distinct_remove1_removeAll removeAll_filter_not_eq) (metis)
  ultimately show ?case using m1(1) by auto
qed

end

section \<open>Concatenation of two lists\<close>

locale list_concat = list_stack +
  fixes append_list :: "'m \<Rightarrow> addr \<Rightarrow> addr \<Rightarrow> 'm option"
  assumes append_law: "repr m dst xs \<Longrightarrow> repr m src ys \<Longrightarrow> apart dst xs src ys \<Longrightarrow>
      \<exists>m'. append_list m dst src = Some m' \<and> repr m' dst (xs @ ys) \<and> repr m' src [] \<and>
           avail m' = avail m \<and> keeps_others repr m m' dst (xs @ src # ys)"
begin

text \<open>What was appended can be taken off again: popping all of the result yields both lists in order.\<close>

lemma append_then_drain:
  assumes "repr m dst xs" and "repr m src ys" and "apart dst xs src ys"
  shows "\<exists>m1 m2. append_list m dst src = Some m1 \<and>
    del_n del_head m1 dst (length (xs @ ys)) = Some (xs @ ys, m2) \<and> repr m2 dst []"
proof -
  from append_law [OF assms] obtain m1 where
    m1: "append_list m dst src = Some m1" "repr m1 dst (xs @ ys)" by blast
  then have "repr m1 dst ((xs @ ys) @ [])" by simp
  from pop_n [OF this] m1(1) show ?thesis by auto
qed

end

end
