(* ===== verification/Sl_List.thy ===== *)
theory Sl_List
  imports List_Interfaces
begin

text \<open>
  The singly linked list \<^verbatim>\<open>sl_*\<close> of \<^verbatim>\<open>include/list.h\<close>: a head that points to the first node, and
  nodes that hold one \<^verbatim>\<open>next\<close> pointer.  Heads and nodes are objects in memory, so an operation gets
  the memory and the addresses the C function gets, and aliasing of two heads is part of the model.
\<close>

section \<open>State\<close>

record sl_node =
  sl_node_next :: addr

record sl_head =
  sl_head_first :: addr

record sl_mem =
  sl_nodes :: "addr \<rightharpoonup> sl_node"
  sl_heads :: "addr \<rightharpoonup> sl_head"

definition sl_set_next :: "sl_mem \<Rightarrow> addr \<Rightarrow> addr \<Rightarrow> sl_mem option" where
  "sl_set_next m p v =
     map_option (\<lambda>h. m\<lparr>sl_nodes := h\<rparr>) (store (sl_nodes m) p (\<lambda>n. n\<lparr>sl_node_next := v\<rparr>))"

definition sl_set_first :: "sl_mem \<Rightarrow> addr \<Rightarrow> addr \<Rightarrow> sl_mem option" where
  "sl_set_first m l v =
     map_option (\<lambda>h. m\<lparr>sl_heads := h\<rparr>) (store (sl_heads m) l (\<lambda>n. n\<lparr>sl_head_first := v\<rparr>))"

section \<open>Operations\<close>

definition sl_init :: "sl_mem \<Rightarrow> addr \<Rightarrow> sl_mem option" where
  "sl_init m list = sl_set_first m list NULL"

definition sl_init_node :: "sl_mem \<Rightarrow> addr \<Rightarrow> sl_mem option" where
  "sl_init_node m node = sl_set_next m node NULL"

definition sl_first :: "sl_mem \<Rightarrow> addr \<Rightarrow> addr option" where
  "sl_first m list = map_option sl_head_first (load (sl_heads m) list)"

definition sl_is_empty :: "sl_mem \<Rightarrow> addr \<Rightarrow> bool option" where
  "sl_is_empty m list = do { f \<leftarrow> map_option sl_head_first (load (sl_heads m) list); Some (f = NULL) }"

definition sl_next :: "sl_mem \<Rightarrow> addr \<Rightarrow> addr option" where
  "sl_next m node = map_option sl_node_next (load (sl_nodes m) node)"

definition sl_add_head :: "sl_mem \<Rightarrow> addr \<Rightarrow> addr \<Rightarrow> sl_mem option" where
  "sl_add_head m list node =
     do { f \<leftarrow> sl_first m list;
          m \<leftarrow> sl_set_next m node f;
          sl_set_first m list node }"

definition sl_del_head :: "sl_mem \<Rightarrow> addr \<Rightarrow> (addr \<times> sl_mem) option" where
  "sl_del_head m list =
     do { node \<leftarrow> sl_first m list;
          if node \<noteq> NULL
          then do { nx \<leftarrow> sl_next m node;
                    m \<leftarrow> sl_set_first m list nx;
                    Some (node, m) }
          else Some (node, m) }"

definition sl_add_after :: "sl_mem \<Rightarrow> addr \<Rightarrow> addr \<Rightarrow> addr \<Rightarrow> sl_mem option" where
  "sl_add_after m list prev insrt =
     (if prev = NULL then sl_add_head m list insrt
      else do { pn \<leftarrow> sl_next m prev;
                m \<leftarrow> sl_set_next m insrt pn;
                sl_set_next m prev insrt })"

definition sl_del_after :: "sl_mem \<Rightarrow> addr \<Rightarrow> addr \<Rightarrow> (addr \<times> sl_mem) option" where
  "sl_del_after m list prev =
     (if prev = NULL then sl_del_head m list
      else do { node \<leftarrow> sl_next m prev;
                if node \<noteq> NULL
                then do { nn \<leftarrow> sl_next m node;
                          m \<leftarrow> sl_set_next m prev nn;
                          Some (node, m) }
                else Some (node, m) })"

text \<open>The loop of \<^verbatim>\<open>SL_FOREACH_PREVPTR\<close> in \<^verbatim>\<open>sl_del\<close>: \<open>cur\<close> runs over the nodes, \<open>prev\<close> one behind.\<close>

partial_function (option) sl_del_loop ::
  "sl_mem \<Rightarrow> addr \<Rightarrow> addr \<Rightarrow> addr \<Rightarrow> addr \<Rightarrow> sl_mem option" where
  "sl_del_loop m list node cur prev =
     (if cur = NULL then Some m
      else if cur = node then map_option snd (sl_del_after m list prev)
      else do { nx \<leftarrow> sl_next m cur; sl_del_loop m list node nx cur })"

definition sl_del :: "sl_mem \<Rightarrow> addr \<Rightarrow> addr \<Rightarrow> sl_mem option" where
  "sl_del m list node =
     do { f \<leftarrow> sl_first m list; sl_del_loop m list node f NULL }"

text \<open>The empty \<^verbatim>\<open>SL_FOREACH_PREVPTR\<close> loop of \<^verbatim>\<open>sl_append\<close>: the value of \<open>prev\<close> when the loop ends.\<close>

partial_function (option) sl_last_loop :: "sl_mem \<Rightarrow> addr \<Rightarrow> addr \<Rightarrow> addr option" where
  "sl_last_loop m cur prev =
     (if cur = NULL then Some prev
      else do { nx \<leftarrow> sl_next m cur; sl_last_loop m nx cur })"

definition sl_append :: "sl_mem \<Rightarrow> addr \<Rightarrow> addr \<Rightarrow> sl_mem option" where
  "sl_append m dest_list src_list =
     do { e \<leftarrow> sl_is_empty m src_list;
          if \<not> e
          then do { f \<leftarrow> sl_first m dest_list;
                    prev \<leftarrow> sl_last_loop m f NULL;
                    s \<leftarrow> sl_first m src_list;
                    m \<leftarrow> (if prev = NULL then sl_set_first m dest_list s else sl_set_next m prev s);
                    sl_init m src_list }
          else Some m }"

text \<open>The \<^verbatim>\<open>SL_FOREACH_SAFE\<close> loop: the successor is read before the body runs.\<close>

partial_function (option) sl_free_loop ::
  "(sl_mem \<Rightarrow> addr \<Rightarrow> sl_mem option) \<Rightarrow> sl_mem \<Rightarrow> addr \<Rightarrow> sl_mem option" where
  "sl_free_loop free_node m cur =
     (if cur = NULL then Some m
      else do { nx \<leftarrow> sl_next m cur;
                m \<leftarrow> free_node m cur;
                sl_free_loop free_node m nx })"

definition sl_free_all ::
  "(sl_mem \<Rightarrow> addr \<Rightarrow> sl_mem option) \<Rightarrow> sl_mem \<Rightarrow> addr \<Rightarrow> sl_mem option" where
  "sl_free_all free_node m list =
     do { f \<leftarrow> sl_first m list;
          m \<leftarrow> sl_free_loop free_node m f;
          sl_init m list }"

section \<open>Representation\<close>

abbreviation sl_chain :: "sl_mem \<Rightarrow> addr list \<Rightarrow> addr \<Rightarrow> bool" where
  "sl_chain m \<equiv> chain sl_node_next (sl_nodes m)"

definition sl_repr :: "sl_mem \<Rightarrow> addr \<Rightarrow> addr list \<Rightarrow> bool" where
  "sl_repr m list xs \<longleftrightarrow>
     list \<noteq> NULL \<and> map_option sl_head_first (sl_heads m list) = Some (first_of xs NULL) \<and>
     sl_chain m xs NULL \<and> distinct (list # xs)"

text \<open>A node object that may be linked into the list at \<open>list\<close>.\<close>

definition sl_avail :: "sl_mem \<Rightarrow> addr \<Rightarrow> addr \<Rightarrow> bool" where
  "sl_avail m list x \<longleftrightarrow> x \<noteq> NULL \<and> x \<noteq> list \<and> sl_nodes m x \<noteq> None"

lemma sl_availD: "sl_avail m l x \<Longrightarrow> x \<noteq> NULL \<and> x \<noteq> l \<and> (\<exists>n. sl_nodes m x = Some n)"
  by (auto simp: sl_avail_def)

lemmas sl_defs = sl_set_next_def sl_set_first_def sl_init_def sl_init_node_def sl_first_def
  sl_is_empty_def sl_next_def sl_add_head_def sl_del_head_def sl_add_after_def sl_del_after_def

section \<open>Single-step operations\<close>

lemma sl_avail_upd [simp]:
  "h x \<noteq> None \<Longrightarrow> sl_avail (m\<lparr>sl_nodes := h(x \<mapsto> v)\<rparr>) = sl_avail (m\<lparr>sl_nodes := h\<rparr>)"
  "sl_avail (m\<lparr>sl_nodes := sl_nodes m\<rparr>) = sl_avail m"
  "sl_avail (m\<lparr>sl_heads := g\<rparr>) = sl_avail m"
  by (auto simp: sl_avail_def fun_eq_iff)

lemma sl_is_empty_repr: "sl_repr m l xs \<Longrightarrow> sl_is_empty m l = Some (xs = [])"
  by (auto simp: sl_repr_def sl_defs mem_simps chain_first_null)

lemma sl_first_repr: "sl_repr m l xs \<Longrightarrow> sl_first m l = Some (first_of xs NULL)"
  by (auto simp: sl_repr_def sl_defs mem_simps)

lemma sl_add_head_repr:
  assumes "sl_repr m l xs" and "sl_avail m l x" and "x \<notin> set xs"
  shows "\<exists>m'. sl_add_head m l x = Some m' \<and> sl_repr m' l (x # xs) \<and> sl_avail m' = sl_avail m \<and>
    keeps_others sl_repr m m' l (x # xs)"
  using assms by (auto simp: sl_repr_def sl_defs mem_simps keeps_others_def apart_def dest!: sl_availD)

lemma sl_del_head_repr:
  assumes "sl_repr m l (x # xs)"
  shows "\<exists>m'. sl_del_head m l = Some (x, m') \<and> sl_repr m' l xs \<and> sl_avail m' = sl_avail m \<and>
    keeps_others sl_repr m m' l (x # xs)"
  using assms by (auto simp: sl_repr_def sl_defs mem_simps keeps_others_def apart_def)

lemma sl_del_head_empty: "sl_repr m l [] \<Longrightarrow> sl_del_head m l = Some (NULL, m)"
  by (auto simp: sl_repr_def sl_defs mem_simps)

lemma sl_add_after_repr:
  assumes "sl_repr m l (xs @ p # ys)" and "sl_avail m l x" and "x \<notin> set (xs @ p # ys)"
  shows "\<exists>m'. sl_add_after m l p x = Some m' \<and> sl_repr m' l (xs @ p # x # ys)"
  using assms by (auto simp: sl_repr_def sl_defs mem_simps dest!: sl_availD)

lemma sl_del_after_repr:
  assumes "sl_repr m l (xs @ p # x # ys)"
  shows "\<exists>m'. sl_del_after m l p = Some (x, m') \<and> sl_repr m' l (xs @ p # ys) \<and>
    sl_avail m' = sl_avail m \<and> keeps_others sl_repr m m' l (xs @ p # x # ys)"
  using assms by (auto simp: sl_repr_def sl_defs mem_simps keeps_others_def apart_def)


section \<open>Loops\<close>

lemma sl_repr_nonnull: "sl_repr m l xs \<Longrightarrow> x \<in> set xs \<Longrightarrow> x \<noteq> NULL"
  by (auto simp: sl_repr_def dest: chain_nonnull)

lemma sl_del_loop_found:
  "sl_repr m l (us @ vs @ x # ys) \<Longrightarrow>
   \<exists>m'. sl_del_loop m l x (first_of (vs @ [x]) NULL) (prev_of us) = Some m' \<and> sl_repr m' l (us @ vs @ ys) \<and>
        sl_avail m' = sl_avail m \<and> keeps_others sl_repr m m' l (us @ vs @ x # ys)"
proof (induction vs arbitrary: us)
  case Nil
  then have "x \<noteq> NULL" by (rule sl_repr_nonnull) simp
  then show ?case
  proof (cases us rule: rev_cases)
    case empty: Nil
    with Nil.prems \<open>x \<noteq> NULL\<close> sl_del_head_repr [of m l x ys] show ?thesis
      by (auto simp: sl_del_loop.simps [of m l x x] sl_del_after_def)
  next
    case (snoc us' p)
    with Nil.prems \<open>x \<noteq> NULL\<close> sl_del_after_repr [of m l us' p x ys] show ?thesis
      by (auto simp: sl_del_loop.simps [of m l x x])
  qed
next
  case (Cons v vs)
  then have "v \<noteq> x" "v \<noteq> NULL" "sl_next m v = Some (first_of (vs @ [x]) NULL)"
    by (auto simp: sl_repr_def sl_next_def mem_simps)
  then have "sl_del_loop m l x v (prev_of us) = sl_del_loop m l x (first_of (vs @ [x]) NULL) v"
    by (simp add: sl_del_loop.simps [of m l x v])
  with Cons.IH [of "us @ [v]"] Cons.prems show ?case by simp
qed

lemma sl_del_loop_absent:
  "sl_chain m vs NULL \<Longrightarrow> x \<notin> set vs \<Longrightarrow> sl_del_loop m l x (first_of vs NULL) prev = Some m"
proof (induction vs arbitrary: prev)
  case Nil
  then show ?case by (simp add: sl_del_loop.simps)
next
  case (Cons v vs)
  then show ?case
    by (auto simp: sl_del_loop.simps [of m l x v] sl_next_def mem_simps)
qed

lemma sl_last_loop_chain:
  "sl_chain m vs NULL \<Longrightarrow> sl_last_loop m (first_of vs NULL) prev = Some (last (prev # vs))"
proof (induction vs arbitrary: prev)
  case Nil
  then show ?case by (simp add: sl_last_loop.simps)
next
  case (Cons v vs)
  then show ?case
    by (auto simp: sl_last_loop.simps [of m v] sl_next_def mem_simps)
qed

lemma sl_del_repr:
  assumes "sl_repr m l (xs @ x # ys)"
  shows "\<exists>m'. sl_del m l x = Some m' \<and> sl_repr m' l (xs @ ys) \<and> sl_avail m' = sl_avail m \<and>
    keeps_others sl_repr m m' l (xs @ x # ys)"
  using sl_del_loop_found [of m l "[]" xs x ys] assms
  by (simp add: sl_del_def sl_first_repr [OF assms])

lemma sl_append_repr:
  assumes d: "sl_repr m dst xs" and s: "sl_repr m src ys" and "apart dst xs src ys"
  shows "\<exists>m'. sl_append m dst src = Some m' \<and> sl_repr m' dst (xs @ ys) \<and> sl_repr m' src [] \<and>
    sl_avail m' = sl_avail m \<and> keeps_others sl_repr m m' dst (xs @ src # ys)"
proof (cases "ys = []")
  case True
  with assms show ?thesis
    by (auto simp: sl_append_def sl_is_empty_repr keeps_others_def)
next
  case False
  have "sl_last_loop m (first_of xs NULL) NULL = Some (prev_of xs)"
    using sl_last_loop_chain [of m xs NULL] d by (simp add: sl_repr_def prev_of_def)
  with False assms show ?thesis
    by (cases xs rule: rev_cases)
       (auto simp: sl_append_def sl_is_empty_repr sl_first_repr sl_repr_def sl_defs mem_simps
          keeps_others_def apart_def chain_first_null)
qed

text \<open>\<^verbatim>\<open>free\<close> on a node, as the callback of \<^verbatim>\<open>sl_free_all\<close>.\<close>

definition sl_free_node :: "sl_mem \<Rightarrow> addr \<Rightarrow> sl_mem option" where
  "sl_free_node m p = map_option (\<lambda>h. m\<lparr>sl_nodes := h\<rparr>) (release (sl_nodes m) p)"

lemma sl_free_loop_chain:
  "sl_chain m vs NULL \<Longrightarrow> distinct vs \<Longrightarrow>
   sl_free_loop sl_free_node m (first_of vs NULL) = Some (m\<lparr>sl_nodes := sl_nodes m |` (- set vs)\<rparr>)"
proof (induction vs arbitrary: m)
  case Nil
  then show ?case by (simp add: sl_free_loop.simps)
next
  case (Cons v vs)
  let ?m = "m\<lparr>sl_nodes := (sl_nodes m)(v := None)\<rparr>"
  have "sl_chain ?m vs NULL" "distinct vs" using Cons.prems by simp_all
  from Cons.IH [OF this] Cons.prems show ?case
    by (auto simp: sl_free_loop.simps [of _ m v] sl_next_def sl_free_node_def mem_simps)
qed

section \<open>Interpretations\<close>

interpretation sl: list_stack sl_repr sl_avail sl_is_empty sl_add_head sl_del_head
proof
  show "sl_repr m l xs \<Longrightarrow> distinct (l # xs)" for m l xs
    by (simp add: sl_repr_def)
  show "sl_repr m l xs \<Longrightarrow> x \<in> set xs \<Longrightarrow> l' \<noteq> x \<Longrightarrow> sl_avail m l' x" for m l xs x l'
    by (auto simp: sl_repr_def sl_avail_def dest: chain_nonnull chain_owned)
qed (simp_all add: sl_is_empty_repr sl_add_head_repr sl_del_head_repr sl_del_head_empty)

interpretation sl: list_removal sl_repr sl_avail sl_is_empty sl_add_head sl_del_head sl_del
  by unfold_locales (rule sl_del_repr)

interpretation sl: list_concat sl_repr sl_avail sl_is_empty sl_add_head sl_del_head sl_append
  by unfold_locales (rule sl_append_repr)

section \<open>Properties\<close>

definition sl_example :: sl_mem where
  "sl_example = \<lparr>sl_nodes = [16 \<mapsto> \<lparr>sl_node_next = 40\<rparr>, 24 \<mapsto> \<lparr>sl_node_next = 0\<rparr>, 32 \<mapsto> \<lparr>sl_node_next = 0\<rparr>,
       40 \<mapsto> \<lparr>sl_node_next = 0\<rparr>],
     sl_heads = [8 \<mapsto> \<lparr>sl_head_first = 16\<rparr>]\<rparr>"

lemma sl_example_repr: "sl_repr sl_example 8 [16, 40]" "sl_avail sl_example 8 24" "sl_avail sl_example 8 32"
  by (simp_all add: sl_example_def sl_repr_def sl_avail_def)

text \<open>
  A singly linked list is a stack.  Pushing any batch of free nodes with \<^verbatim>\<open>sl_add_head\<close> and then taking as
  many off with \<^verbatim>\<open>sl_del_head\<close> never dereferences memory it does not own, returns the batch in reverse
  order, and leaves the list as it was.
\<close>

lemma sl_lifo:
  assumes "sl_repr m l ys" and "distinct (xs @ ys)" and "\<forall>x \<in> set xs. sl_avail m l x"
  shows "\<exists>m1 m2. add_all sl_add_head m l xs = Some m1 \<and>
    del_n sl_del_head m1 l (length xs) = Some (rev xs, m2) \<and> sl_repr m2 l ys"
  using assms by (rule sl.lifo)

text \<open>
  \<^verbatim>\<open>sl_del\<close> walks the list and removes exactly the node it is given; a node that is not in the list
  leaves the memory untouched.  In both cases the walk ends.
\<close>

lemma sl_del_spec:
  assumes "sl_repr m l xs"
  shows "\<exists>m'. sl_del m l x = Some m' \<and> sl_repr m' l (remove1 x xs) \<and> (x \<notin> set xs \<longrightarrow> m' = m)"
proof (cases "x \<in> set xs")
  case True
  with sl.del_remove1 [OF assms] show ?thesis by auto
next
  case False
  have "sl_del m l x = Some m"
    using sl_del_loop_absent [of m xs x l NULL] assms False sl_first_repr [OF assms]
    by (simp add: sl_del_def sl_repr_def)
  with False assms show ?thesis by (simp add: remove1_idem)
qed

text \<open>
  \<^verbatim>\<open>sl_free_all\<close> with \<^verbatim>\<open>free\<close> as its callback frees every node of the list exactly once, touches no freed
  node afterwards, and leaves an empty list.
\<close>

lemma sl_free_all_spec:
  assumes "sl_repr m l xs"
  shows "\<exists>m'. sl_free_all sl_free_node m l = Some m' \<and> sl_repr m' l [] \<and> sl_nodes m' = sl_nodes m |` (- set xs)"
  using assms sl_free_loop_chain [of m xs]
  by (auto simp: sl_free_all_def sl_first_repr sl_repr_def sl_init_def sl_set_first_def mem_simps)

end
