(* ===== verification/Stq_List.thy ===== *)
theory Stq_List
  imports List_Interfaces
begin

text \<open>
  The singly linked tail queue \<^verbatim>\<open>stq_*\<close> of \<^verbatim>\<open>include/list.h\<close>: as \<^verbatim>\<open>sl_*\<close>, with a \<^verbatim>\<open>last\<close> pointer in
  the head.  The representation ties \<^verbatim>\<open>last\<close> to the last node of the chain (\<^verbatim>\<open>NULL\<close> when empty); every
  operation is shown to keep that tie.
\<close>

section \<open>State\<close>

record stq_node =
  stq_node_next :: addr

record stq_head =
  stq_head_first :: addr
  stq_head_last :: addr

record stq_mem =
  stq_nodes :: "addr \<rightharpoonup> stq_node"
  stq_heads :: "addr \<rightharpoonup> stq_head"

definition stq_set_next :: "stq_mem \<Rightarrow> addr \<Rightarrow> addr \<Rightarrow> stq_mem option" where
  "stq_set_next m p v =
     map_option (\<lambda>h. m\<lparr>stq_nodes := h\<rparr>) (store (stq_nodes m) p (\<lambda>n. n\<lparr>stq_node_next := v\<rparr>))"

definition stq_set_first :: "stq_mem \<Rightarrow> addr \<Rightarrow> addr \<Rightarrow> stq_mem option" where
  "stq_set_first m l v =
     map_option (\<lambda>h. m\<lparr>stq_heads := h\<rparr>) (store (stq_heads m) l (\<lambda>n. n\<lparr>stq_head_first := v\<rparr>))"

definition stq_set_last :: "stq_mem \<Rightarrow> addr \<Rightarrow> addr \<Rightarrow> stq_mem option" where
  "stq_set_last m l v =
     map_option (\<lambda>h. m\<lparr>stq_heads := h\<rparr>) (store (stq_heads m) l (\<lambda>n. n\<lparr>stq_head_last := v\<rparr>))"

section \<open>Operations\<close>

definition stq_init :: "stq_mem \<Rightarrow> addr \<Rightarrow> stq_mem option" where
  "stq_init m list = do { m \<leftarrow> stq_set_first m list NULL; stq_set_last m list NULL }"

definition stq_init_node :: "stq_mem \<Rightarrow> addr \<Rightarrow> stq_mem option" where
  "stq_init_node m node = stq_set_next m node NULL"

definition stq_first :: "stq_mem \<Rightarrow> addr \<Rightarrow> addr option" where
  "stq_first m list = map_option stq_head_first (load (stq_heads m) list)"

definition stq_is_empty :: "stq_mem \<Rightarrow> addr \<Rightarrow> bool option" where
  "stq_is_empty m list = do { f \<leftarrow> map_option stq_head_first (load (stq_heads m) list); Some (f = NULL) }"

definition stq_last :: "stq_mem \<Rightarrow> addr \<Rightarrow> addr option" where
  "stq_last m list = map_option stq_head_last (load (stq_heads m) list)"

definition stq_next :: "stq_mem \<Rightarrow> addr \<Rightarrow> addr option" where
  "stq_next m node = map_option stq_node_next (load (stq_nodes m) node)"

definition stq_add_head :: "stq_mem \<Rightarrow> addr \<Rightarrow> addr \<Rightarrow> stq_mem option" where
  "stq_add_head m list node =
     do { f \<leftarrow> stq_first m list;
          m \<leftarrow> stq_set_next m node f;
          m \<leftarrow> stq_set_first m list node;
          la \<leftarrow> stq_last m list;
          if la = NULL then stq_set_last m list node else Some m }"

definition stq_del_head :: "stq_mem \<Rightarrow> addr \<Rightarrow> (addr \<times> stq_mem) option" where
  "stq_del_head m list =
     do { node \<leftarrow> stq_first m list;
          m \<leftarrow> (if node \<noteq> NULL
               then do { nx \<leftarrow> stq_next m node; stq_set_first m list nx }
               else Some m);
          f \<leftarrow> stq_first m list;
          m \<leftarrow> (if f = NULL then stq_set_last m list NULL else Some m);
          Some (node, m) }"

definition stq_add_tail :: "stq_mem \<Rightarrow> addr \<Rightarrow> addr \<Rightarrow> stq_mem option" where
  "stq_add_tail m list node =
     do { m \<leftarrow> stq_set_next m node NULL;
          la \<leftarrow> stq_last m list;
          if la \<noteq> NULL
          then do { m \<leftarrow> stq_set_next m la node; stq_set_last m list node }
          else do { m \<leftarrow> stq_set_last m list node; stq_set_first m list node } }"

definition stq_add_after :: "stq_mem \<Rightarrow> addr \<Rightarrow> addr \<Rightarrow> addr \<Rightarrow> stq_mem option" where
  "stq_add_after m list prev insrt =
     (if prev = NULL then stq_add_head m list insrt
      else do { pn \<leftarrow> stq_next m prev;
                m \<leftarrow> stq_set_next m insrt pn;
                m \<leftarrow> stq_set_next m prev insrt;
                la \<leftarrow> stq_last m list;
                if la = prev then stq_set_last m list insrt else Some m })"

definition stq_del_after :: "stq_mem \<Rightarrow> addr \<Rightarrow> addr \<Rightarrow> (addr \<times> stq_mem) option" where
  "stq_del_after m list prev =
     (if prev = NULL then stq_del_head m list
      else do { node \<leftarrow> stq_next m prev;
                m \<leftarrow> (if node \<noteq> NULL
                     then do { nn \<leftarrow> stq_next m node; stq_set_next m prev nn }
                     else Some m);
                la \<leftarrow> stq_last m list;
                m \<leftarrow> (if la = node then stq_set_last m list prev else Some m);
                Some (node, m) })"

partial_function (option) stq_del_loop ::
  "stq_mem \<Rightarrow> addr \<Rightarrow> addr \<Rightarrow> addr \<Rightarrow> addr \<Rightarrow> stq_mem option" where
  "stq_del_loop m list node cur prev =
     (if cur = NULL then Some m
      else if cur = node then map_option snd (stq_del_after m list prev)
      else do { nx \<leftarrow> stq_next m cur; stq_del_loop m list node nx cur })"

definition stq_del :: "stq_mem \<Rightarrow> addr \<Rightarrow> addr \<Rightarrow> stq_mem option" where
  "stq_del m list node = do { f \<leftarrow> stq_first m list; stq_del_loop m list node f NULL }"

partial_function (option) stq_last_loop :: "stq_mem \<Rightarrow> addr \<Rightarrow> addr \<Rightarrow> addr option" where
  "stq_last_loop m cur prev =
     (if cur = NULL then Some prev
      else do { nx \<leftarrow> stq_next m cur; stq_last_loop m nx cur })"

definition stq_append :: "stq_mem \<Rightarrow> addr \<Rightarrow> addr \<Rightarrow> stq_mem option" where
  "stq_append m dest_list src_list =
     do { e \<leftarrow> stq_is_empty m src_list;
          if \<not> e
          then do { f \<leftarrow> stq_first m dest_list;
                    prev \<leftarrow> stq_last_loop m f NULL;
                    m \<leftarrow> (if prev = NULL
                         then do { s \<leftarrow> stq_first m src_list;
                                   m \<leftarrow> stq_set_first m dest_list s;
                                   la \<leftarrow> stq_last m src_list;
                                   stq_set_last m dest_list la }
                         else do { s \<leftarrow> stq_first m src_list;
                                   m \<leftarrow> stq_set_next m prev s;
                                   la \<leftarrow> stq_last m src_list;
                                   stq_set_last m dest_list la });
                    stq_init m src_list }
          else Some m }"

partial_function (option) stq_free_loop ::
  "(stq_mem \<Rightarrow> addr \<Rightarrow> stq_mem option) \<Rightarrow> stq_mem \<Rightarrow> addr \<Rightarrow> stq_mem option" where
  "stq_free_loop free_node m cur =
     (if cur = NULL then Some m
      else do { nx \<leftarrow> stq_next m cur;
                m \<leftarrow> free_node m cur;
                stq_free_loop free_node m nx })"

definition stq_free_all ::
  "(stq_mem \<Rightarrow> addr \<Rightarrow> stq_mem option) \<Rightarrow> stq_mem \<Rightarrow> addr \<Rightarrow> stq_mem option" where
  "stq_free_all free_node m list =
     do { f \<leftarrow> stq_first m list;
          m \<leftarrow> stq_free_loop free_node m f;
          stq_init m list }"

section \<open>Representation\<close>

abbreviation stq_chain :: "stq_mem \<Rightarrow> addr list \<Rightarrow> addr \<Rightarrow> bool" where
  "stq_chain m \<equiv> chain stq_node_next (stq_nodes m)"

definition stq_repr :: "stq_mem \<Rightarrow> addr \<Rightarrow> addr list \<Rightarrow> bool" where
  "stq_repr m list xs \<longleftrightarrow>
     list \<noteq> NULL \<and> map_option stq_head_first (stq_heads m list) = Some (first_of xs NULL) \<and>
     map_option stq_head_last (stq_heads m list) = Some (prev_of xs) \<and>
     stq_chain m xs NULL \<and> distinct (list # xs)"

definition stq_avail :: "stq_mem \<Rightarrow> addr \<Rightarrow> addr \<Rightarrow> bool" where
  "stq_avail m list x \<longleftrightarrow> x \<noteq> NULL \<and> x \<noteq> list \<and> stq_nodes m x \<noteq> None"

lemma stq_availD: "stq_avail m l x \<Longrightarrow> x \<noteq> NULL \<and> x \<noteq> l \<and> (\<exists>n. stq_nodes m x = Some n)"
  by (auto simp: stq_avail_def)

lemmas stq_defs = stq_set_next_def stq_set_first_def stq_set_last_def stq_init_def stq_init_node_def
  stq_first_def stq_last_def stq_is_empty_def stq_next_def stq_add_head_def stq_del_head_def
  stq_add_tail_def stq_add_after_def stq_del_after_def

section \<open>Single-step operations\<close>

lemma stq_avail_upd [simp]:
  "h x \<noteq> None \<Longrightarrow> stq_avail (m\<lparr>stq_nodes := h(x \<mapsto> v)\<rparr>) = stq_avail (m\<lparr>stq_nodes := h\<rparr>)"
  "stq_avail (m\<lparr>stq_nodes := stq_nodes m\<rparr>) = stq_avail m"
  "stq_avail (m\<lparr>stq_heads := g\<rparr>) = stq_avail m"
  by (auto simp: stq_avail_def fun_eq_iff)

lemma stq_repr_nonnull: "stq_repr m l xs \<Longrightarrow> x \<in> set xs \<Longrightarrow> x \<noteq> NULL"
  by (auto simp: stq_repr_def dest: chain_nonnull)

lemma stq_is_empty_repr: "stq_repr m l xs \<Longrightarrow> stq_is_empty m l = Some (xs = [])"
  by (auto simp: stq_repr_def stq_defs mem_simps chain_first_null)

lemma stq_first_repr: "stq_repr m l xs \<Longrightarrow> stq_first m l = Some (first_of xs NULL)"
  by (auto simp: stq_repr_def stq_defs mem_simps)

lemma stq_last_repr: "stq_repr m l xs \<Longrightarrow> stq_last m l = Some (prev_of xs)"
  by (auto simp: stq_repr_def stq_defs mem_simps)

lemma stq_add_head_repr:
  assumes "stq_repr m l xs" and "stq_avail m l x" and "x \<notin> set xs"
  shows "\<exists>m'. stq_add_head m l x = Some m' \<and> stq_repr m' l (x # xs) \<and> stq_avail m' = stq_avail m \<and>
    keeps_others stq_repr m m' l (x # xs)"
  using assms
  by (cases xs rule: rev_cases)
     (auto simp: stq_repr_def stq_defs mem_simps keeps_others_def apart_def prev_of_def dest!: stq_availD)

lemma stq_del_head_repr:
  assumes "stq_repr m l (x # xs)"
  shows "\<exists>m'. stq_del_head m l = Some (x, m') \<and> stq_repr m' l xs \<and> stq_avail m' = stq_avail m \<and>
    keeps_others stq_repr m m' l (x # xs)"
  using assms
  by (cases xs)
     (auto simp: stq_repr_def stq_defs mem_simps keeps_others_def apart_def prev_of_def)

lemma stq_del_head_empty: "stq_repr m l [] \<Longrightarrow> stq_del_head m l = Some (NULL, m)"
  by (cases m) (auto simp: stq_repr_def stq_defs mem_simps fun_upd_idem)

lemma stq_add_tail_repr:
  assumes "stq_repr m l xs" and "stq_avail m l x" and "x \<notin> set xs"
  shows "\<exists>m'. stq_add_tail m l x = Some m' \<and> stq_repr m' l (xs @ [x]) \<and> stq_avail m' = stq_avail m \<and>
    keeps_others stq_repr m m' l (x # xs)"
  using assms
  by (cases xs rule: rev_cases)
     (auto simp: stq_repr_def stq_defs mem_simps keeps_others_def apart_def prev_of_def dest!: stq_availD)

lemma stq_add_after_repr:
  assumes "stq_repr m l (xs @ p # ys)" and "stq_avail m l x" and "x \<notin> set (xs @ p # ys)"
  shows "\<exists>m'. stq_add_after m l p x = Some m' \<and> stq_repr m' l (xs @ p # x # ys)"
  using assms
  by (cases ys rule: rev_cases)
     (auto simp: stq_repr_def stq_defs mem_simps prev_of_def dest!: stq_availD)

lemma stq_del_after_repr:
  assumes "stq_repr m l (xs @ p # x # ys)"
  shows "\<exists>m'. stq_del_after m l p = Some (x, m') \<and> stq_repr m' l (xs @ p # ys) \<and>
    stq_avail m' = stq_avail m \<and> keeps_others stq_repr m m' l (xs @ p # x # ys)"
  using assms
  by (cases ys rule: rev_cases)
     (auto simp: stq_repr_def stq_defs mem_simps keeps_others_def apart_def prev_of_def)


section \<open>Loops\<close>

lemma stq_del_loop_found:
  "stq_repr m l (us @ vs @ x # ys) \<Longrightarrow>
   \<exists>m'. stq_del_loop m l x (first_of (vs @ [x]) NULL) (prev_of us) = Some m' \<and> stq_repr m' l (us @ vs @ ys) \<and>
        stq_avail m' = stq_avail m \<and> keeps_others stq_repr m m' l (us @ vs @ x # ys)"
proof (induction vs arbitrary: us)
  case Nil
  then have "x \<noteq> NULL" by (rule stq_repr_nonnull) simp
  then show ?case
  proof (cases us rule: rev_cases)
    case empty: Nil
    with Nil.prems \<open>x \<noteq> NULL\<close> stq_del_head_repr [of m l x ys] show ?thesis
      by (auto simp: stq_del_loop.simps [of m l x x] stq_del_after_def)
  next
    case (snoc us' p)
    with Nil.prems \<open>x \<noteq> NULL\<close> stq_del_after_repr [of m l us' p x ys] show ?thesis
      by (auto simp: stq_del_loop.simps [of m l x x])
  qed
next
  case (Cons v vs)
  then have "v \<noteq> x" "v \<noteq> NULL" "stq_next m v = Some (first_of (vs @ [x]) NULL)"
    by (auto simp: stq_repr_def stq_next_def mem_simps)
  then have "stq_del_loop m l x v (prev_of us) = stq_del_loop m l x (first_of (vs @ [x]) NULL) v"
    by (simp add: stq_del_loop.simps [of m l x v])
  with Cons.IH [of "us @ [v]"] Cons.prems show ?case by simp
qed

lemma stq_del_loop_absent:
  "stq_chain m vs NULL \<Longrightarrow> x \<notin> set vs \<Longrightarrow> stq_del_loop m l x (first_of vs NULL) prev = Some m"
proof (induction vs arbitrary: prev)
  case Nil
  then show ?case by (simp add: stq_del_loop.simps)
next
  case (Cons v vs)
  then show ?case
    by (auto simp: stq_del_loop.simps [of m l x v] stq_next_def mem_simps)
qed

lemma stq_last_loop_chain:
  "stq_chain m vs NULL \<Longrightarrow> stq_last_loop m (first_of vs NULL) prev = Some (last (prev # vs))"
proof (induction vs arbitrary: prev)
  case Nil
  then show ?case by (simp add: stq_last_loop.simps)
next
  case (Cons v vs)
  then show ?case
    by (auto simp: stq_last_loop.simps [of m v] stq_next_def mem_simps)
qed

lemma stq_del_repr:
  assumes "stq_repr m l (xs @ x # ys)"
  shows "\<exists>m'. stq_del m l x = Some m' \<and> stq_repr m' l (xs @ ys) \<and> stq_avail m' = stq_avail m \<and>
    keeps_others stq_repr m m' l (xs @ x # ys)"
  using stq_del_loop_found [of m l "[]" xs x ys] assms
  by (simp add: stq_del_def stq_first_repr [OF assms])

lemma stq_append_repr:
  assumes d: "stq_repr m dst xs" and s: "stq_repr m src ys" and "apart dst xs src ys"
  shows "\<exists>m'. stq_append m dst src = Some m' \<and> stq_repr m' dst (xs @ ys) \<and> stq_repr m' src [] \<and>
    stq_avail m' = stq_avail m \<and> keeps_others stq_repr m m' dst (xs @ src # ys)"
proof (cases "ys = []")
  case True
  with assms show ?thesis
    by (auto simp: stq_append_def stq_is_empty_repr keeps_others_def)
next
  case False
  have "stq_last_loop m (first_of xs NULL) NULL = Some (prev_of xs)"
    using stq_last_loop_chain [of m xs NULL] d by (simp add: stq_repr_def prev_of_def)
  with False assms show ?thesis
    by (cases xs rule: rev_cases)
       (auto simp: stq_append_def stq_is_empty_repr stq_first_repr stq_repr_def stq_defs mem_simps
          keeps_others_def apart_def chain_first_null prev_of_def)
qed

text \<open>\<^verbatim>\<open>free\<close> on a node, as the callback of \<^verbatim>\<open>stq_free_all\<close>.\<close>

definition stq_free_node :: "stq_mem \<Rightarrow> addr \<Rightarrow> stq_mem option" where
  "stq_free_node m p = map_option (\<lambda>h. m\<lparr>stq_nodes := h\<rparr>) (release (stq_nodes m) p)"

lemma stq_free_loop_chain:
  "stq_chain m vs NULL \<Longrightarrow> distinct vs \<Longrightarrow>
   stq_free_loop stq_free_node m (first_of vs NULL) = Some (m\<lparr>stq_nodes := stq_nodes m |` (- set vs)\<rparr>)"
proof (induction vs arbitrary: m)
  case Nil
  then show ?case by (simp add: stq_free_loop.simps)
next
  case (Cons v vs)
  let ?m = "m\<lparr>stq_nodes := (stq_nodes m)(v := None)\<rparr>"
  have "stq_chain ?m vs NULL" "distinct vs" using Cons.prems by simp_all
  from Cons.IH [OF this] Cons.prems show ?case
    by (auto simp: stq_free_loop.simps [of _ m v] stq_next_def stq_free_node_def mem_simps)
qed

section \<open>Interpretations\<close>

interpretation stq: list_queue stq_repr stq_avail stq_is_empty stq_add_head stq_del_head stq_add_tail
proof
  show "stq_repr m l xs \<Longrightarrow> distinct (l # xs)" for m l xs
    by (simp add: stq_repr_def)
  show "stq_repr m l xs \<Longrightarrow> x \<in> set xs \<Longrightarrow> l' \<noteq> x \<Longrightarrow> stq_avail m l' x" for m l xs x l'
    by (auto simp: stq_repr_def stq_avail_def dest: chain_nonnull chain_owned)
qed (simp_all add: stq_is_empty_repr stq_add_head_repr stq_del_head_repr stq_del_head_empty stq_add_tail_repr)

interpretation stq: list_removal stq_repr stq_avail stq_is_empty stq_add_head stq_del_head stq_del
  by unfold_locales (rule stq_del_repr)

interpretation stq: list_concat stq_repr stq_avail stq_is_empty stq_add_head stq_del_head stq_append
  by unfold_locales (rule stq_append_repr)

section \<open>Properties\<close>

definition stq_example :: stq_mem where
  "stq_example = \<lparr>stq_nodes = [16 \<mapsto> \<lparr>stq_node_next = 24\<rparr>, 24 \<mapsto> \<lparr>stq_node_next = 0\<rparr>, 32 \<mapsto> \<lparr>stq_node_next = 0\<rparr>,
       40 \<mapsto> \<lparr>stq_node_next = 0\<rparr>],
     stq_heads = [8 \<mapsto> \<lparr>stq_head_first = 16, stq_head_last = 24\<rparr>, 48 \<mapsto> \<lparr>stq_head_first = 40, stq_head_last = 40\<rparr>]\<rparr>"

lemma stq_example_repr: "stq_repr stq_example 8 [16, 24]" "stq_repr stq_example 48 [40]" "stq_avail stq_example 8 32"
  by (simp_all add: stq_example_def stq_repr_def stq_avail_def prev_of_def)

text \<open>
  A singly linked tail queue is a queue.  Nodes added with \<^verbatim>\<open>stq_add_tail\<close> leave through \<^verbatim>\<open>stq_del_head\<close>
  behind those already there and in the order they came, until the queue is empty.
\<close>

lemma stq_fifo:
  assumes "stq_repr m l ys" and "distinct (ys @ xs)" and "\<forall>x \<in> set xs. stq_avail m l x"
  shows "\<exists>m1 m2. add_all stq_add_tail m l xs = Some m1 \<and>
    del_n stq_del_head m1 l (length (ys @ xs)) = Some (ys @ xs, m2) \<and> stq_repr m2 l []"
  using assms by (rule stq.fifo)

text \<open>
  Moving the first nodes of one queue one by one to the back of another keeps their order and splits the
  source where the moving stopped.
\<close>

lemma stq_move_front:
  assumes "stq_repr m src (xs @ zs)" and "stq_repr m dst ys" and "apart src (xs @ zs) dst ys"
  shows "\<exists>m'. move_n stq_del_head stq_add_tail m src dst (length xs) = Some m' \<and>
    stq_repr m' src zs \<and> stq_repr m' dst (ys @ xs)"
  using assms by (rule stq.move_front)

text \<open>
  \<^verbatim>\<open>stq_append\<close> moves all nodes of the source behind those of the destination: draining the destination
  yields both lists in order, and the source is empty.
\<close>

lemma stq_append_spec:
  assumes "stq_repr m dst xs" and "stq_repr m src ys" and "apart dst xs src ys"
  shows "\<exists>m1 m2. stq_append m dst src = Some m1 \<and> stq_repr m1 src [] \<and>
    del_n stq_del_head m1 dst (length (xs @ ys)) = Some (xs @ ys, m2) \<and> stq_repr m2 dst []"
  using stq.append_law [OF assms] stq.append_then_drain [OF assms] by fastforce

end
