(* ===== verification/Dl_List.thy ===== *)
theory Dl_List
  imports List_Interfaces
begin

text \<open>
  The doubly linked list \<^verbatim>\<open>dl_*\<close> of \<^verbatim>\<open>include/list.h\<close>.  A node's \<^verbatim>\<open>prev\<close> is the address of the pointer
  that leads to it: the \<^verbatim>\<open>first\<close> field of a head or the \<^verbatim>\<open>next\<close> field of a node.  Such a
  \<^verbatim>\<open>dl_node_t **\<close> is a value of the datatype \<open>dl_loc\<close>, read and written through \<open>dl_read\<close> and
  \<open>dl_write\<close>.
\<close>

section \<open>State\<close>

datatype dl_loc = LNull | LFirst addr | LNext addr

record dl_node =
  dl_node_next :: addr
  dl_node_prev :: dl_loc

record dl_head =
  dl_head_first :: addr

record dl_mem =
  dl_nodes :: "addr \<rightharpoonup> dl_node"
  dl_heads :: "addr \<rightharpoonup> dl_head"

definition dl_set_next :: "dl_mem \<Rightarrow> addr \<Rightarrow> addr \<Rightarrow> dl_mem option" where
  "dl_set_next m p v =
     map_option (\<lambda>h. m\<lparr>dl_nodes := h\<rparr>) (store (dl_nodes m) p (\<lambda>n. n\<lparr>dl_node_next := v\<rparr>))"

definition dl_set_prev :: "dl_mem \<Rightarrow> addr \<Rightarrow> dl_loc \<Rightarrow> dl_mem option" where
  "dl_set_prev m p v =
     map_option (\<lambda>h. m\<lparr>dl_nodes := h\<rparr>) (store (dl_nodes m) p (\<lambda>n. n\<lparr>dl_node_prev := v\<rparr>))"

definition dl_set_first :: "dl_mem \<Rightarrow> addr \<Rightarrow> addr \<Rightarrow> dl_mem option" where
  "dl_set_first m l v =
     map_option (\<lambda>h. m\<lparr>dl_heads := h\<rparr>) (store (dl_heads m) l (\<lambda>n. n\<lparr>dl_head_first := v\<rparr>))"

definition dl_get_prev :: "dl_mem \<Rightarrow> addr \<Rightarrow> dl_loc option" where
  "dl_get_prev m p = map_option dl_node_prev (load (dl_nodes m) p)"

fun dl_read :: "dl_mem \<Rightarrow> dl_loc \<Rightarrow> addr option" where
  "dl_read m LNull = None"
| "dl_read m (LFirst l) = map_option dl_head_first (load (dl_heads m) l)"
| "dl_read m (LNext p) = map_option dl_node_next (load (dl_nodes m) p)"

fun dl_write :: "dl_mem \<Rightarrow> dl_loc \<Rightarrow> addr \<Rightarrow> dl_mem option" where
  "dl_write m LNull v = None"
| "dl_write m (LFirst l) v = dl_set_first m l v"
| "dl_write m (LNext p) v = dl_set_next m p v"

text \<open>
  \<^verbatim>\<open>container_of(prev, struct dl_node, next)\<close>.  \<^verbatim>\<open>next\<close> and \<^verbatim>\<open>first\<close> are both at offset 0, so the address of
  the pointer is the address of the object that holds it, also when that object is a head.
\<close>

fun dl_node_from_ppre :: "dl_loc \<Rightarrow> addr" where
  "dl_node_from_ppre LNull = NULL"
| "dl_node_from_ppre (LFirst l) = l"
| "dl_node_from_ppre (LNext p) = p"

section \<open>Operations\<close>

definition dl_init :: "dl_mem \<Rightarrow> addr \<Rightarrow> dl_mem option" where
  "dl_init m list = dl_set_first m list NULL"

definition dl_init_node :: "dl_mem \<Rightarrow> addr \<Rightarrow> dl_mem option" where
  "dl_init_node m node = do { m \<leftarrow> dl_set_next m node NULL; dl_set_prev m node LNull }"

definition dl_first :: "dl_mem \<Rightarrow> addr \<Rightarrow> addr option" where
  "dl_first m list = map_option dl_head_first (load (dl_heads m) list)"

definition dl_is_empty :: "dl_mem \<Rightarrow> addr \<Rightarrow> bool option" where
  "dl_is_empty m list = do { f \<leftarrow> map_option dl_head_first (load (dl_heads m) list); Some (f = NULL) }"

definition dl_next :: "dl_mem \<Rightarrow> addr \<Rightarrow> addr option" where
  "dl_next m node = map_option dl_node_next (load (dl_nodes m) node)"

definition dl_prev :: "dl_mem \<Rightarrow> addr \<Rightarrow> addr option" where
  "dl_prev m node = map_option dl_node_from_ppre (dl_get_prev m node)"

definition dl_del :: "dl_mem \<Rightarrow> addr \<Rightarrow> dl_mem option" where
  "dl_del m node =
     do { pv \<leftarrow> dl_get_prev m node;
          m \<leftarrow> (if pv \<noteq> LNull then do { nx \<leftarrow> dl_next m node; dl_write m pv nx } else Some m);
          nx \<leftarrow> dl_next m node;
          if nx \<noteq> NULL then do { pv \<leftarrow> dl_get_prev m node; dl_set_prev m nx pv } else Some m }"

definition dl_del_and_init_node :: "dl_mem \<Rightarrow> addr \<Rightarrow> dl_mem option" where
  "dl_del_and_init_node m node = do { m \<leftarrow> dl_del m node; dl_init_node m node }"

definition dl_del_head_and_init_node :: "dl_mem \<Rightarrow> addr \<Rightarrow> (addr \<times> dl_mem) option" where
  "dl_del_head_and_init_node m list =
     do { node \<leftarrow> dl_first m list;
          nx \<leftarrow> dl_next m node;
          if nx = NULL then Some (NULL, m)
          else do { m \<leftarrow> dl_del_and_init_node m node; Some (node, m) } }"

definition dl_add_head :: "dl_mem \<Rightarrow> addr \<Rightarrow> addr \<Rightarrow> dl_mem option" where
  "dl_add_head m list node =
     do { m \<leftarrow> dl_set_prev m node (LFirst list);
          f \<leftarrow> dl_first m list;
          m \<leftarrow> dl_set_next m node f;
          nx \<leftarrow> dl_next m node;
          m \<leftarrow> (if nx \<noteq> NULL then dl_set_prev m nx (LNext node) else Some m);
          dl_set_first m list node }"

definition dl_del_head :: "dl_mem \<Rightarrow> addr \<Rightarrow> (addr \<times> dl_mem) option" where
  "dl_del_head m list =
     do { node \<leftarrow> dl_first m list;
          m \<leftarrow> (if node \<noteq> NULL then dl_del m node else Some m);
          Some (node, m) }"

definition dl_add_after :: "dl_mem \<Rightarrow> addr \<Rightarrow> addr \<Rightarrow> dl_mem option" where
  "dl_add_after m prev insrt =
     do { m \<leftarrow> dl_set_prev m insrt (LNext prev);
          pn \<leftarrow> dl_next m prev;
          m \<leftarrow> dl_set_next m insrt pn;
          m \<leftarrow> dl_set_next m prev insrt;
          nx \<leftarrow> dl_next m insrt;
          if nx \<noteq> NULL then dl_set_prev m nx (LNext insrt) else Some m }"

definition dl_add_after_prevptr :: "dl_mem \<Rightarrow> dl_loc \<Rightarrow> addr \<Rightarrow> dl_mem option" where
  "dl_add_after_prevptr m prev insrt =
     do { m \<leftarrow> dl_set_prev m insrt prev;
          pn \<leftarrow> dl_read m prev;
          m \<leftarrow> dl_set_next m insrt pn;
          m \<leftarrow> dl_write m prev insrt;
          nx \<leftarrow> dl_next m insrt;
          if nx \<noteq> NULL then dl_set_prev m nx (LNext insrt) else Some m }"

definition dl_add_before :: "dl_mem \<Rightarrow> addr \<Rightarrow> addr \<Rightarrow> dl_mem option" where
  "dl_add_before m nxt insrt =
     do { pv \<leftarrow> dl_get_prev m nxt;
          m \<leftarrow> dl_set_prev m insrt pv;
          m \<leftarrow> dl_set_next m insrt nxt;
          ipv \<leftarrow> dl_get_prev m insrt;
          m \<leftarrow> (if ipv \<noteq> LNull then dl_write m ipv insrt else Some m);
          inx \<leftarrow> dl_next m insrt;
          dl_set_prev m inx (LNext insrt) }"

text \<open>The empty \<^verbatim>\<open>DL_FOREACH_PREVPTR\<close> loop of \<^verbatim>\<open>dl_append\<close>: the value of \<open>prev\<close> when it ends.\<close>

partial_function (option) dl_last_loop :: "dl_mem \<Rightarrow> addr \<Rightarrow> dl_loc \<Rightarrow> dl_loc option" where
  "dl_last_loop m cur prev =
     (if cur = NULL then Some prev
      else do { nx \<leftarrow> dl_next m cur; dl_last_loop m nx (LNext cur) })"

definition dl_append :: "dl_mem \<Rightarrow> addr \<Rightarrow> addr \<Rightarrow> dl_mem option" where
  "dl_append m dest_list src_list =
     do { e \<leftarrow> dl_is_empty m src_list;
          if \<not> e
          then do { f \<leftarrow> dl_first m dest_list;
                    prev \<leftarrow> dl_last_loop m f (LFirst dest_list);
                    s \<leftarrow> dl_first m src_list;
                    m \<leftarrow> dl_write m prev s;
                    s \<leftarrow> dl_first m src_list;
                    m \<leftarrow> dl_set_prev m s prev;
                    dl_init m src_list }
          else Some m }"

partial_function (option) dl_free_loop ::
  "(dl_mem \<Rightarrow> addr \<Rightarrow> dl_mem option) \<Rightarrow> dl_mem \<Rightarrow> addr \<Rightarrow> dl_mem option" where
  "dl_free_loop free_node m cur =
     (if cur = NULL then Some m
      else do { nx \<leftarrow> dl_next m cur;
                m \<leftarrow> free_node m cur;
                dl_free_loop free_node m nx })"

definition dl_free_all ::
  "(dl_mem \<Rightarrow> addr \<Rightarrow> dl_mem option) \<Rightarrow> dl_mem \<Rightarrow> addr \<Rightarrow> dl_mem option" where
  "dl_free_all free_node m list =
     do { f \<leftarrow> dl_first m list;
          m \<leftarrow> dl_free_loop free_node m f;
          dl_init m list }"

section \<open>Representation\<close>

text \<open>
  \<open>dl_seg h loc xs q\<close>: the nodes \<open>xs\<close> are linked forward up to \<open>q\<close>, and each node's \<^verbatim>\<open>prev\<close> is the
  pointer that leads to it, starting from \<open>loc\<close>.
\<close>

primrec dl_seg :: "(addr \<rightharpoonup> dl_node) \<Rightarrow> dl_loc \<Rightarrow> addr list \<Rightarrow> addr \<Rightarrow> bool" where
  "dl_seg h loc [] q \<longleftrightarrow> True"
| "dl_seg h loc (x # xs) q \<longleftrightarrow>
     x \<noteq> NULL \<and> h x = Some \<lparr>dl_node_next = first_of xs q, dl_node_prev = loc\<rparr> \<and> dl_seg h (LNext x) xs q"

definition loc_after :: "dl_loc \<Rightarrow> addr list \<Rightarrow> dl_loc" where
  "loc_after loc xs = (if xs = [] then loc else LNext (last xs))"

lemma loc_after_simps [simp]:
  "loc_after loc [] = loc" "loc_after loc (xs @ [x]) = LNext x" "loc_after loc (x # xs) = loc_after (LNext x) xs"
  by (simp_all add: loc_after_def)

lemma dl_seg_append [simp]:
  "dl_seg h loc (xs @ ys) q \<longleftrightarrow> dl_seg h loc xs (first_of ys q) \<and> dl_seg h (loc_after loc xs) ys q"
  by (induction xs arbitrary: loc) auto

lemma dl_seg_frame [simp]: "a \<notin> set xs \<Longrightarrow> dl_seg (h(a := v)) loc xs q \<longleftrightarrow> dl_seg h loc xs q"
  by (induction xs arbitrary: loc) auto

lemma dl_seg_owned: "dl_seg h loc xs q \<Longrightarrow> x \<in> set xs \<Longrightarrow> x \<noteq> NULL \<and> (\<exists>n. h x = Some n)"
  by (induction xs arbitrary: loc) auto

lemma dl_seg_first_null: "dl_seg h loc xs NULL \<Longrightarrow> first_of xs NULL = NULL \<longleftrightarrow> xs = []"
  by (cases xs) auto

definition dl_repr :: "dl_mem \<Rightarrow> addr \<Rightarrow> addr list \<Rightarrow> bool" where
  "dl_repr m list xs \<longleftrightarrow>
     list \<noteq> NULL \<and> dl_heads m list = Some \<lparr>dl_head_first = first_of xs NULL\<rparr> \<and>
     dl_seg (dl_nodes m) (LFirst list) xs NULL \<and> distinct (list # xs)"

definition dl_avail :: "dl_mem \<Rightarrow> addr \<Rightarrow> addr \<Rightarrow> bool" where
  "dl_avail m list x \<longleftrightarrow> x \<noteq> NULL \<and> x \<noteq> list \<and> dl_nodes m x \<noteq> None"

lemma dl_availD: "dl_avail m l x \<Longrightarrow> x \<noteq> NULL \<and> x \<noteq> l \<and> (\<exists>nx pv. dl_nodes m x = Some \<lparr>dl_node_next = nx, dl_node_prev = pv\<rparr>)"
  by (auto simp: dl_avail_def) (metis dl_node.surjective old.unit.exhaust)

lemma dl_avail_upd [simp]:
  "h x \<noteq> None \<Longrightarrow> dl_avail (m\<lparr>dl_nodes := h(x \<mapsto> v)\<rparr>) = dl_avail (m\<lparr>dl_nodes := h\<rparr>)"
  "dl_avail (m\<lparr>dl_nodes := dl_nodes m\<rparr>) = dl_avail m"
  "dl_avail (m\<lparr>dl_heads := g\<rparr>) = dl_avail m"
  by (auto simp: dl_avail_def fun_eq_iff)

lemmas dl_defs = dl_set_next_def dl_set_prev_def dl_set_first_def dl_get_prev_def dl_init_def
  dl_init_node_def dl_first_def dl_is_empty_def dl_next_def dl_prev_def

section \<open>Single-step operations\<close>

lemma dl_is_empty_repr: "dl_repr m l xs \<Longrightarrow> dl_is_empty m l = Some (xs = [])"
  by (auto simp: dl_repr_def dl_defs mem_simps dl_seg_first_null)

lemma dl_first_repr: "dl_repr m l xs \<Longrightarrow> dl_first m l = Some (first_of xs NULL)"
  by (auto simp: dl_repr_def dl_defs mem_simps)

lemma dl_add_head_repr:
  assumes "dl_repr m l xs" and "dl_avail m l x" and "x \<notin> set xs"
  shows "\<exists>m'. dl_add_head m l x = Some m' \<and> dl_repr m' l (x # xs) \<and> dl_avail m' = dl_avail m \<and>
    keeps_others dl_repr m m' l (x # xs)"
  using assms
  by (cases xs) (auto simp: dl_repr_def dl_add_head_def dl_defs mem_simps keeps_others_def apart_def
      dest!: dl_availD)

lemma dl_add_after_repr:
  assumes "dl_repr m l (xs @ p # ys)" and "dl_avail m l x" and "x \<notin> set (xs @ p # ys)"
  shows "\<exists>m'. dl_add_after m p x = Some m' \<and> dl_repr m' l (xs @ p # x # ys)"
  using assms
  by (cases ys) (auto simp: dl_repr_def dl_add_after_def dl_defs mem_simps dest!: dl_availD)

lemma dl_add_after_prevptr_repr:
  assumes "dl_repr m l (xs @ ys)" and "dl_avail m l x" and "x \<notin> set (xs @ ys)"
  shows "\<exists>m'. dl_add_after_prevptr m (loc_after (LFirst l) xs) x = Some m' \<and> dl_repr m' l (xs @ x # ys)"
  using assms
  by (cases xs rule: rev_cases; cases ys)
     (auto simp: dl_repr_def dl_add_after_prevptr_def dl_defs mem_simps dest!: dl_availD)

lemma dl_add_before_repr:
  assumes "dl_repr m l (xs @ p # ys)" and "dl_avail m l x" and "x \<notin> set (xs @ p # ys)"
  shows "\<exists>m'. dl_add_before m p x = Some m' \<and> dl_repr m' l (xs @ x # p # ys)"
  using assms
  by (cases xs rule: rev_cases)
     (auto simp: dl_repr_def dl_add_before_def dl_defs mem_simps dest!: dl_availD)

lemma dl_del_repr:
  assumes "dl_repr m l (xs @ x # ys)"
  shows "\<exists>m'. dl_del m x = Some m' \<and> dl_repr m' l (xs @ ys) \<and> dl_avail m' = dl_avail m \<and>
    keeps_others dl_repr m m' l (xs @ x # ys)"
  using assms
  by (cases xs rule: rev_cases; cases ys)
     (auto simp: dl_repr_def dl_del_def dl_defs mem_simps keeps_others_def apart_def)

lemma dl_del_head_repr:
  assumes "dl_repr m l (x # xs)"
  shows "\<exists>m'. dl_del_head m l = Some (x, m') \<and> dl_repr m' l xs \<and> dl_avail m' = dl_avail m \<and>
    keeps_others dl_repr m m' l (x # xs)"
  using dl_del_repr [of m l "[]" x xs] assms
  by (auto simp: dl_del_head_def dl_first_repr) (auto simp: dl_repr_def)

lemma dl_del_head_empty: "dl_repr m l [] \<Longrightarrow> dl_del_head m l = Some (NULL, m)"
  by (simp add: dl_del_head_def dl_first_repr)


lemma dl_init_node_frame:
  "dl_avail m l x \<Longrightarrow> dl_repr m l xs \<Longrightarrow> x \<notin> set xs \<Longrightarrow>
   \<exists>m'. dl_init_node m x = Some m' \<and> dl_repr m' l xs \<and>
        dl_nodes m' x = Some \<lparr>dl_node_next = NULL, dl_node_prev = LNull\<rparr>"
  by (auto simp: dl_repr_def dl_defs mem_simps dest!: dl_availD)

lemma dl_del_and_init_node_repr:
  assumes "dl_repr m l (xs @ x # ys)"
  shows "\<exists>m'. dl_del_and_init_node m x = Some m' \<and> dl_repr m' l (xs @ ys) \<and>
    dl_nodes m' x = Some \<lparr>dl_node_next = NULL, dl_node_prev = LNull\<rparr>"
proof -
  from dl_del_repr [OF assms] obtain m1 where
    m1: "dl_del m x = Some m1" "dl_repr m1 l (xs @ ys)" "dl_avail m1 = dl_avail m" by blast
  moreover have "dl_avail m1 l x"
    using assms by (auto simp: m1(3) dl_repr_def dl_avail_def)
  moreover have "x \<notin> set (xs @ ys)"
    using assms by (auto simp: dl_repr_def)
  ultimately show ?thesis
    using dl_init_node_frame [of m1 l x "xs @ ys"] by (simp add: dl_del_and_init_node_def)
qed

lemma dl_prev_repr:
  assumes "dl_repr m l (xs @ x # ys)"
  shows "dl_prev m x = Some (dl_node_from_ppre (loc_after (LFirst l) xs))"
  using assms by (auto simp: dl_repr_def dl_defs mem_simps)

section \<open>Loops\<close>

lemma dl_last_loop_seg:
  "dl_seg (dl_nodes m) loc vs NULL \<Longrightarrow> dl_last_loop m (first_of vs NULL) loc = Some (loc_after loc vs)"
proof (induction vs arbitrary: loc)
  case Nil
  then show ?case by (simp add: dl_last_loop.simps)
next
  case (Cons v vs)
  then show ?case
    by (auto simp: dl_last_loop.simps [of m v] dl_next_def mem_simps)
qed

lemma dl_append_repr:
  assumes d: "dl_repr m dst xs" and s: "dl_repr m src ys" and "apart dst xs src ys"
  shows "\<exists>m'. dl_append m dst src = Some m' \<and> dl_repr m' dst (xs @ ys) \<and> dl_repr m' src [] \<and>
    dl_avail m' = dl_avail m \<and> keeps_others dl_repr m m' dst (xs @ src # ys)"
proof (cases ys)
  case Nil
  with assms show ?thesis
    by (auto simp: dl_append_def dl_is_empty_repr keeps_others_def)
next
  case (Cons y ys')
  have "dl_last_loop m (first_of xs NULL) (LFirst dst) = Some (loc_after (LFirst dst) xs)"
    using d by (intro dl_last_loop_seg) (simp add: dl_repr_def)
  with Cons assms show ?thesis
    by (cases xs rule: rev_cases)
       (auto simp: dl_append_def dl_is_empty_repr dl_first_repr dl_repr_def dl_defs mem_simps
          keeps_others_def apart_def)
qed

text \<open>\<^verbatim>\<open>free\<close> on a node, as the callback of \<^verbatim>\<open>dl_free_all\<close>.\<close>

definition dl_free_node :: "dl_mem \<Rightarrow> addr \<Rightarrow> dl_mem option" where
  "dl_free_node m p = map_option (\<lambda>h. m\<lparr>dl_nodes := h\<rparr>) (release (dl_nodes m) p)"

lemma dl_free_loop_seg:
  "dl_seg (dl_nodes m) loc vs NULL \<Longrightarrow> distinct vs \<Longrightarrow>
   dl_free_loop dl_free_node m (first_of vs NULL) = Some (m\<lparr>dl_nodes := dl_nodes m |` (- set vs)\<rparr>)"
proof (induction vs arbitrary: m loc)
  case Nil
  then show ?case by (simp add: dl_free_loop.simps)
next
  case (Cons v vs)
  let ?m = "m\<lparr>dl_nodes := (dl_nodes m)(v := None)\<rparr>"
  have "dl_seg (dl_nodes ?m) (LNext v) vs NULL" "distinct vs" using Cons.prems by simp_all
  from Cons.IH [OF this] Cons.prems show ?case
    by (auto simp: dl_free_loop.simps [of _ m v] dl_next_def dl_free_node_def mem_simps)
qed

section \<open>Interpretations\<close>

interpretation dl: list_stack dl_repr dl_avail dl_is_empty dl_add_head dl_del_head
proof
  show "dl_repr m l xs \<Longrightarrow> distinct (l # xs)" for m l xs
    by (simp add: dl_repr_def)
  show "dl_repr m l xs \<Longrightarrow> x \<in> set xs \<Longrightarrow> l' \<noteq> x \<Longrightarrow> dl_avail m l' x" for m l xs x l'
    by (auto simp: dl_repr_def dl_avail_def dest: dl_seg_owned)
qed (simp_all add: dl_is_empty_repr dl_add_head_repr dl_del_head_repr dl_del_head_empty)

text \<open>\<^verbatim>\<open>dl_del\<close> needs the node only: the list it is in is found through \<^verbatim>\<open>prev\<close>.\<close>

interpretation dl: list_removal dl_repr dl_avail dl_is_empty dl_add_head dl_del_head "\<lambda>m l. dl_del m"
  by unfold_locales (rule dl_del_repr)

interpretation dl: list_concat dl_repr dl_avail dl_is_empty dl_add_head dl_del_head dl_append
  by unfold_locales (rule dl_append_repr)

section \<open>Properties\<close>

definition dl_example :: dl_mem where
  "dl_example = \<lparr>dl_nodes = [16 \<mapsto> \<lparr>dl_node_next = 24, dl_node_prev = LFirst 8\<rparr>,
       24 \<mapsto> \<lparr>dl_node_next = 32, dl_node_prev = LNext 16\<rparr>, 32 \<mapsto> \<lparr>dl_node_next = 0, dl_node_prev = LNext 24\<rparr>,
       40 \<mapsto> \<lparr>dl_node_next = 0, dl_node_prev = LNull\<rparr>, 56 \<mapsto> \<lparr>dl_node_next = 0, dl_node_prev = LFirst 48\<rparr>],
     dl_heads = [8 \<mapsto> \<lparr>dl_head_first = 16\<rparr>, 48 \<mapsto> \<lparr>dl_head_first = 56\<rparr>]\<rparr>"

lemma dl_example_repr: "dl_repr dl_example 8 [16, 24, 32]" "dl_repr dl_example 48 [56]" "dl_avail dl_example 8 40"
  by (simp_all add: dl_example_def dl_repr_def dl_avail_def)

text \<open>
  \<^verbatim>\<open>dl_del\<close> unlinks a node without knowing its list: deleting any set of members, in any order, leaves
  exactly the other nodes, in their order.
\<close>

lemma dl_del_all:
  assumes "dl_repr m l xs" and "set ds \<subseteq> set xs" and "distinct ds"
  shows "\<exists>m'. add_all (\<lambda>m l. dl_del m) m l ds = Some m' \<and> dl_repr m' l (filter (\<lambda>x. x \<notin> set ds) xs)"
  using assms by (rule dl.del_all)

text \<open>
  Insertion next to a member: \<^verbatim>\<open>dl_add_before\<close> and \<^verbatim>\<open>dl_add_after\<close> put a free node directly before and
  directly after the given node, whatever its position.
\<close>

lemma dl_add_beside:
  assumes "dl_repr m l (xs @ p # ys)" and "dl_avail m l x" and "x \<notin> set (xs @ p # ys)"
  shows "(\<exists>m'. dl_add_before m p x = Some m' \<and> dl_repr m' l (xs @ x # p # ys)) \<and>
    (\<exists>m'. dl_add_after m p x = Some m' \<and> dl_repr m' l (xs @ p # x # ys))"
  using dl_add_before_repr [OF assms] dl_add_after_repr [OF assms] by blast

text \<open>
  \<^verbatim>\<open>dl_del_head_and_init_node\<close> tests the successor of the first node instead of the first node.  On an
  empty list it dereferences \<^verbatim>\<open>NULL\<close>; on a list of one node it returns \<^verbatim>\<open>NULL\<close> and removes nothing; only from two
  nodes on does it remove and return the first one, with its links cleared.
\<close>

lemma dl_del_head_and_init_node_spec:
  assumes "dl_repr m l xs"
  shows "(xs = [] \<longrightarrow> dl_del_head_and_init_node m l = None) \<and>
    (\<forall>x. xs = [x] \<longrightarrow> dl_del_head_and_init_node m l = Some (NULL, m)) \<and>
    (\<forall>x y zs. xs = x # y # zs \<longrightarrow> (\<exists>m'. dl_del_head_and_init_node m l = Some (x, m') \<and> dl_repr m' l (y # zs) \<and>
       dl_nodes m' x = Some \<lparr>dl_node_next = NULL, dl_node_prev = LNull\<rparr>))"
proof (intro conjI allI impI)
  note first = dl_first_repr [OF assms]
  show "dl_del_head_and_init_node m l = None" if "xs = []"
    using first that by (simp add: dl_del_head_and_init_node_def dl_next_def)
  show "dl_del_head_and_init_node m l = Some (NULL, m)" if "xs = [x]" for x
    using first that assms by (simp add: dl_del_head_and_init_node_def dl_next_def dl_repr_def mem_simps)
  fix x y zs
  assume xs: "xs = x # y # zs"
  obtain m' where "dl_del_and_init_node m x = Some m'" "dl_repr m' l (y # zs)"
      "dl_nodes m' x = Some \<lparr>dl_node_next = NULL, dl_node_prev = LNull\<rparr>"
    using dl_del_and_init_node_repr [of m l "[]" x "y # zs"] assms xs by auto
  moreover have "dl_next m x = Some y" "y \<noteq> NULL"
    using assms xs by (auto simp: dl_next_def dl_repr_def mem_simps)
  ultimately show "\<exists>m'. dl_del_head_and_init_node m l = Some (x, m') \<and> dl_repr m' l (y # zs) \<and>
      dl_nodes m' x = Some \<lparr>dl_node_next = NULL, dl_node_prev = LNull\<rparr>"
    using first xs by (simp add: dl_del_head_and_init_node_def)
qed

end
