(* ===== verification/Dtq_List.thy ===== *)
theory Dtq_List
  imports List_Interfaces
begin

text \<open>
  The doubly linked tail queue \<^verbatim>\<open>dtq_*\<close> of \<^verbatim>\<open>include/list.h\<close>: a ring through a sentinel.
  \<^verbatim>\<open>dtq_head_t\<close> has one member, the sentinel node, so \<^verbatim>\<open>&list->head\<close> is the address of the head itself and
  sentinels live in the same memory as nodes.
\<close>

section \<open>State\<close>

record dtq_node =
  dtq_node_prev :: addr
  dtq_node_next :: addr

record dtq_mem =
  dtq_nodes :: "addr \<rightharpoonup> dtq_node"

definition dtq_set_next :: "dtq_mem \<Rightarrow> addr \<Rightarrow> addr \<Rightarrow> dtq_mem option" where
  "dtq_set_next m p v =
     map_option (\<lambda>h. m\<lparr>dtq_nodes := h\<rparr>) (store (dtq_nodes m) p (\<lambda>n. n\<lparr>dtq_node_next := v\<rparr>))"

definition dtq_set_prev :: "dtq_mem \<Rightarrow> addr \<Rightarrow> addr \<Rightarrow> dtq_mem option" where
  "dtq_set_prev m p v =
     map_option (\<lambda>h. m\<lparr>dtq_nodes := h\<rparr>) (store (dtq_nodes m) p (\<lambda>n. n\<lparr>dtq_node_prev := v\<rparr>))"

section \<open>Operations\<close>

definition dtq_prev :: "dtq_mem \<Rightarrow> addr \<Rightarrow> addr option" where
  "dtq_prev m node = map_option dtq_node_prev (load (dtq_nodes m) node)"

definition dtq_next :: "dtq_mem \<Rightarrow> addr \<Rightarrow> addr option" where
  "dtq_next m node = map_option dtq_node_next (load (dtq_nodes m) node)"

definition dtq_init :: "dtq_mem \<Rightarrow> addr \<Rightarrow> dtq_mem option" where
  "dtq_init m list = do { m \<leftarrow> dtq_set_next m list list; dtq_set_prev m list list }"

definition dtq_init_node :: "dtq_mem \<Rightarrow> addr \<Rightarrow> dtq_mem option" where
  "dtq_init_node m node = do { m \<leftarrow> dtq_set_next m node NULL; dtq_set_prev m node NULL }"

definition dtq_is_empty :: "dtq_mem \<Rightarrow> addr \<Rightarrow> bool option" where
  "dtq_is_empty m list = do { n \<leftarrow> dtq_next m list; Some (n = list) }"

definition dtq_first :: "dtq_mem \<Rightarrow> addr \<Rightarrow> addr option" where
  "dtq_first m list = do { node \<leftarrow> dtq_next m list; if node = list then Some NULL else Some node }"

definition dtq_last :: "dtq_mem \<Rightarrow> addr \<Rightarrow> addr option" where
  "dtq_last m list = do { node \<leftarrow> dtq_prev m list; if node = list then Some NULL else Some node }"

definition dtq_is_end :: "dtq_mem \<Rightarrow> addr \<Rightarrow> addr \<Rightarrow> bool option" where
  "dtq_is_end m list node =
     do { e \<leftarrow> dtq_is_empty m list;
          if e then Some True
          else if node = NULL then Some True
          else Some (node = list) }"

definition dtq_add_after :: "dtq_mem \<Rightarrow> addr \<Rightarrow> addr \<Rightarrow> dtq_mem option" where
  "dtq_add_after m prev insrt =
     do { m \<leftarrow> dtq_set_prev m insrt prev;
          pn \<leftarrow> dtq_next m prev;
          m \<leftarrow> dtq_set_next m insrt pn;
          m \<leftarrow> dtq_set_next m prev insrt;
          inx \<leftarrow> dtq_next m insrt;
          dtq_set_prev m inx insrt }"

definition dtq_add_before :: "dtq_mem \<Rightarrow> addr \<Rightarrow> addr \<Rightarrow> dtq_mem option" where
  "dtq_add_before m nxt insrt =
     do { np \<leftarrow> dtq_prev m nxt;
          m \<leftarrow> dtq_set_prev m insrt np;
          m \<leftarrow> dtq_set_next m insrt nxt;
          ip \<leftarrow> dtq_prev m insrt;
          m \<leftarrow> dtq_set_next m ip insrt;
          inx \<leftarrow> dtq_next m insrt;
          dtq_set_prev m inx insrt }"

definition dtq_del :: "dtq_mem \<Rightarrow> addr \<Rightarrow> dtq_mem option" where
  "dtq_del m node =
     do { p \<leftarrow> dtq_prev m node;
          n \<leftarrow> dtq_next m node;
          m \<leftarrow> dtq_set_next m p n;
          n \<leftarrow> dtq_next m node;
          p \<leftarrow> dtq_prev m node;
          dtq_set_prev m n p }"

definition dtq_add_head :: "dtq_mem \<Rightarrow> addr \<Rightarrow> addr \<Rightarrow> dtq_mem option" where
  "dtq_add_head m list node = dtq_add_after m list node"

definition dta_del_head :: "dtq_mem \<Rightarrow> addr \<Rightarrow> (addr \<times> dtq_mem) option" where
  "dta_del_head m list =
     do { node \<leftarrow> dtq_first m list;
          e \<leftarrow> dtq_is_end m list node;
          if e then Some (NULL, m)
          else do { m \<leftarrow> dtq_del m node; Some (node, m) } }"

definition dtq_add_tail :: "dtq_mem \<Rightarrow> addr \<Rightarrow> addr \<Rightarrow> dtq_mem option" where
  "dtq_add_tail m list node = dtq_add_before m list node"

definition dtq_del_tail :: "dtq_mem \<Rightarrow> addr \<Rightarrow> (addr \<times> dtq_mem) option" where
  "dtq_del_tail m list =
     do { node \<leftarrow> dtq_last m list;
          e \<leftarrow> dtq_is_end m list node;
          if e then Some (NULL, m)
          else do { m \<leftarrow> dtq_del m node; Some (node, m) } }"

definition dtq_node_is_linked :: "dtq_mem \<Rightarrow> addr \<Rightarrow> bool option" where
  "dtq_node_is_linked m node = do { n \<leftarrow> dtq_next m node; Some (n \<noteq> NULL) }"

definition dtq_del_and_init_node :: "dtq_mem \<Rightarrow> addr \<Rightarrow> dtq_mem option" where
  "dtq_del_and_init_node m node =
     do { b \<leftarrow> dtq_node_is_linked m node;
          m \<leftarrow> (if b then dtq_del m node else Some m);
          dtq_init_node m node }"

definition dtq_del_head_and_init_node :: "dtq_mem \<Rightarrow> addr \<Rightarrow> (addr \<times> dtq_mem) option" where
  "dtq_del_head_and_init_node m list =
     do { node \<leftarrow> dtq_first m list;
          e \<leftarrow> dtq_is_end m list node;
          if e then Some (NULL, m)
          else do { m \<leftarrow> dtq_del_and_init_node m node; Some (node, m) } }"

definition dtq_move_and_add_tail :: "dtq_mem \<Rightarrow> addr \<Rightarrow> addr \<Rightarrow> dtq_mem option" where
  "dtq_move_and_add_tail m head node =
     do { b \<leftarrow> dtq_node_is_linked m node;
          m \<leftarrow> (if b then dtq_del m node else Some m);
          dtq_add_tail m head node }"

definition dtq_append :: "dtq_mem \<Rightarrow> addr \<Rightarrow> addr \<Rightarrow> dtq_mem option" where
  "dtq_append m dest_list src_list =
     do { e \<leftarrow> dtq_is_empty m src_list;
          if \<not> e
          then do { sn \<leftarrow> dtq_next m src_list;
                    dp \<leftarrow> dtq_prev m dest_list;
                    m \<leftarrow> dtq_set_prev m sn dp;
                    sp \<leftarrow> dtq_prev m src_list;
                    dp \<leftarrow> dtq_prev m dest_list;
                    dpn \<leftarrow> dtq_next m dp;
                    m \<leftarrow> dtq_set_next m sp dpn;
                    dp \<leftarrow> dtq_prev m dest_list;
                    sn \<leftarrow> dtq_next m src_list;
                    m \<leftarrow> dtq_set_next m dp sn;
                    sp \<leftarrow> dtq_prev m src_list;
                    m \<leftarrow> dtq_set_prev m dest_list sp;
                    dtq_init m src_list }
          else Some m }"

partial_function (option) dtq_free_loop ::
  "(dtq_mem \<Rightarrow> addr \<Rightarrow> dtq_mem option) \<Rightarrow> dtq_mem \<Rightarrow> addr \<Rightarrow> addr \<Rightarrow> dtq_mem option" where
  "dtq_free_loop free_node m list cur =
     (if cur = list then Some m
      else do { nx \<leftarrow> dtq_next m cur;
                m \<leftarrow> free_node m cur;
                dtq_free_loop free_node m list nx })"

definition dtq_free_all ::
  "(dtq_mem \<Rightarrow> addr \<Rightarrow> dtq_mem option) \<Rightarrow> dtq_mem \<Rightarrow> addr \<Rightarrow> dtq_mem option" where
  "dtq_free_all free_node m list =
     do { f \<leftarrow> dtq_next m list;
          m \<leftarrow> dtq_free_loop free_node m list f;
          dtq_init m list }"

section \<open>Representation\<close>

text \<open>\<open>dtq_seg h p xs q\<close>: the nodes \<open>xs\<close> are linked in both directions between \<open>p\<close> and \<open>q\<close>.\<close>

primrec dtq_seg :: "(addr \<rightharpoonup> dtq_node) \<Rightarrow> addr \<Rightarrow> addr list \<Rightarrow> addr \<Rightarrow> bool" where
  "dtq_seg h p [] q \<longleftrightarrow> True"
| "dtq_seg h p (x # xs) q \<longleftrightarrow>
     x \<noteq> NULL \<and> h x = Some \<lparr>dtq_node_prev = p, dtq_node_next = first_of xs q\<rparr> \<and> dtq_seg h x xs q"

lemma dtq_seg_append [simp]:
  "dtq_seg h p (xs @ ys) q \<longleftrightarrow> dtq_seg h p xs (first_of ys q) \<and> dtq_seg h (last (p # xs)) ys q"
  by (induction xs arbitrary: p) auto

lemma dtq_seg_frame [simp]: "a \<notin> set xs \<Longrightarrow> dtq_seg (h(a := v)) p xs q \<longleftrightarrow> dtq_seg h p xs q"
  by (induction xs arbitrary: p) auto

lemma dtq_seg_owned: "dtq_seg h p xs q \<Longrightarrow> x \<in> set xs \<Longrightarrow> x \<noteq> NULL \<and> (\<exists>n. h x = Some n)"
  by (induction xs arbitrary: p) auto

definition dtq_repr :: "dtq_mem \<Rightarrow> addr \<Rightarrow> addr list \<Rightarrow> bool" where
  "dtq_repr m list xs \<longleftrightarrow>
     list \<noteq> NULL \<and>
     dtq_nodes m list = Some \<lparr>dtq_node_prev = last (list # xs), dtq_node_next = first_of xs list\<rparr> \<and>
     dtq_seg (dtq_nodes m) list xs list \<and> distinct (list # xs)"

definition dtq_avail :: "dtq_mem \<Rightarrow> addr \<Rightarrow> addr \<Rightarrow> bool" where
  "dtq_avail m list x \<longleftrightarrow> x \<noteq> NULL \<and> x \<noteq> list \<and> dtq_nodes m x \<noteq> None"

lemma dtq_availD:
  "dtq_avail m l x \<Longrightarrow>
   x \<noteq> NULL \<and> x \<noteq> l \<and> (\<exists>pv nx. dtq_nodes m x = Some \<lparr>dtq_node_prev = pv, dtq_node_next = nx\<rparr>)"
  by (auto simp: dtq_avail_def) (metis dtq_node.surjective old.unit.exhaust)

lemma dtq_avail_upd [simp]:
  "h x \<noteq> None \<Longrightarrow> dtq_avail (m\<lparr>dtq_nodes := h(x \<mapsto> v)\<rparr>) = dtq_avail (m\<lparr>dtq_nodes := h\<rparr>)"
  "dtq_avail (m\<lparr>dtq_nodes := dtq_nodes m\<rparr>) = dtq_avail m"
  by (auto simp: dtq_avail_def fun_eq_iff)

lemmas dtq_defs = dtq_set_next_def dtq_set_prev_def dtq_prev_def dtq_next_def dtq_init_def
  dtq_init_node_def dtq_is_empty_def dtq_first_def dtq_last_def dtq_is_end_def

section \<open>Single-step operations\<close>

lemma dtq_init_repr: "l \<noteq> NULL \<Longrightarrow> dtq_nodes m l \<noteq> None \<Longrightarrow> \<exists>m'. dtq_init m l = Some m' \<and> dtq_repr m' l []"
  by (auto simp: dtq_repr_def dtq_defs mem_simps)

lemma dtq_is_empty_repr: "dtq_repr m l xs \<Longrightarrow> dtq_is_empty m l = Some (xs = [])"
  by (cases xs) (auto simp: dtq_repr_def dtq_defs mem_simps)

lemma dtq_first_repr: "dtq_repr m l xs \<Longrightarrow> dtq_first m l = Some (first_of xs NULL)"
  by (cases xs) (auto simp: dtq_repr_def dtq_defs mem_simps)

lemma dtq_last_repr: "dtq_repr m l xs \<Longrightarrow> dtq_last m l = Some (prev_of xs)"
  by (cases xs rule: rev_cases) (auto simp: dtq_repr_def dtq_defs mem_simps)

lemma dtq_is_end_repr:
  "dtq_repr m l xs \<Longrightarrow> x \<in> set xs \<Longrightarrow> dtq_is_end m l x = Some False"
  "dtq_repr m l xs \<Longrightarrow> dtq_is_end m l NULL = Some True"
  by (cases xs; auto simp: dtq_repr_def dtq_defs mem_simps dest: dtq_seg_owned)+

lemma dtq_add_after_repr:
  assumes "dtq_repr m l (xs @ p # ys)" and "dtq_avail m l x" and "x \<notin> set (xs @ p # ys)"
  shows "\<exists>m'. dtq_add_after m p x = Some m' \<and> dtq_repr m' l (xs @ p # x # ys)"
  using assms
  by (cases ys) (auto simp: dtq_repr_def dtq_add_after_def dtq_defs mem_simps dest!: dtq_availD)

lemma dtq_add_before_repr:
  assumes "dtq_repr m l (xs @ p # ys)" and "dtq_avail m l x" and "x \<notin> set (xs @ p # ys)"
  shows "\<exists>m'. dtq_add_before m p x = Some m' \<and> dtq_repr m' l (xs @ x # p # ys)"
  using assms
  by (cases xs rule: rev_cases)
     (auto simp: dtq_repr_def dtq_add_before_def dtq_defs mem_simps dest!: dtq_availD)

lemma dtq_add_head_repr:
  assumes "dtq_repr m l xs" and "dtq_avail m l x" and "x \<notin> set xs"
  shows "\<exists>m'. dtq_add_head m l x = Some m' \<and> dtq_repr m' l (x # xs) \<and> dtq_avail m' = dtq_avail m \<and>
    keeps_others dtq_repr m m' l (x # xs)"
  using assms
  by (cases xs) (auto simp: dtq_repr_def dtq_add_head_def dtq_add_after_def dtq_defs mem_simps
      keeps_others_def apart_def dest!: dtq_availD)

lemma dtq_add_tail_repr:
  assumes "dtq_repr m l xs" and "dtq_avail m l x" and "x \<notin> set xs"
  shows "\<exists>m'. dtq_add_tail m l x = Some m' \<and> dtq_repr m' l (xs @ [x]) \<and> dtq_avail m' = dtq_avail m \<and>
    keeps_others dtq_repr m m' l (x # xs)"
  using assms
  by (cases xs rule: rev_cases)
     (auto simp: dtq_repr_def dtq_add_tail_def dtq_add_before_def dtq_defs mem_simps
        keeps_others_def apart_def dest!: dtq_availD)

lemma dtq_del_repr:
  assumes "dtq_repr m l (xs @ x # ys)"
  shows "\<exists>m'. dtq_del m x = Some m' \<and> dtq_repr m' l (xs @ ys) \<and> dtq_avail m' = dtq_avail m \<and>
    keeps_others dtq_repr m m' l (xs @ x # ys)"
  using assms
  by (cases xs rule: rev_cases; cases ys)
     (auto simp: dtq_repr_def dtq_del_def dtq_defs mem_simps keeps_others_def apart_def)


lemma dta_del_head_repr:
  assumes "dtq_repr m l (x # xs)"
  shows "\<exists>m'. dta_del_head m l = Some (x, m') \<and> dtq_repr m' l xs \<and> dtq_avail m' = dtq_avail m \<and>
    keeps_others dtq_repr m m' l (x # xs)"
  using dtq_del_repr [of m l "[]" x xs] assms
  by (auto simp: dta_del_head_def dtq_first_repr dtq_is_end_repr)

lemma dta_del_head_empty: "dtq_repr m l [] \<Longrightarrow> dta_del_head m l = Some (NULL, m)"
  by (simp add: dta_del_head_def dtq_first_repr dtq_is_end_repr)

lemma dtq_del_tail_repr:
  assumes "dtq_repr m l (xs @ [x])"
  shows "\<exists>m'. dtq_del_tail m l = Some (x, m') \<and> dtq_repr m' l xs \<and> dtq_avail m' = dtq_avail m"
  using dtq_del_repr [of m l xs x "[]"] assms
  by (auto simp: dtq_del_tail_def dtq_last_repr dtq_is_end_repr)

lemma dtq_node_linked_repr:
  assumes "dtq_repr m l xs" and "x \<in> set xs"
  shows "dtq_node_is_linked m x = Some True"
proof -
  from assms(2) obtain us vs where "xs = us @ x # vs" by (meson split_list)
  with assms(1) show ?thesis
    by (cases vs) (auto simp: dtq_repr_def dtq_node_is_linked_def dtq_defs mem_simps)
qed

lemma dtq_init_node_frame:
  "dtq_avail m l x \<Longrightarrow> dtq_repr m l xs \<Longrightarrow> x \<notin> set xs \<Longrightarrow>
   \<exists>m'. dtq_init_node m x = Some m' \<and> dtq_repr m' l xs \<and> dtq_node_is_linked m' x = Some False \<and>
        dtq_avail m' = dtq_avail m"
  by (auto simp: dtq_repr_def dtq_node_is_linked_def dtq_defs mem_simps dest!: dtq_availD)

lemma dtq_repr_member_avail: "dtq_repr m l (xs @ x # ys) \<Longrightarrow> dtq_avail m l x"
  by (auto simp: dtq_repr_def dtq_avail_def)

lemma dtq_del_and_init_node_repr:
  assumes "dtq_repr m l (xs @ x # ys)"
  shows "\<exists>m'. dtq_del_and_init_node m x = Some m' \<and> dtq_repr m' l (xs @ ys) \<and>
    dtq_node_is_linked m' x = Some False \<and> dtq_avail m' = dtq_avail m"
proof -
  from dtq_del_repr [OF assms] obtain m1 where
    m1: "dtq_del m x = Some m1" "dtq_repr m1 l (xs @ ys)" "dtq_avail m1 = dtq_avail m" by blast
  moreover have "x \<notin> set (xs @ ys)" using assms by (auto simp: dtq_repr_def)
  ultimately show ?thesis
    using dtq_init_node_frame [of m1 l x "xs @ ys"] dtq_repr_member_avail [OF assms]
      dtq_node_linked_repr [OF assms, of x]
    by (auto simp: dtq_del_and_init_node_def)
qed

text \<open>Moving a linked node to the tail of another queue takes it out of the first one.\<close>

lemma dtq_move_repr:
  assumes "dtq_repr m l (xs @ x # ys)" and "dtq_repr m l' zs" and "apart l (xs @ x # ys) l' zs"
  shows "\<exists>m'. dtq_move_and_add_tail m l' x = Some m' \<and> dtq_repr m' l (xs @ ys) \<and> dtq_repr m' l' (zs @ [x])"
proof -
  from dtq_del_repr [OF assms(1)] obtain m1 where
    m1: "dtq_del m x = Some m1" "dtq_repr m1 l (xs @ ys)" "dtq_avail m1 = dtq_avail m"
        "keeps_others dtq_repr m m1 l (xs @ x # ys)" by blast
  have l': "dtq_repr m1 l' zs" using m1(4) assms(2,3) by (rule keeps_othersD)
  have "dtq_avail m1 l' x" "x \<notin> set zs"
    using assms(1,3) by (auto simp: m1(3) dtq_repr_def dtq_avail_def apart_def)
  from dtq_add_tail_repr [OF l' this] obtain m2 where
    m2: "dtq_add_tail m1 l' x = Some m2" "dtq_repr m2 l' (zs @ [x])" "keeps_others dtq_repr m1 m2 l' (x # zs)"
    by blast
  have "dtq_repr m2 l (xs @ ys)"
    using m2(3) m1(2) by (rule keeps_othersD) (use assms(1,3) in \<open>auto simp: apart_def dtq_repr_def\<close>)
  with m1(1) m2(1,2) show ?thesis
    using dtq_node_linked_repr [OF assms(1), of x] by (simp add: dtq_move_and_add_tail_def)
qed

lemma dtq_append_repr:
  assumes "dtq_repr m dst xs" and "dtq_repr m src ys" and "apart dst xs src ys"
  shows "\<exists>m'. dtq_append m dst src = Some m' \<and> dtq_repr m' dst (xs @ ys) \<and> dtq_repr m' src [] \<and>
    dtq_avail m' = dtq_avail m \<and> keeps_others dtq_repr m m' dst (xs @ src # ys)"
proof (cases ys)
  case Nil
  with assms show ?thesis
    by (auto simp: dtq_append_def dtq_is_empty_repr keeps_others_def)
next
  case (Cons y ys')
  with assms show ?thesis
    by (cases xs rule: rev_cases; cases ys' rule: rev_cases)
       (auto simp: dtq_append_def dtq_repr_def dtq_defs mem_simps keeps_others_def apart_def)
qed

section \<open>Loops\<close>

text \<open>\<^verbatim>\<open>free\<close> on a node, as the callback of \<^verbatim>\<open>dtq_free_all\<close>.\<close>

definition dtq_free_node :: "dtq_mem \<Rightarrow> addr \<Rightarrow> dtq_mem option" where
  "dtq_free_node m p = map_option (\<lambda>h. m\<lparr>dtq_nodes := h\<rparr>) (release (dtq_nodes m) p)"

lemma dtq_free_loop_seg:
  "dtq_seg (dtq_nodes m) p vs l \<Longrightarrow> distinct (l # vs) \<Longrightarrow>
   dtq_free_loop dtq_free_node m l (first_of vs l) = Some (m\<lparr>dtq_nodes := dtq_nodes m |` (- set vs)\<rparr>)"
proof (induction vs arbitrary: m p)
  case Nil
  then show ?case by (simp add: dtq_free_loop.simps)
next
  case (Cons v vs)
  let ?m = "m\<lparr>dtq_nodes := (dtq_nodes m)(v := None)\<rparr>"
  have "dtq_seg (dtq_nodes ?m) v vs l" "distinct (l # vs)" using Cons.prems by simp_all
  from Cons.IH [OF this] Cons.prems show ?case
    by (auto simp: dtq_free_loop.simps [of _ m l v] dtq_next_def dtq_free_node_def mem_simps)
qed

section \<open>Interpretations\<close>

interpretation dtq: list_queue dtq_repr dtq_avail dtq_is_empty dtq_add_head dta_del_head dtq_add_tail
proof
  show "dtq_repr m l xs \<Longrightarrow> distinct (l # xs)" for m l xs
    by (simp add: dtq_repr_def)
  show "dtq_repr m l xs \<Longrightarrow> x \<in> set xs \<Longrightarrow> l' \<noteq> x \<Longrightarrow> dtq_avail m l' x" for m l xs x l'
    by (auto simp: dtq_repr_def dtq_avail_def dest: dtq_seg_owned)
qed (simp_all add: dtq_is_empty_repr dtq_add_head_repr dta_del_head_repr dta_del_head_empty dtq_add_tail_repr)

interpretation dtq: list_removal dtq_repr dtq_avail dtq_is_empty dtq_add_head dta_del_head "\<lambda>m l. dtq_del m"
  by unfold_locales (rule dtq_del_repr)

interpretation dtq: list_concat dtq_repr dtq_avail dtq_is_empty dtq_add_head dta_del_head dtq_append
  by unfold_locales (rule dtq_append_repr)

section \<open>Properties\<close>

text \<open>
  The ring of a doubly linked tail queue behaves as a queue: nodes added with \<^verbatim>\<open>dtq_add_tail\<close> leave through
  \<^verbatim>\<open>dta_del_head\<close> in the order they came, until the queue is empty.
\<close>

lemma dtq_fifo:
  assumes "dtq_repr m l ys" and "distinct (ys @ xs)" and "\<forall>x \<in> set xs. dtq_avail m l x"
  shows "\<exists>m1 m2. add_all dtq_add_tail m l xs = Some m1 \<and>
    del_n dta_del_head m1 l (length (ys @ xs)) = Some (ys @ xs, m2) \<and> dtq_repr m2 l []"
  using assms by (rule dtq.fifo)

text \<open>
  \<^verbatim>\<open>dtq_move_and_add_tail\<close> takes a linked node out of the queue it is in and puts it at the tail of the given
  queue; both queues keep the order of their other nodes.
\<close>

lemma dtq_move_and_add_tail_spec:
  assumes "dtq_repr m l (xs @ x # ys)" and "dtq_repr m l' zs" and "apart l (xs @ x # ys) l' zs"
  shows "\<exists>m'. dtq_move_and_add_tail m l' x = Some m' \<and> dtq_repr m' l (xs @ ys) \<and> dtq_repr m' l' (zs @ [x])"
  using assms by (rule dtq_move_repr)

end
