(* ===== verification/List_Iterate.thy ===== *)
theory List_Iterate
  imports Sl_List Stq_List Dl_List Dtq_List
begin

text \<open>
  The iteration macros of \<^verbatim>\<open>include/list.h\<close>.  A macro is the head of a \<^verbatim>\<open>for\<close> statement, so its model takes the body of the loop: a
  function of the loop variable, the memory and the variables \<open>x\<close> of the program, which tells whether the body ended with \<^verbatim>\<open>break\<close>.  The model
  returns the loop variable as the loop leaves it.  The \<^verbatim>\<open>ENTRY\<close> macros work on the structs around the nodes; \<open>off\<close> is the offset of the node in
  the struct.
\<close>

section \<open>The three forms of \<^verbatim>\<open>for\<close>\<close>

partial_function (option) for_loop ::
  "('m \<Rightarrow> addr \<Rightarrow> bool option) \<Rightarrow> ('m \<Rightarrow> addr \<Rightarrow> addr option) \<Rightarrow> (addr \<Rightarrow> 'm \<Rightarrow> 'x \<Rightarrow> (bool \<times> 'm \<times> 'x) option) \<Rightarrow>
   addr \<Rightarrow> 'm \<Rightarrow> 'x \<Rightarrow> (addr \<times> 'm \<times> 'x) option" where
  "for_loop cond nxt body node m x =
     do { c \<leftarrow> cond m node;
          if \<not> c then Some (node, m, x)
          else do { (brk, m, x) \<leftarrow> body node m x;
                    if brk then Some (node, m, x)
                    else do { node \<leftarrow> nxt m node; for_loop cond nxt body node m x } } }"

text \<open>\<^verbatim>\<open>SAFE\<close>: the successor is read before the body runs.\<close>

partial_function (option) for_loop_safe ::
  "('m \<Rightarrow> addr \<Rightarrow> bool option) \<Rightarrow> ('m \<Rightarrow> addr \<Rightarrow> addr option) \<Rightarrow> (addr \<Rightarrow> 'm \<Rightarrow> 'x \<Rightarrow> (bool \<times> 'm \<times> 'x) option) \<Rightarrow>
   addr \<Rightarrow> 'm \<Rightarrow> 'x \<Rightarrow> (addr \<times> 'm \<times> 'x) option" where
  "for_loop_safe cond nxt body node m x =
     do { c \<leftarrow> cond m node;
          if \<not> c then Some (node, m, x)
          else do { next_node \<leftarrow> nxt m node;
                    (brk, m, x) \<leftarrow> body node m x;
                    if brk then Some (node, m, x)
                    else for_loop_safe cond nxt body next_node m x } }"

text \<open>\<^verbatim>\<open>PREVPTR\<close>: a second variable follows one step behind.\<close>

partial_function (option) for_loop_prev ::
  "('m \<Rightarrow> addr \<Rightarrow> bool option) \<Rightarrow> ('m \<Rightarrow> addr \<Rightarrow> addr option) \<Rightarrow> (addr \<Rightarrow> 'p) \<Rightarrow>
   (addr \<Rightarrow> 'p \<Rightarrow> 'm \<Rightarrow> 'x \<Rightarrow> (bool \<times> 'm \<times> 'x) option) \<Rightarrow> addr \<Rightarrow> 'p \<Rightarrow> 'm \<Rightarrow> 'x \<Rightarrow> (addr \<times> 'p \<times> 'm \<times> 'x) option" where
  "for_loop_prev cond nxt follow body node prev m x =
     do { c \<leftarrow> cond m node;
          if \<not> c then Some (node, prev, m, x)
          else do { (brk, m, x) \<leftarrow> body node prev m x;
                    if brk then Some (node, prev, m, x)
                    else do { nx \<leftarrow> nxt m node; for_loop_prev cond nxt follow body nx (follow node) m x } } }"

definition not_null :: "'m \<Rightarrow> addr \<Rightarrow> bool option" where
  "not_null m p = Some (p \<noteq> NULL)"

text \<open>\<^verbatim>\<open>container_of\<close> and \<^verbatim>\<open>&entry->member\<close>.\<close>

definition container_of :: "addr \<Rightarrow> addr \<Rightarrow> addr" where
  "container_of off p = p - off"

definition member_of :: "addr \<Rightarrow> addr \<Rightarrow> addr" where
  "member_of off entry = entry + off"

section \<open>\<^verbatim>\<open>SL\<close>, \<^verbatim>\<open>STQ\<close> and \<^verbatim>\<open>DL\<close>\<close>

definition sl_foreach ::
  "(addr \<Rightarrow> sl_mem \<Rightarrow> 'x \<Rightarrow> (bool \<times> sl_mem \<times> 'x) option) \<Rightarrow> sl_mem \<Rightarrow> addr \<Rightarrow> 'x \<Rightarrow> (addr \<times> sl_mem \<times> 'x) option" where
  "sl_foreach body m list x = do { node \<leftarrow> sl_first m list; for_loop not_null sl_next body node m x }"

definition sl_foreach_safe ::
  "(addr \<Rightarrow> sl_mem \<Rightarrow> 'x \<Rightarrow> (bool \<times> sl_mem \<times> 'x) option) \<Rightarrow> sl_mem \<Rightarrow> addr \<Rightarrow> 'x \<Rightarrow> (addr \<times> sl_mem \<times> 'x) option" where
  "sl_foreach_safe body m list x = do { node \<leftarrow> sl_first m list; for_loop_safe not_null sl_next body node m x }"

definition sl_entry_first :: "addr \<Rightarrow> sl_mem \<Rightarrow> addr \<Rightarrow> addr option" where
  "sl_entry_first off m list =
     do { e \<leftarrow> sl_is_empty m list;
          if e then Some NULL else do { node \<leftarrow> sl_first m list; Some (container_of off node) } }"

definition sl_entry_next :: "addr \<Rightarrow> sl_mem \<Rightarrow> addr \<Rightarrow> addr option" where
  "sl_entry_next off m entry =
     (if entry = NULL then Some NULL
      else do { nx \<leftarrow> sl_next m (member_of off entry);
                if nx = NULL then Some NULL
                else do { nx \<leftarrow> sl_next m (member_of off entry); Some (container_of off nx) } })"

definition sl_foreach_entry ::
  "addr \<Rightarrow> (addr \<Rightarrow> sl_mem \<Rightarrow> 'x \<Rightarrow> (bool \<times> sl_mem \<times> 'x) option) \<Rightarrow> sl_mem \<Rightarrow> addr \<Rightarrow> 'x \<Rightarrow> (addr \<times> sl_mem \<times> 'x) option" where
  "sl_foreach_entry off body m list x =
     do { entry \<leftarrow> sl_entry_first off m list; for_loop not_null (sl_entry_next off) body entry m x }"

definition sl_foreach_entry_safe ::
  "addr \<Rightarrow> (addr \<Rightarrow> sl_mem \<Rightarrow> 'x \<Rightarrow> (bool \<times> sl_mem \<times> 'x) option) \<Rightarrow> sl_mem \<Rightarrow> addr \<Rightarrow> 'x \<Rightarrow> (addr \<times> sl_mem \<times> 'x) option" where
  "sl_foreach_entry_safe off body m list x =
     do { entry \<leftarrow> sl_entry_first off m list; for_loop_safe not_null (sl_entry_next off) body entry m x }"

definition sl_foreach_prevptr ::
  "(addr \<Rightarrow> addr \<Rightarrow> sl_mem \<Rightarrow> 'x \<Rightarrow> (bool \<times> sl_mem \<times> 'x) option) \<Rightarrow>
   sl_mem \<Rightarrow> addr \<Rightarrow> 'x \<Rightarrow> (addr \<times> addr \<times> sl_mem \<times> 'x) option" where
  "sl_foreach_prevptr body m list x =
     do { node \<leftarrow> sl_first m list; for_loop_prev not_null sl_next (\<lambda>node. node) body node NULL m x }"

definition sl_foreach_entry_prevptr ::
  "addr \<Rightarrow> (addr \<Rightarrow> addr \<Rightarrow> sl_mem \<Rightarrow> 'x \<Rightarrow> (bool \<times> sl_mem \<times> 'x) option) \<Rightarrow>
   sl_mem \<Rightarrow> addr \<Rightarrow> 'x \<Rightarrow> (addr \<times> addr \<times> sl_mem \<times> 'x) option" where
  "sl_foreach_entry_prevptr off body m list x =
     do { entry \<leftarrow> sl_entry_first off m list; for_loop_prev not_null (sl_entry_next off) (\<lambda>entry. entry) body entry NULL m x }"

definition stq_foreach ::
  "(addr \<Rightarrow> stq_mem \<Rightarrow> 'x \<Rightarrow> (bool \<times> stq_mem \<times> 'x) option) \<Rightarrow> stq_mem \<Rightarrow> addr \<Rightarrow> 'x \<Rightarrow> (addr \<times> stq_mem \<times> 'x) option" where
  "stq_foreach body m list x = do { node \<leftarrow> stq_first m list; for_loop not_null stq_next body node m x }"

definition stq_foreach_safe ::
  "(addr \<Rightarrow> stq_mem \<Rightarrow> 'x \<Rightarrow> (bool \<times> stq_mem \<times> 'x) option) \<Rightarrow> stq_mem \<Rightarrow> addr \<Rightarrow> 'x \<Rightarrow> (addr \<times> stq_mem \<times> 'x) option" where
  "stq_foreach_safe body m list x = do { node \<leftarrow> stq_first m list; for_loop_safe not_null stq_next body node m x }"

definition stq_entry_first :: "addr \<Rightarrow> stq_mem \<Rightarrow> addr \<Rightarrow> addr option" where
  "stq_entry_first off m list =
     do { e \<leftarrow> stq_is_empty m list;
          if e then Some NULL else do { node \<leftarrow> stq_first m list; Some (container_of off node) } }"

definition stq_entry_next :: "addr \<Rightarrow> stq_mem \<Rightarrow> addr \<Rightarrow> addr option" where
  "stq_entry_next off m entry =
     (if entry = NULL then Some NULL
      else do { nx \<leftarrow> stq_next m (member_of off entry);
                if nx = NULL then Some NULL
                else do { nx \<leftarrow> stq_next m (member_of off entry); Some (container_of off nx) } })"

definition stq_foreach_entry ::
  "addr \<Rightarrow> (addr \<Rightarrow> stq_mem \<Rightarrow> 'x \<Rightarrow> (bool \<times> stq_mem \<times> 'x) option) \<Rightarrow> stq_mem \<Rightarrow> addr \<Rightarrow> 'x \<Rightarrow> (addr \<times> stq_mem \<times> 'x) option" where
  "stq_foreach_entry off body m list x =
     do { entry \<leftarrow> stq_entry_first off m list; for_loop not_null (stq_entry_next off) body entry m x }"

definition stq_foreach_entry_safe ::
  "addr \<Rightarrow> (addr \<Rightarrow> stq_mem \<Rightarrow> 'x \<Rightarrow> (bool \<times> stq_mem \<times> 'x) option) \<Rightarrow> stq_mem \<Rightarrow> addr \<Rightarrow> 'x \<Rightarrow> (addr \<times> stq_mem \<times> 'x) option" where
  "stq_foreach_entry_safe off body m list x =
     do { entry \<leftarrow> stq_entry_first off m list; for_loop_safe not_null (stq_entry_next off) body entry m x }"

definition stq_foreach_prevptr ::
  "(addr \<Rightarrow> addr \<Rightarrow> stq_mem \<Rightarrow> 'x \<Rightarrow> (bool \<times> stq_mem \<times> 'x) option) \<Rightarrow>
   stq_mem \<Rightarrow> addr \<Rightarrow> 'x \<Rightarrow> (addr \<times> addr \<times> stq_mem \<times> 'x) option" where
  "stq_foreach_prevptr body m list x =
     do { node \<leftarrow> stq_first m list; for_loop_prev not_null stq_next (\<lambda>node. node) body node NULL m x }"

definition stq_foreach_entry_prevptr ::
  "addr \<Rightarrow> (addr \<Rightarrow> addr \<Rightarrow> stq_mem \<Rightarrow> 'x \<Rightarrow> (bool \<times> stq_mem \<times> 'x) option) \<Rightarrow>
   stq_mem \<Rightarrow> addr \<Rightarrow> 'x \<Rightarrow> (addr \<times> addr \<times> stq_mem \<times> 'x) option" where
  "stq_foreach_entry_prevptr off body m list x =
     do { entry \<leftarrow> stq_entry_first off m list; for_loop_prev not_null (stq_entry_next off) (\<lambda>entry. entry) body entry NULL m x }"

definition stq_entry_last :: "addr \<Rightarrow> stq_mem \<Rightarrow> addr \<Rightarrow> addr option" where
  "stq_entry_last off m list =
     do { e \<leftarrow> stq_is_empty m list;
          if e then Some NULL else do { node \<leftarrow> stq_last m list; Some (container_of off node) } }"

definition dl_foreach ::
  "(addr \<Rightarrow> dl_mem \<Rightarrow> 'x \<Rightarrow> (bool \<times> dl_mem \<times> 'x) option) \<Rightarrow> dl_mem \<Rightarrow> addr \<Rightarrow> 'x \<Rightarrow> (addr \<times> dl_mem \<times> 'x) option" where
  "dl_foreach body m list x = do { node \<leftarrow> dl_first m list; for_loop not_null dl_next body node m x }"

definition dl_foreach_safe ::
  "(addr \<Rightarrow> dl_mem \<Rightarrow> 'x \<Rightarrow> (bool \<times> dl_mem \<times> 'x) option) \<Rightarrow> dl_mem \<Rightarrow> addr \<Rightarrow> 'x \<Rightarrow> (addr \<times> dl_mem \<times> 'x) option" where
  "dl_foreach_safe body m list x = do { node \<leftarrow> dl_first m list; for_loop_safe not_null dl_next body node m x }"

definition dl_entry_first :: "addr \<Rightarrow> dl_mem \<Rightarrow> addr \<Rightarrow> addr option" where
  "dl_entry_first off m list =
     do { e \<leftarrow> dl_is_empty m list;
          if e then Some NULL else do { node \<leftarrow> dl_first m list; Some (container_of off node) } }"

definition dl_entry_next :: "addr \<Rightarrow> dl_mem \<Rightarrow> addr \<Rightarrow> addr option" where
  "dl_entry_next off m entry =
     (if entry = NULL then Some NULL
      else do { nx \<leftarrow> dl_next m (member_of off entry);
                if nx = NULL then Some NULL
                else do { nx \<leftarrow> dl_next m (member_of off entry); Some (container_of off nx) } })"

definition dl_foreach_entry ::
  "addr \<Rightarrow> (addr \<Rightarrow> dl_mem \<Rightarrow> 'x \<Rightarrow> (bool \<times> dl_mem \<times> 'x) option) \<Rightarrow> dl_mem \<Rightarrow> addr \<Rightarrow> 'x \<Rightarrow> (addr \<times> dl_mem \<times> 'x) option" where
  "dl_foreach_entry off body m list x =
     do { entry \<leftarrow> dl_entry_first off m list; for_loop not_null (dl_entry_next off) body entry m x }"

definition dl_foreach_entry_safe ::
  "addr \<Rightarrow> (addr \<Rightarrow> dl_mem \<Rightarrow> 'x \<Rightarrow> (bool \<times> dl_mem \<times> 'x) option) \<Rightarrow> dl_mem \<Rightarrow> addr \<Rightarrow> 'x \<Rightarrow> (addr \<times> dl_mem \<times> 'x) option" where
  "dl_foreach_entry_safe off body m list x =
     do { entry \<leftarrow> dl_entry_first off m list; for_loop_safe not_null (dl_entry_next off) body entry m x }"

definition dl_foreach_prevptr ::
  "(addr \<Rightarrow> dl_loc \<Rightarrow> dl_mem \<Rightarrow> 'x \<Rightarrow> (bool \<times> dl_mem \<times> 'x) option) \<Rightarrow>
   dl_mem \<Rightarrow> addr \<Rightarrow> 'x \<Rightarrow> (addr \<times> dl_loc \<times> dl_mem \<times> 'x) option" where
  "dl_foreach_prevptr body m list x =
     do { node \<leftarrow> dl_first m list; for_loop_prev not_null dl_next LNext body node (LFirst list) m x }"

definition dl_foreach_entry_prevptr ::
  "addr \<Rightarrow> (addr \<Rightarrow> dl_loc \<Rightarrow> dl_mem \<Rightarrow> 'x \<Rightarrow> (bool \<times> dl_mem \<times> 'x) option) \<Rightarrow>
   dl_mem \<Rightarrow> addr \<Rightarrow> 'x \<Rightarrow> (addr \<times> dl_loc \<times> dl_mem \<times> 'x) option" where
  "dl_foreach_entry_prevptr off body m list x =
     do { entry \<leftarrow> dl_entry_first off m list; for_loop_prev not_null (dl_entry_next off) (\<lambda>entry. LNext (member_of off entry)) body entry (LFirst list) m x }"

definition dl_entry_prev :: "addr \<Rightarrow> dl_mem \<Rightarrow> addr \<Rightarrow> addr option" where
  "dl_entry_prev off m entry =
     (if entry = NULL then Some NULL
      else do { pv \<leftarrow> dl_prev m (member_of off entry);
                if pv = NULL then Some NULL
                else do { pv \<leftarrow> dl_prev m (member_of off entry); Some (container_of off pv) } })"

section \<open>\<^verbatim>\<open>DTQ\<close>\<close>

text \<open>\<^verbatim>\<open>DTQ_ENTRY_FIRST\<close> and \<^verbatim>\<open>DTQ_ENTRY_LAST\<close> do not compile, and the two loops that use the first one neither; they have no model.\<close>

definition dtq_not_head :: "addr \<Rightarrow> dtq_mem \<Rightarrow> addr \<Rightarrow> bool option" where
  "dtq_not_head list m node = Some (node \<noteq> list)"

definition dtq_not_end :: "addr \<Rightarrow> dtq_mem \<Rightarrow> addr \<Rightarrow> bool option" where
  "dtq_not_end list m node = map_option Not (dtq_is_end m list node)"

definition dtq_foreach ::
  "(addr \<Rightarrow> dtq_mem \<Rightarrow> 'x \<Rightarrow> (bool \<times> dtq_mem \<times> 'x) option) \<Rightarrow> dtq_mem \<Rightarrow> addr \<Rightarrow> 'x \<Rightarrow> (addr \<times> dtq_mem \<times> 'x) option" where
  "dtq_foreach body m list x = do { node \<leftarrow> dtq_next m list; for_loop (dtq_not_head list) dtq_next body node m x }"

definition dtq_foreach_safe ::
  "(addr \<Rightarrow> dtq_mem \<Rightarrow> 'x \<Rightarrow> (bool \<times> dtq_mem \<times> 'x) option) \<Rightarrow> dtq_mem \<Rightarrow> addr \<Rightarrow> 'x \<Rightarrow> (addr \<times> dtq_mem \<times> 'x) option" where
  "dtq_foreach_safe body m list x = do { node \<leftarrow> dtq_next m list; for_loop_safe (dtq_not_head list) dtq_next body node m x }"

definition dtq_foreach_reverse ::
  "(addr \<Rightarrow> dtq_mem \<Rightarrow> 'x \<Rightarrow> (bool \<times> dtq_mem \<times> 'x) option) \<Rightarrow> dtq_mem \<Rightarrow> addr \<Rightarrow> 'x \<Rightarrow> (addr \<times> dtq_mem \<times> 'x) option" where
  "dtq_foreach_reverse body m list x = do { node \<leftarrow> dtq_last m list; for_loop (dtq_not_end list) dtq_prev body node m x }"

definition dtq_foreach_reverse_safe ::
  "(addr \<Rightarrow> dtq_mem \<Rightarrow> 'x \<Rightarrow> (bool \<times> dtq_mem \<times> 'x) option) \<Rightarrow> dtq_mem \<Rightarrow> addr \<Rightarrow> 'x \<Rightarrow> (addr \<times> dtq_mem \<times> 'x) option" where
  "dtq_foreach_reverse_safe body m list x =
     do { node \<leftarrow> dtq_last m list; for_loop_safe (dtq_not_end list) dtq_prev body node m x }"

definition dtq_entry_next :: "addr \<Rightarrow> dtq_mem \<Rightarrow> addr \<Rightarrow> addr \<Rightarrow> addr option" where
  "dtq_entry_next off m list entry =
     do { node \<leftarrow> (if entry = NULL then Some NULL else dtq_next m (member_of off entry));
          e \<leftarrow> dtq_is_end m list node;
          if e then Some NULL else do { nx \<leftarrow> dtq_next m (member_of off entry); Some (container_of off nx) } }"

definition dtq_entry_prev :: "addr \<Rightarrow> dtq_mem \<Rightarrow> addr \<Rightarrow> addr \<Rightarrow> addr option" where
  "dtq_entry_prev off m list entry =
     do { node \<leftarrow> (if entry = NULL then Some NULL else dtq_prev m (member_of off entry));
          e \<leftarrow> dtq_is_end m list node;
          if e then Some NULL else do { pv \<leftarrow> dtq_prev m (member_of off entry); Some (container_of off pv) } }"

section \<open>Loops over a sequence\<close>

text \<open>
  What the three loops rely on: \<open>walk m p ys\<close> says that from the position \<open>p\<close> the memory leads through the positions \<open>ys\<close> to the end.
\<close>

locale iteration =
  fixes cond :: "'m \<Rightarrow> addr \<Rightarrow> bool option" and nxt :: "'m \<Rightarrow> addr \<Rightarrow> addr option" and walk :: "'m \<Rightarrow> addr \<Rightarrow> addr list \<Rightarrow> bool"
  assumes walk_end: "walk m p [] \<Longrightarrow> cond m p = Some False"
    and walk_step: "walk m p (y # ys) \<Longrightarrow> p = y \<and> cond m y = Some True \<and> (\<exists>q. nxt m y = Some q \<and> walk m q ys)"
begin

lemma for_loop_rule:
  assumes "walk m p ys" and "I ys m x"
    and body: "\<And>y ys m x. I (y # ys) m x \<Longrightarrow> walk m y (y # ys) \<Longrightarrow>
      \<exists>brk m' x'. body y m x = Some (brk, m', x') \<and> (if brk then R y m' x' else I ys m' x' \<and> walk m' y (y # ys))"
    and finish: "\<And>e m x. I [] m x \<Longrightarrow> walk m e [] \<Longrightarrow> R e m x"
  shows "\<exists>e m' x'. for_loop cond nxt body p m x = Some (e, m', x') \<and> R e m' x'"
  using assms(1,2)
proof (induction ys arbitrary: p m x)
  case Nil
  then show ?case using finish walk_end by (simp add: for_loop.simps [of _ _ _ p])
next
  case (Cons y ys)
  then have p: "p = y" "cond m y = Some True" using walk_step by blast+
  obtain brk m' x' where b: "body y m x = Some (brk, m', x')" "if brk then R y m' x' else I ys m' x' \<and> walk m' y (y # ys)"
    using body Cons.prems p(1) by blast
  show ?case
  proof (cases brk)
    case False
    with b(2) obtain q where "nxt m' y = Some q" "walk m' q ys" using walk_step [of m' y y ys] by auto
    with Cons.IH [of m' q x'] b p False show ?thesis by (simp add: for_loop.simps [of _ _ _ y])
  qed (use b p in \<open>simp add: for_loop.simps [of _ _ _ y]\<close>)
qed

lemma for_loop_safe_rule:
  assumes "walk m p ys" and "I ys m x"
    and body: "\<And>y ys m x. I (y # ys) m x \<Longrightarrow> walk m y (y # ys) \<Longrightarrow>
      \<exists>brk m' x'. body y m x = Some (brk, m', x') \<and> (if brk then R y m' x' else I ys m' x' \<and> (\<forall>q. walk m q ys \<longrightarrow> walk m' q ys))"
    and finish: "\<And>e m x. I [] m x \<Longrightarrow> walk m e [] \<Longrightarrow> R e m x"
  shows "\<exists>e m' x'. for_loop_safe cond nxt body p m x = Some (e, m', x') \<and> R e m' x'"
  using assms(1,2)
proof (induction ys arbitrary: p m x)
  case Nil
  then show ?case using finish walk_end by (simp add: for_loop_safe.simps [of _ _ _ p])
next
  case (Cons y ys)
  then obtain q where p: "p = y" "cond m y = Some True" "nxt m y = Some q" "walk m q ys" using walk_step by blast
  obtain brk m' x' where b: "body y m x = Some (brk, m', x')"
      "if brk then R y m' x' else I ys m' x' \<and> (\<forall>q. walk m q ys \<longrightarrow> walk m' q ys)"
    using body Cons.prems p(1) by blast
  with Cons.IH [of m' q x'] p show ?case by (cases brk) (simp_all add: for_loop_safe.simps [of _ _ _ y])
qed

lemma for_loop_prev_rule:
  assumes "walk m p ys" and "I ys pv m x"
    and body: "\<And>y ys pv m x. I (y # ys) pv m x \<Longrightarrow> walk m y (y # ys) \<Longrightarrow>
      \<exists>brk m' x'. body y pv m x = Some (brk, m', x') \<and> (if brk then R y pv m' x' else I ys (follow y) m' x' \<and> walk m' y (y # ys))"
    and finish: "\<And>e pv m x. I [] pv m x \<Longrightarrow> walk m e [] \<Longrightarrow> R e pv m x"
  shows "\<exists>e pv' m' x'. for_loop_prev cond nxt follow body p pv m x = Some (e, pv', m', x') \<and> R e pv' m' x'"
  using assms(1,2)
proof (induction ys arbitrary: p pv m x)
  case Nil
  then show ?case using finish walk_end by (simp add: for_loop_prev.simps [of _ _ _ _ p])
next
  case (Cons y ys)
  then have p: "p = y" "cond m y = Some True" using walk_step by blast+
  obtain brk m' x' where b: "body y pv m x = Some (brk, m', x')"
      "if brk then R y pv m' x' else I ys (follow y) m' x' \<and> walk m' y (y # ys)"
    using body Cons.prems p(1) by blast
  show ?case
  proof (cases brk)
    case False
    with b(2) obtain q where "nxt m' y = Some q" "walk m' q ys" using walk_step [of m' y y ys] by auto
    with Cons.IH [of m' q "follow y" x'] b p False show ?thesis by (simp add: for_loop_prev.simps [of _ _ _ _ y])
  qed (use b p in \<open>simp add: for_loop_prev.simps [of _ _ _ _ y]\<close>)
qed

end

text \<open>A body that only looks at its element, and what such a loop computes.\<close>

definition looks :: "('a \<Rightarrow> 'x \<Rightarrow> bool \<times> 'x) \<Rightarrow> 'a \<Rightarrow> 'm \<Rightarrow> 'x \<Rightarrow> (bool \<times> 'm \<times> 'x) option" where
  "looks f y m x = (case f y x of (brk, x) \<Rightarrow> Some (brk, m, x))"

fun visit :: "('a \<Rightarrow> 'x \<Rightarrow> bool \<times> 'x) \<Rightarrow> 'a list \<Rightarrow> 'x \<Rightarrow> 'a option \<times> 'x" where
  "visit f [] x = (None, x)"
| "visit f (y # ys) x = (case f y x of (brk, x) \<Rightarrow> if brk then (Some y, x) else visit f ys x)"

context iteration begin

lemma for_loop_visit:
  assumes "walk m p ys"
  shows "\<exists>e. for_loop cond nxt (looks f) p m x = Some (case visit f ys x of (r, x) \<Rightarrow> (case r of None \<Rightarrow> e | Some y \<Rightarrow> y, m, x)) \<and> walk m e []"
  using assms
proof (induction ys arbitrary: p x)
  case Nil
  then show ?case using walk_end by (auto simp: for_loop.simps [of _ _ _ p])
next
  case (Cons y ys)
  then obtain q where "p = y" "cond m y = Some True" "nxt m y = Some q" "walk m q ys" using walk_step by blast
  moreover obtain brk x' where "f y x = (brk, x')" by fastforce
  moreover from this have "looks f y m x = Some (brk, m, x')" by (simp add: looks_def)
  ultimately show ?case using Cons.IH [of q x'] by (cases brk) (auto simp: for_loop.simps [of _ _ _ y])
qed

end

section \<open>The lists as sequences\<close>

definition sl_walk :: "sl_mem \<Rightarrow> addr \<Rightarrow> addr list \<Rightarrow> bool" where
  "sl_walk m p ys \<longleftrightarrow> sl_chain m ys NULL \<and> p = first_of ys NULL"

definition stq_walk :: "stq_mem \<Rightarrow> addr \<Rightarrow> addr list \<Rightarrow> bool" where
  "stq_walk m p ys \<longleftrightarrow> stq_chain m ys NULL \<and> p = first_of ys NULL"

definition dl_walk :: "dl_mem \<Rightarrow> addr \<Rightarrow> addr list \<Rightarrow> bool" where
  "dl_walk m p ys \<longleftrightarrow> (\<exists>loc. dl_seg (dl_nodes m) loc ys NULL) \<and> p = first_of ys NULL"

definition dtq_walk :: "addr \<Rightarrow> dtq_mem \<Rightarrow> addr \<Rightarrow> addr list \<Rightarrow> bool" where
  "dtq_walk l m p ys \<longleftrightarrow> (\<exists>pv. dtq_seg (dtq_nodes m) pv ys l) \<and> p = first_of ys l \<and> l \<notin> set ys"

definition dtq_back :: "addr \<Rightarrow> dtq_mem \<Rightarrow> addr \<Rightarrow> addr list \<Rightarrow> bool" where
  "dtq_back l m p ys \<longleftrightarrow> (\<exists>zs. dtq_repr m l (rev ys @ zs) \<and> p = first_of ys (if zs = [] then NULL else l))"

interpretation sl_iter: iteration not_null sl_next sl_walk
  by unfold_locales (auto simp: sl_walk_def not_null_def sl_next_def mem_simps)

interpretation stq_iter: iteration not_null stq_next stq_walk
  by unfold_locales (auto simp: stq_walk_def not_null_def stq_next_def mem_simps)

interpretation dl_iter: iteration not_null dl_next dl_walk
  by unfold_locales (auto simp: dl_walk_def not_null_def dl_next_def mem_simps)

interpretation dtq_iter: iteration "dtq_not_head l" dtq_next "dtq_walk l" for l
  by unfold_locales (auto simp: dtq_walk_def dtq_not_head_def dtq_next_def mem_simps)

lemma dtq_prev_repr: "dtq_repr m l (ys @ y # zs) \<Longrightarrow> dtq_prev m y = Some (last (l # ys))"
  by (auto simp: dtq_repr_def dtq_prev_def mem_simps)

lemma dtq_is_end_head: "dtq_repr m l xs \<Longrightarrow> dtq_is_end m l l = Some True"
  using dtq_is_empty_repr [of m l xs] by (cases xs) (auto simp: dtq_is_end_def)

interpretation dtq_rev_iter: iteration "dtq_not_end l" dtq_prev "dtq_back l" for l
proof
  show "dtq_not_end l m p = Some False" if "dtq_back l m p []" for m p
    using that dtq_is_end_repr(2) dtq_is_end_head by (fastforce simp: dtq_back_def dtq_not_end_def split: if_splits)
next
  fix m p y ys
  assume "dtq_back l m p (y # ys)"
  then obtain zs where r: "dtq_repr m l (rev ys @ y # zs)" and p: "p = y" by (auto simp: dtq_back_def)
  have "dtq_prev m y = Some (first_of ys l)"
    using dtq_prev_repr [OF r] by (cases ys) auto
  moreover have "dtq_back l m (first_of ys l) ys" using r by (auto simp: dtq_back_def)
  ultimately show "p = y \<and> dtq_not_end l m y = Some True \<and> (\<exists>q. dtq_prev m y = Some q \<and> dtq_back l m q ys)"
    using dtq_is_end_repr(1) [OF r] p by (auto simp: dtq_not_end_def)
qed

text \<open>The structs around the nodes; \<open>off\<close> is not the address of a node, so that no struct is at \<^verbatim>\<open>NULL\<close>.\<close>

definition entries :: "addr \<Rightarrow> addr list \<Rightarrow> addr list" where
  "entries off ys = map (container_of off) ys"

lemma member_container [simp]: "member_of off (container_of off p) = p" "container_of off (member_of off e) = e"
  by (simp_all add: member_of_def container_of_def)

lemma container_NULL [simp]: "container_of off p = NULL \<longleftrightarrow> p = off"
  by (simp add: container_of_def)

lemma entries_simps [simp]:
  "entries off [] = []" "entries off (y # ys) = container_of off y # entries off ys"
  "entries off (xs @ ys) = entries off xs @ entries off ys"
  by (simp_all add: entries_def)

lemma entries_Cons: "e # es = entries off ys \<longleftrightarrow> (\<exists>zs. ys = member_of off e # zs \<and> es = entries off zs)"
  by (cases ys) auto

definition on_entries :: "addr \<Rightarrow> ('m \<Rightarrow> addr \<Rightarrow> addr list \<Rightarrow> bool) \<Rightarrow> 'm \<Rightarrow> addr \<Rightarrow> addr list \<Rightarrow> bool" where
  "on_entries off walk m e es \<longleftrightarrow>
     (\<exists>ys. walk m (first_of ys NULL) ys \<and> off \<notin> set ys \<and> es = entries off ys \<and> e = first_of es NULL)"

lemma on_entriesI:
  "walk m (first_of ys NULL) ys \<Longrightarrow> off \<notin> set ys \<Longrightarrow> on_entries off walk m (first_of (entries off ys) NULL) (entries off ys)"
  by (auto simp: on_entries_def)

locale entry_iteration = iteration not_null nxt walk
  for nxt :: "'m \<Rightarrow> addr \<Rightarrow> addr option" and walk +
  fixes off :: addr and entry_nxt :: "'m \<Rightarrow> addr \<Rightarrow> addr option"
  assumes walk_first: "walk m p ys \<Longrightarrow> p = first_of ys NULL"
    and entry_nxt_law: "entry \<noteq> NULL \<Longrightarrow> entry_nxt m entry =
      do { nx \<leftarrow> nxt m (member_of off entry); Some (if nx = NULL then NULL else container_of off nx) }"
begin

lemma entry_step:
  assumes "on_entries off walk m p (y # ys)"
  shows "p = y \<and> not_null m y = Some True \<and> (\<exists>q. entry_nxt m y = Some q \<and> on_entries off walk m q ys)"
proof -
  from assms obtain zs where w: "walk m (member_of off y) (member_of off y # zs)" and zs: "off \<notin> set zs" "ys = entries off zs"
    and y: "member_of off y \<noteq> off" "p = y"
    by (auto simp: on_entries_def entries_Cons)
  from walk_step [OF w] obtain q where q: "nxt m (member_of off y) = Some q" "walk m q zs" by blast
  then have "q = first_of zs NULL" using walk_first by blast
  moreover have "q \<noteq> NULL" if "zs = z # zs'" for z zs'
    using that q walk_step [of m q z zs'] by (auto simp: not_null_def)
  moreover have "y \<noteq> NULL" using y(1) by (auto simp: member_of_def)
  ultimately have "entry_nxt m y = Some (first_of ys NULL)" "not_null m y = Some True"
    using q(1) zs by (cases zs; simp add: entry_nxt_law not_null_def)+
  moreover have "on_entries off walk m (first_of ys NULL) ys"
    using on_entriesI [of walk m zs off] q \<open>q = first_of zs NULL\<close> zs by simp
  ultimately show ?thesis using y(2) by blast
qed

end

sublocale entry_iteration \<subseteq> entry: iteration not_null entry_nxt "on_entries off walk"
  by unfold_locales (auto simp: entry_step, auto simp: on_entries_def not_null_def entries_def)

lemmas entry_next_defs = sl_entry_next_def stq_entry_next_def dl_entry_next_def

interpretation sl_entries: entry_iteration sl_next sl_walk off "sl_entry_next off" for off
  by unfold_locales (auto simp: sl_walk_def entry_next_defs split: Option.bind_split)

interpretation stq_entries: entry_iteration stq_next stq_walk off "stq_entry_next off" for off
  by unfold_locales (auto simp: stq_walk_def entry_next_defs split: Option.bind_split)

interpretation dl_entries: entry_iteration dl_next dl_walk off "dl_entry_next off" for off
  by unfold_locales (auto simp: dl_walk_def entry_next_defs split: Option.bind_split)

section \<open>The loops on well-formed lists\<close>

lemma walk_of_repr:
  "sl_repr sm l xs \<Longrightarrow> sl_walk sm (first_of xs NULL) xs"
  "stq_repr qm l xs \<Longrightarrow> stq_walk qm (first_of xs NULL) xs"
  "dl_repr dm l xs \<Longrightarrow> dl_walk dm (first_of xs NULL) xs"
  "dtq_repr tm l xs \<Longrightarrow> dtq_walk l tm (first_of xs l) xs"
  "dtq_repr tm l xs \<Longrightarrow> dtq_back l tm (prev_of xs) (rev xs)"
  by (auto simp: sl_walk_def sl_repr_def stq_walk_def stq_repr_def dl_walk_def dl_repr_def dtq_walk_def dtq_repr_def
      dtq_back_def prev_of_def hd_rev first_of_eq_hd intro!: exI [of _ "[]"])

lemma entry_first_repr:
  "sl_repr sm l xs \<Longrightarrow> sl_entry_first off sm l = Some (first_of (entries off xs) NULL)"
  "stq_repr qm l xs \<Longrightarrow> stq_entry_first off qm l = Some (first_of (entries off xs) NULL)"
  "dl_repr dm l xs \<Longrightarrow> dl_entry_first off dm l = Some (first_of (entries off xs) NULL)"
  by (cases xs; simp add: sl_entry_first_def sl_is_empty_repr sl_first_repr stq_entry_first_def stq_is_empty_repr stq_first_repr
      dl_entry_first_def dl_is_empty_repr dl_first_repr)+

lemma dtq_start: "dtq_repr m l xs \<Longrightarrow> dtq_next m l = Some (first_of xs l)"
  by (cases xs) (auto simp: dtq_repr_def dtq_next_def mem_simps)

definition visited :: "('a \<Rightarrow> 'x \<Rightarrow> bool \<times> 'x) \<Rightarrow> 'a list \<Rightarrow> 'x \<Rightarrow> 'a \<Rightarrow> 'm \<Rightarrow> 'a \<times> 'm \<times> 'x" where
  "visited f ys x stop m = (case visit f ys x of (r, x) \<Rightarrow> (case r of None \<Rightarrow> stop | Some y \<Rightarrow> y, m, x))"

lemma dtq_back_end:
  assumes "dtq_repr m l xs" and "dtq_back l m e []"
  shows "e = (if xs = [] then NULL else l)"
  using assms(2) dtq_is_empty_repr [OF assms(1)] by (auto simp: dtq_back_def dest: dtq_is_empty_repr)

lemma visited_loop:
  assumes "iteration cond nxt walk" and "walk m p ys" and "\<And>e. walk m e [] \<Longrightarrow> e = stop"
  shows "for_loop cond nxt (looks f) p m x = Some (visited f ys x stop m)"
  using iteration.for_loop_visit [OF assms(1,2), of f x] assms(3) by (auto simp: visited_def)


definition two_sl :: sl_mem where
  "two_sl = \<lparr>sl_nodes = [16 \<mapsto> \<lparr>sl_node_next = 24\<rparr>, 24 \<mapsto> \<lparr>sl_node_next = 0\<rparr>], sl_heads = [8 \<mapsto> \<lparr>sl_head_first = 16\<rparr>]\<rparr>"

definition two_dl :: dl_mem where
  "two_dl = \<lparr>dl_nodes = [16 \<mapsto> \<lparr>dl_node_next = 24, dl_node_prev = LFirst 8\<rparr>, 24 \<mapsto> \<lparr>dl_node_next = 0, dl_node_prev = LNext 16\<rparr>],
     dl_heads = [8 \<mapsto> \<lparr>dl_head_first = 16\<rparr>]\<rparr>"

definition two_dtq :: dtq_mem where
  "two_dtq = \<lparr>dtq_nodes = [8 \<mapsto> \<lparr>dtq_node_prev = 24, dtq_node_next = 16\<rparr>, 16 \<mapsto> \<lparr>dtq_node_prev = 8, dtq_node_next = 24\<rparr>,
     24 \<mapsto> \<lparr>dtq_node_prev = 16, dtq_node_next = 8\<rparr>]\<rparr>"

lemma two_repr: "sl_repr two_sl 8 [16, 24]" "dl_repr two_dl 8 [16, 24]" "dtq_repr two_dtq 8 [16, 24]"
  by (simp_all add: two_sl_def sl_repr_def two_dl_def dl_repr_def two_dtq_def dtq_repr_def)


section \<open>Insertion with \<^verbatim>\<open>PREVPTR\<close>\<close>

text \<open>
  The use of \<^verbatim>\<open>DL_FOREACH_PREVPTR\<close>: the loop stops at the first node that satisfies \<open>P\<close>, and \<^verbatim>\<open>dl_add_after_prevptr\<close> puts the new node in front
  of it, at the head and at the tail as well.
\<close>

lemma dl_prevptr_loop:
  assumes "dl_seg (dl_nodes m) pv ys NULL"
  shows "for_loop_prev not_null dl_next LNext (\<lambda>node prev. looks (\<lambda>node x. (P node, x)) node) (first_of ys NULL) pv m x =
    Some (first_of (dropWhile (\<lambda>y. \<not> P y) ys) NULL, loc_after pv (takeWhile (\<lambda>y. \<not> P y) ys), m, x)"
  using assms
proof (induction ys arbitrary: pv)
  case Nil
  then show ?case by (simp add: for_loop_prev.simps [of _ _ _ _ NULL] not_null_def)
next
  case (Cons y ys)
  then have "y \<noteq> NULL" "dl_next m y = Some (first_of ys NULL)" by (auto simp: dl_next_def mem_simps)
  with Cons show ?case by (simp add: for_loop_prev.simps [of _ _ _ _ y] not_null_def looks_def)
qed

lemma dl_insert_before_first:
  assumes "dl_repr m l xs" and "dl_avail m l n" and "n \<notin> set xs"
  shows "\<exists>node prev m'. dl_foreach_prevptr (\<lambda>node prev. looks (\<lambda>node x. (P node, x)) node) m l () = Some (node, prev, m, ()) \<and>
    dl_add_after_prevptr m prev n = Some m' \<and>
    dl_repr m' l (takeWhile (\<lambda>y. \<not> P y) xs @ n # dropWhile (\<lambda>y. \<not> P y) xs)"
proof -
  have "dl_seg (dl_nodes m) (LFirst l) xs NULL" using assms(1) by (simp add: dl_repr_def)
  from dl_prevptr_loop [OF this, of P "()"] show ?thesis
    using dl_add_after_prevptr_repr [of m l "takeWhile (\<lambda>y. \<not> P y) xs" "dropWhile (\<lambda>y. \<not> P y) xs" n] assms
    by (simp add: dl_foreach_prevptr_def dl_first_repr)
qed

section \<open>Removing in a loop\<close>

text \<open>
  The body of a loop that removes and frees the structs for which \<open>P\<close> holds, and notes the structs it has seen.
\<close>

definition remove_if :: "addr \<Rightarrow> (addr \<Rightarrow> bool) \<Rightarrow> addr \<Rightarrow> dl_mem \<Rightarrow> addr list \<Rightarrow> (bool \<times> dl_mem \<times> addr list) option" where
  "remove_if off P entry m seen =
     (if P entry
      then do { m \<leftarrow> dl_del m (member_of off entry);
                m \<leftarrow> dl_free_node m (member_of off entry);
                Some (False, m, seen @ [entry]) }
      else Some (False, m, seen @ [entry]))"

lemma dl_del_free_repr:
  assumes "dl_repr m l (xs @ x # ys)"
  shows "\<exists>m1 m'. dl_del m x = Some m1 \<and> dl_free_node m1 x = Some m' \<and> dl_repr m' l (xs @ ys) \<and> dl_nodes m' x = None \<and>
    (\<forall>p. dl_nodes m p = None \<longrightarrow> dl_nodes m' p = None)"
  using assms
  by (cases xs rule: rev_cases; cases ys)
     (auto simp: dl_repr_def dl_del_def dl_free_node_def dl_defs mem_simps)

lemma dl_walk_suffix: "dl_repr m l (xs @ ys) \<Longrightarrow> dl_walk m (first_of ys NULL) ys"
  by (auto simp: dl_repr_def dl_walk_def)

definition removed_up_to :: "addr \<Rightarrow> (addr \<Rightarrow> bool) \<Rightarrow> addr \<Rightarrow> addr list \<Rightarrow> addr list \<Rightarrow> dl_mem \<Rightarrow> addr list \<Rightarrow> bool" where
  "removed_up_to off P l xs es m seen \<longleftrightarrow>
     (\<exists>ds ys. xs = ds @ ys \<and> es = entries off ys \<and> seen = entries off ds \<and>
        dl_repr m l (filter (\<lambda>d. \<not> P (container_of off d)) ds @ ys) \<and>
        (\<forall>d \<in> set ds. P (container_of off d) \<longrightarrow> dl_nodes m d = None))"

lemma remove_if_step:
  assumes "removed_up_to off P l xs (e # es) m seen" and "off \<notin> set xs"
  shows "\<exists>m'. remove_if off P e m seen = Some (False, m', seen @ [e]) \<and> removed_up_to off P l xs es m' (seen @ [e]) \<and>
    on_entries off dl_walk m' (first_of es NULL) es"
proof -
  let ?keep = "filter (\<lambda>d. \<not> P (container_of off d))"
  from assms(1) obtain ds ys where xs: "xs = ds @ member_of off e # ys" and es: "es = entries off ys"
    and seen: "seen = entries off ds" and r: "dl_repr m l (?keep ds @ member_of off e # ys)"
    and gone: "\<forall>d \<in> set ds. P (container_of off d) \<longrightarrow> dl_nodes m d = None"
    unfolding removed_up_to_def by (auto simp: entries_Cons)
  have "\<exists>m'. remove_if off P e m seen = Some (False, m', seen @ [e]) \<and> dl_repr m' l (?keep (ds @ [member_of off e]) @ ys) \<and>
      (\<forall>d \<in> set (ds @ [member_of off e]). P (container_of off d) \<longrightarrow> dl_nodes m' d = None)"
  proof (cases "P e")
    case True
    with dl_del_free_repr [OF r] gone show ?thesis by (fastforce simp: remove_if_def)
  qed (use r gone in \<open>auto simp: remove_if_def\<close>)
  then obtain m' where m': "remove_if off P e m seen = Some (False, m', seen @ [e])"
    and r': "dl_repr m' l (?keep (ds @ [member_of off e]) @ ys)"
    and gone': "\<forall>d \<in> set (ds @ [member_of off e]). P (container_of off d) \<longrightarrow> dl_nodes m' d = None" by blast
  have "removed_up_to off P l xs es m' (seen @ [e])"
    unfolding removed_up_to_def using xs es seen r' gone'
    by (intro exI [of _ "ds @ [member_of off e]"] exI [of _ ys]) simp
  moreover have "on_entries off dl_walk m' (first_of es NULL) es"
    using on_entriesI [where walk = dl_walk, OF dl_walk_suffix [OF r']] assms(2) xs es by simp
  ultimately show ?thesis using m' by blast
qed

lemma remove_if_unsafe:
  "dl_repr m l (ks @ ys) \<Longrightarrow> off \<notin> set ys \<Longrightarrow> \<exists>d \<in> set ys. P (container_of off d) \<Longrightarrow>
   for_loop not_null (dl_entry_next off) (remove_if off P) (first_of (entries off ys) NULL) m seen = None"
proof (induction ys arbitrary: ks seen)
  case (Cons y ys)
  show ?case
  proof (cases "P (container_of off y)")
    case True
    from dl_del_free_repr [OF Cons.prems(1)] obtain m1 m' where
      "dl_del m y = Some m1" "dl_free_node m1 y = Some m'" "dl_nodes m' y = None" by blast
    moreover from this(3) Cons.prems(2) have "dl_entry_next off m' (container_of off y) = None"
      by (auto simp: dl_entry_next_def dl_next_def load_def)
    ultimately show ?thesis
      using True Cons.prems(2) by (auto simp: for_loop.simps [of _ _ _ "container_of off y"] not_null_def remove_if_def)
  next
    case False
    have "on_entries off dl_walk m (first_of (entries off (y # ys)) NULL) (entries off (y # ys))"
      using on_entriesI [where walk = dl_walk, OF dl_walk_suffix [OF Cons.prems(1)]] Cons.prems(2) by blast
    then obtain q where "dl_entry_next off m (container_of off y) = Some q" "on_entries off dl_walk m q (entries off ys)"
      using dl_entries.entry.walk_step by (simp only: entries_simps) blast
    moreover from this(2) have "q = first_of (entries off ys) NULL" by (auto simp: on_entries_def)
    ultimately show ?thesis
      using False Cons.IH [of "ks @ [y]" "seen @ [container_of off y]"] Cons.prems
      by (auto simp: for_loop.simps [of _ _ _ "container_of off y"] not_null_def remove_if_def)
  qed
qed simp

text \<open>
  C34: a \<^verbatim>\<open>SAFE\<close> loop may remove and free the struct it is at.  \<^verbatim>\<open>DL_FOREACH_ENTRY_SAFE\<close> with a body that does so for the structs that satisfy a
  condition visits every struct once, in order, never touches a freed one, frees exactly these structs and leaves the list of the others.  In
  the plain \<^verbatim>\<open>DL_FOREACH_ENTRY\<close> the same body is an access to freed memory as soon as the condition holds for one struct.
\<close>

theorem dl_foreach_entry_safe_remove:
  assumes "dl_repr m l xs" and "off \<notin> set xs"
  shows "(\<exists>m'. dl_foreach_entry_safe off (remove_if off P) m l [] = Some (NULL, m', entries off xs) \<and>
    dl_repr m' l (filter (\<lambda>d. \<not> P (container_of off d)) xs) \<and>
    (\<forall>d \<in> set xs. P (container_of off d) \<longrightarrow> dl_nodes m' d = None)) \<and>
    ((\<exists>d \<in> set xs. P (container_of off d)) \<longrightarrow> dl_foreach_entry off (remove_if off P) m l [] = None)"
proof -
  let ?R = "\<lambda>e m seen. e = NULL \<and> removed_up_to off P l xs [] m seen"
  have "\<exists>e m' seen. for_loop_safe not_null (dl_entry_next off) (remove_if off P) (first_of (entries off xs) NULL) m [] =
      Some (e, m', seen) \<and> ?R e m' seen"
  proof (rule dl_entries.entry.for_loop_safe_rule)
    show "on_entries off dl_walk m (first_of (entries off xs) NULL) (entries off xs)"
      by (rule on_entriesI [where walk = dl_walk]) (use assms walk_of_repr(3) in auto)
    show "removed_up_to off P l xs (entries off xs) m []"
      unfolding removed_up_to_def using assms(1) by (intro exI [of _ "[]"] exI [of _ xs]) simp
  next
    fix e es m seen
    assume "removed_up_to off P l xs (e # es) m seen"
    from remove_if_step [OF this assms(2)] obtain m' where "remove_if off P e m seen = Some (False, m', seen @ [e])"
      "removed_up_to off P l xs es m' (seen @ [e])" "on_entries off dl_walk m' (first_of es NULL) es" by blast
    then show "\<exists>brk m' seen'. remove_if off P e m seen = Some (brk, m', seen') \<and>
        (if brk then ?R e m' seen' else removed_up_to off P l xs es m' seen' \<and> (\<forall>q. on_entries off dl_walk m q es \<longrightarrow> on_entries off dl_walk m' q es))"
      by (auto simp: on_entries_def)
  qed (auto simp: on_entries_def)
  then have safe: "\<exists>m'. dl_foreach_entry_safe off (remove_if off P) m l [] = Some (NULL, m', entries off xs) \<and>
      dl_repr m' l (filter (\<lambda>d. \<not> P (container_of off d)) xs) \<and>
      (\<forall>d \<in> set xs. P (container_of off d) \<longrightarrow> dl_nodes m' d = None)"
    using entry_first_repr(3) [OF assms(1)] by (auto simp: dl_foreach_entry_safe_def removed_up_to_def entries_def)
  moreover have "dl_foreach_entry off (remove_if off P) m l [] = None" if "\<exists>d \<in> set xs. P (container_of off d)"
    using that remove_if_unsafe [of m l "[]" xs off P "[]"] assms entry_first_repr(3) [OF assms(1)] by (simp add: dl_foreach_entry_def)
  ultimately show ?thesis by blast
qed

theorem dl_foreach_entry_safe_remove_witness:
  "\<exists>m'. dl_foreach_entry_safe 8 (remove_if 8 (\<lambda>e. e = 16)) dl_example 8 [] = Some (NULL, m', [8, 16, 24]) \<and> dl_repr m' 8 [16, 32] \<and>
     dl_nodes m' 24 = None \<and> dl_foreach_entry 8 (remove_if 8 (\<lambda>e. e = 16)) dl_example 8 [] = None"
  using dl_foreach_entry_safe_remove [of dl_example 8 "[16, 24, 32]" 8 "\<lambda>e. e = 16"] dl_example_repr
  by (simp add: entries_def container_of_def)

end
