(* ===== verification/Rbtree.thy ===== *)
theory Rbtree
  imports Prelude
begin

text \<open>
  The red-black tree of \<^verbatim>\<open>include/rbtree.h\<close> and \<^verbatim>\<open>src/rbtree.c\<close>, as pointer code.

  A node is the C struct: two child pointers and the word \<^verbatim>\<open>__rb_parent_color\<close> that packs the parent
  address and the colour bit.  The state is the node memory, the root pointer \<^verbatim>\<open>root->rb_node\<close>, and an
  abstract component for whatever data the augmentation callbacks maintain.  Callbacks are arguments, as
  in the C code; the plain operations pass the dummies.

  Each \<^verbatim>\<open>Case\<close> of the rebalancing loops is a definition of its own; the left and the right variant are
  separate, as in the source.
\<close>

section \<open>State\<close>

record rb_node =
  rb_parent_color :: "64 word"
  rb_right :: addr
  rb_left :: addr

record 'u rb_mem =
  rb_nodes :: "addr \<rightharpoonup> rb_node"
  rb_root_node :: addr
  rb_aug :: 'u

record 'u rb_augment_callbacks =
  aug_propagate :: "'u rb_mem \<Rightarrow> addr \<Rightarrow> addr \<Rightarrow> 'u rb_mem option"
  aug_copy :: "'u rb_mem \<Rightarrow> addr \<Rightarrow> addr \<Rightarrow> 'u rb_mem option"
  aug_rotate :: "'u rb_mem \<Rightarrow> addr \<Rightarrow> addr \<Rightarrow> 'u rb_mem option"

type_synonym 'u rb_rotate = "'u rb_mem \<Rightarrow> addr \<Rightarrow> addr \<Rightarrow> 'u rb_mem option"

definition RB_RED :: "64 word" where "RB_RED = 0"
definition RB_BLACK :: "64 word" where "RB_BLACK = 1"

text \<open>The macros on the packed word.\<close>

definition pc_parent :: "64 word \<Rightarrow> addr" where
  "pc_parent pc = pc AND NOT 3"

definition pc_color :: "64 word \<Rightarrow> 64 word" where
  "pc_color pc = pc AND 1"

definition pc_is_black :: "64 word \<Rightarrow> bool" where
  "pc_is_black pc \<longleftrightarrow> pc_color pc \<noteq> 0"

definition pc_is_red :: "64 word \<Rightarrow> bool" where
  "pc_is_red pc \<longleftrightarrow> \<not> pc_color pc \<noteq> 0"

section \<open>Field access\<close>

definition rb_get_pc :: "'u rb_mem \<Rightarrow> addr \<Rightarrow> 64 word option" where
  "rb_get_pc m p = map_option rb_parent_color (load (rb_nodes m) p)"

definition rb_get_left :: "'u rb_mem \<Rightarrow> addr \<Rightarrow> addr option" where
  "rb_get_left m p = map_option rb_left (load (rb_nodes m) p)"

definition rb_get_right :: "'u rb_mem \<Rightarrow> addr \<Rightarrow> addr option" where
  "rb_get_right m p = map_option rb_right (load (rb_nodes m) p)"

definition rb_set_pc :: "'u rb_mem \<Rightarrow> addr \<Rightarrow> 64 word \<Rightarrow> 'u rb_mem option" where
  "rb_set_pc m p v =
     map_option (\<lambda>h. m\<lparr>rb_nodes := h\<rparr>) (store (rb_nodes m) p (\<lambda>n. n\<lparr>rb_parent_color := v\<rparr>))"

definition rb_set_left :: "'u rb_mem \<Rightarrow> addr \<Rightarrow> addr \<Rightarrow> 'u rb_mem option" where
  "rb_set_left m p v =
     map_option (\<lambda>h. m\<lparr>rb_nodes := h\<rparr>) (store (rb_nodes m) p (\<lambda>n. n\<lparr>rb_left := v\<rparr>))"

definition rb_set_right :: "'u rb_mem \<Rightarrow> addr \<Rightarrow> addr \<Rightarrow> 'u rb_mem option" where
  "rb_set_right m p v =
     map_option (\<lambda>h. m\<lparr>rb_nodes := h\<rparr>) (store (rb_nodes m) p (\<lambda>n. n\<lparr>rb_right := v\<rparr>))"

definition rb_parent :: "'u rb_mem \<Rightarrow> addr \<Rightarrow> addr option" where
  "rb_parent m p = map_option pc_parent (rb_get_pc m p)"

definition rb_is_black :: "'u rb_mem \<Rightarrow> addr \<Rightarrow> bool option" where
  "rb_is_black m p = map_option pc_is_black (rb_get_pc m p)"

definition rb_is_red :: "'u rb_mem \<Rightarrow> addr \<Rightarrow> bool option" where
  "rb_is_red m p = map_option pc_is_red (rb_get_pc m p)"

definition rb_set_parent :: "'u rb_mem \<Rightarrow> addr \<Rightarrow> addr \<Rightarrow> 'u rb_mem option" where
  "rb_set_parent m rb p = do { pc \<leftarrow> rb_get_pc m rb; rb_set_pc m rb (pc_color pc OR p) }"

definition rb_set_parent_color :: "'u rb_mem \<Rightarrow> addr \<Rightarrow> addr \<Rightarrow> 64 word \<Rightarrow> 'u rb_mem option" where
  "rb_set_parent_color m rb p color = rb_set_pc m rb (p OR color)"

definition rb_set_black :: "'u rb_mem \<Rightarrow> addr \<Rightarrow> 'u rb_mem option" where
  "rb_set_black m rb = do { pc \<leftarrow> rb_get_pc m rb; rb_set_pc m rb (pc OR RB_BLACK) }"

definition rb_red_parent :: "'u rb_mem \<Rightarrow> addr \<Rightarrow> addr option" where
  "rb_red_parent m red = rb_get_pc m red"

text \<open>The guards \<^verbatim>\<open>tmp && rb_is_red(tmp)\<close> and \<^verbatim>\<open>!tmp || rb_is_black(tmp)\<close>.\<close>

definition rb_some_red :: "'u rb_mem \<Rightarrow> addr \<Rightarrow> bool option" where
  "rb_some_red m p = (if p = NULL then Some False else rb_is_red m p)"

definition rb_null_or_black :: "'u rb_mem \<Rightarrow> addr \<Rightarrow> bool option" where
  "rb_null_or_black m p = (if p = NULL then Some True else rb_is_black m p)"

definition rb_change_child :: "'u rb_mem \<Rightarrow> addr \<Rightarrow> addr \<Rightarrow> addr \<Rightarrow> 'u rb_mem option" where
  "rb_change_child m old new parent =
     (if parent \<noteq> NULL
      then do { l \<leftarrow> rb_get_left m parent;
                if l = old then rb_set_left m parent new else rb_set_right m parent new }
      else Some (m\<lparr>rb_root_node := new\<rparr>))"

definition rb_rotate_set_parents :: "'u rb_mem \<Rightarrow> addr \<Rightarrow> addr \<Rightarrow> 64 word \<Rightarrow> 'u rb_mem option" where
  "rb_rotate_set_parents m old new color =
     do { parent \<leftarrow> rb_parent m old;
          pc \<leftarrow> rb_get_pc m old;
          m \<leftarrow> rb_set_pc m new pc;
          m \<leftarrow> rb_set_parent_color m old new color;
          rb_change_child m old new parent }"

section \<open>Insertion\<close>

text \<open>A \<^verbatim>\<open>struct rb_node **\<close>: the root pointer or a child pointer of a node.\<close>

datatype rb_link = LRoot | LLeft addr | LRight addr

fun rb_read_link :: "'u rb_mem \<Rightarrow> rb_link \<Rightarrow> addr option" where
  "rb_read_link m LRoot = Some (rb_root_node m)"
| "rb_read_link m (LLeft p) = rb_get_left m p"
| "rb_read_link m (LRight p) = rb_get_right m p"

fun rb_write_link :: "'u rb_mem \<Rightarrow> rb_link \<Rightarrow> addr \<Rightarrow> 'u rb_mem option" where
  "rb_write_link m LRoot v = Some (m\<lparr>rb_root_node := v\<rparr>)"
| "rb_write_link m (LLeft p) v = rb_set_left m p v"
| "rb_write_link m (LRight p) v = rb_set_right m p v"

definition rb_link_node :: "'u rb_mem \<Rightarrow> addr \<Rightarrow> addr \<Rightarrow> rb_link \<Rightarrow> 'u rb_mem option" where
  "rb_link_node m node parent link =
     do { m \<leftarrow> rb_set_pc m node parent;
          m \<leftarrow> rb_set_right m node NULL;
          m \<leftarrow> rb_set_left m node NULL;
          rb_write_link m link node }"

text \<open>Case 1 of \<^verbatim>\<open>__rb_insert\<close> (both sides): a red uncle, colour flips.\<close>

definition rb_insert_flip :: "'u rb_mem \<Rightarrow> addr \<Rightarrow> addr \<Rightarrow> addr \<Rightarrow> ('u rb_mem \<times> addr) option" where
  "rb_insert_flip m tmp parent gparent =
     do { m \<leftarrow> rb_set_parent_color m tmp gparent RB_BLACK;
          m \<leftarrow> rb_set_parent_color m parent gparent RB_BLACK;
          gp \<leftarrow> rb_parent m gparent;
          m \<leftarrow> rb_set_parent_color m gparent gp RB_RED;
          Some (m, gp) }"

text \<open>Cases 2 and 3, the parent being the left child of the grandparent.\<close>

definition rb_insert_rot_left ::
  "'u rb_rotate \<Rightarrow> 'u rb_mem \<Rightarrow> addr \<Rightarrow> addr \<Rightarrow> addr \<Rightarrow> 'u rb_mem option" where
  "rb_insert_rot_left rot m node parent gparent =
     do { tmp \<leftarrow> rb_get_right m parent;
          (m, parent, tmp) \<leftarrow>
            (if node = tmp
             then do { tmp \<leftarrow> rb_get_left m node;
                       m \<leftarrow> rb_set_right m parent tmp;
                       m \<leftarrow> rb_set_left m node parent;
                       m \<leftarrow> (if tmp \<noteq> NULL then rb_set_parent_color m tmp parent RB_BLACK else Some m);
                       m \<leftarrow> rb_set_parent_color m parent node RB_RED;
                       m \<leftarrow> rot m parent node;
                       tmp \<leftarrow> rb_get_right m node;
                       Some (m, node, tmp) }
             else Some (m, parent, tmp));
          m \<leftarrow> rb_set_left m gparent tmp;
          m \<leftarrow> rb_set_right m parent gparent;
          m \<leftarrow> (if tmp \<noteq> NULL then rb_set_parent_color m tmp gparent RB_BLACK else Some m);
          m \<leftarrow> rb_rotate_set_parents m gparent parent RB_RED;
          rot m gparent parent }"

text \<open>Cases 2 and 3, the parent being the right child of the grandparent.\<close>

definition rb_insert_rot_right ::
  "'u rb_rotate \<Rightarrow> 'u rb_mem \<Rightarrow> addr \<Rightarrow> addr \<Rightarrow> addr \<Rightarrow> 'u rb_mem option" where
  "rb_insert_rot_right rot m node parent gparent =
     do { tmp \<leftarrow> rb_get_left m parent;
          (m, parent, tmp) \<leftarrow>
            (if node = tmp
             then do { tmp \<leftarrow> rb_get_right m node;
                       m \<leftarrow> rb_set_left m parent tmp;
                       m \<leftarrow> rb_set_right m node parent;
                       m \<leftarrow> (if tmp \<noteq> NULL then rb_set_parent_color m tmp parent RB_BLACK else Some m);
                       m \<leftarrow> rb_set_parent_color m parent node RB_RED;
                       m \<leftarrow> rot m parent node;
                       tmp \<leftarrow> rb_get_left m node;
                       Some (m, node, tmp) }
             else Some (m, parent, tmp));
          m \<leftarrow> rb_set_right m gparent tmp;
          m \<leftarrow> rb_set_left m parent gparent;
          m \<leftarrow> (if tmp \<noteq> NULL then rb_set_parent_color m tmp gparent RB_BLACK else Some m);
          m \<leftarrow> rb_rotate_set_parents m gparent parent RB_RED;
          rot m gparent parent }"

partial_function (option) rb_insert_loop ::
  "'u rb_rotate \<Rightarrow> 'u rb_mem \<Rightarrow> addr \<Rightarrow> addr \<Rightarrow> 'u rb_mem option" where
  "rb_insert_loop rot m node parent =
     (if parent = NULL then rb_set_parent_color m node NULL RB_BLACK
      else do { b \<leftarrow> rb_is_black m parent;
                if b then Some m
                else do { gparent \<leftarrow> rb_red_parent m parent;
                          tmp \<leftarrow> rb_get_right m gparent;
                          if parent \<noteq> tmp
                          then do { r \<leftarrow> rb_some_red m tmp;
                                    if r
                                    then do { (m, gp) \<leftarrow> rb_insert_flip m tmp parent gparent;
                                              rb_insert_loop rot m gparent gp }
                                    else rb_insert_rot_left rot m node parent gparent }
                          else do { tmp \<leftarrow> rb_get_left m gparent;
                                    r \<leftarrow> rb_some_red m tmp;
                                    if r
                                    then do { (m, gp) \<leftarrow> rb_insert_flip m tmp parent gparent;
                                              rb_insert_loop rot m gparent gp }
                                    else rb_insert_rot_right rot m node parent gparent } } })"

definition rb_insert :: "'u rb_rotate \<Rightarrow> 'u rb_mem \<Rightarrow> addr \<Rightarrow> 'u rb_mem option" where
  "rb_insert rot m node = do { parent \<leftarrow> rb_red_parent m node; rb_insert_loop rot m node parent }"

definition dummy_propagate :: "'u rb_mem \<Rightarrow> addr \<Rightarrow> addr \<Rightarrow> 'u rb_mem option" where
  "dummy_propagate m node stop = Some m"

definition dummy_copy :: "'u rb_mem \<Rightarrow> addr \<Rightarrow> addr \<Rightarrow> 'u rb_mem option" where
  "dummy_copy m old new = Some m"

definition dummy_rotate :: "'u rb_mem \<Rightarrow> addr \<Rightarrow> addr \<Rightarrow> 'u rb_mem option" where
  "dummy_rotate m old new = Some m"

definition dummy_callbacks :: "'u rb_augment_callbacks" where
  "dummy_callbacks = \<lparr>aug_propagate = dummy_propagate, aug_copy = dummy_copy, aug_rotate = dummy_rotate\<rparr>"

definition rb_insert_color :: "'u rb_mem \<Rightarrow> addr \<Rightarrow> 'u rb_mem option" where
  "rb_insert_color m node = rb_insert dummy_rotate m node"

partial_function (option) rb_add_loop ::
  "(addr \<Rightarrow> addr \<Rightarrow> int) \<Rightarrow> 'u rb_mem \<Rightarrow> addr \<Rightarrow> rb_link \<Rightarrow> addr \<Rightarrow> (addr \<times> rb_link) option" where
  "rb_add_loop cmp m node link parent =
     do { cur \<leftarrow> rb_read_link m link;
          if cur = NULL then Some (parent, link)
          else if cmp node cur < 0 then rb_add_loop cmp m node (LLeft cur) cur
          else rb_add_loop cmp m node (LRight cur) cur }"

definition rb_add :: "(addr \<Rightarrow> addr \<Rightarrow> int) \<Rightarrow> 'u rb_mem \<Rightarrow> addr \<Rightarrow> 'u rb_mem option" where
  "rb_add cmp m node =
     do { (parent, link) \<leftarrow> rb_add_loop cmp m node LRoot NULL;
          m \<leftarrow> rb_link_node m node parent link;
          rb_insert_color m node }"

section \<open>Erasure\<close>

text \<open>The descent to the leftmost node of \<^verbatim>\<open>Case 3\<close> (\<^verbatim>\<open>do ... while (tmp)\<close>).\<close>

partial_function (option) rb_succ_loop ::
  "'u rb_mem \<Rightarrow> addr \<Rightarrow> addr \<Rightarrow> (addr \<times> addr) option" where
  "rb_succ_loop m successor tmp =
     do { tmp' \<leftarrow> rb_get_left m tmp;
          if tmp' \<noteq> NULL then rb_succ_loop m tmp tmp' else Some (successor, tmp) }"

definition rb_erase_augmented_two ::
  "'u rb_augment_callbacks \<Rightarrow> 'u rb_mem \<Rightarrow> addr \<Rightarrow> addr \<Rightarrow> ('u rb_mem \<times> addr \<times> addr) option" where
  "rb_erase_augmented_two augment m node child =
     do { tmp \<leftarrow> rb_get_left m child;
          (m, parent, successor, child2) \<leftarrow>
            (if tmp = NULL
             then do { child2 \<leftarrow> rb_get_right m child;
                       m \<leftarrow> aug_copy augment m node child;
                       Some (m, child, child, child2) }
             else do { (parent, successor) \<leftarrow> rb_succ_loop m child tmp;
                       child2 \<leftarrow> rb_get_right m successor;
                       m \<leftarrow> rb_set_left m parent child2;
                       m \<leftarrow> rb_set_right m successor child;
                       m \<leftarrow> rb_set_parent m child successor;
                       m \<leftarrow> aug_copy augment m node successor;
                       m \<leftarrow> aug_propagate augment m parent successor;
                       Some (m, parent, successor, child2) });
          tmp \<leftarrow> rb_get_left m node;
          m \<leftarrow> rb_set_left m successor tmp;
          m \<leftarrow> rb_set_parent m tmp successor;
          pc \<leftarrow> rb_get_pc m node;
          m \<leftarrow> rb_change_child m node successor (pc_parent pc);
          if child2 \<noteq> NULL
          then do { m \<leftarrow> rb_set_pc m successor pc;
                    m \<leftarrow> rb_set_parent_color m child2 parent RB_BLACK;
                    Some (m, NULL, successor) }
          else do { pc2 \<leftarrow> rb_get_pc m successor;
                    m \<leftarrow> rb_set_pc m successor pc;
                    Some (m, (if pc_is_black pc2 then parent else NULL), successor) } }"

definition rb_erase_augmented_core ::
  "'u rb_augment_callbacks \<Rightarrow> 'u rb_mem \<Rightarrow> addr \<Rightarrow> ('u rb_mem \<times> addr) option" where
  "rb_erase_augmented_core augment m node =
     do { child \<leftarrow> rb_get_right m node;
          tmp \<leftarrow> rb_get_left m node;
          (m, rebalance, tmp) \<leftarrow>
            (if tmp = NULL
             then do { pc \<leftarrow> rb_get_pc m node;
                       m \<leftarrow> rb_change_child m node child (pc_parent pc);
                       if child \<noteq> NULL
                       then do { m \<leftarrow> rb_set_pc m child pc; Some (m, NULL, pc_parent pc) }
                       else Some (m, (if pc_is_black pc then pc_parent pc else NULL), pc_parent pc) }
             else if child = NULL
             then do { pc \<leftarrow> rb_get_pc m node;
                       m \<leftarrow> rb_set_pc m tmp pc;
                       m \<leftarrow> rb_change_child m node tmp (pc_parent pc);
                       Some (m, NULL, pc_parent pc) }
             else rb_erase_augmented_two augment m node child);
          m \<leftarrow> aug_propagate augment m tmp NULL;
          Some (m, rebalance) }"

text \<open>Case 1 of \<^verbatim>\<open>____rb_erase_color\<close>, left and right: the new sibling is returned.\<close>

definition rb_erase_case1_left ::
  "'u rb_rotate \<Rightarrow> 'u rb_mem \<Rightarrow> addr \<Rightarrow> addr \<Rightarrow> ('u rb_mem \<times> addr) option" where
  "rb_erase_case1_left rot m parent sibling =
     do { tmp1 \<leftarrow> rb_get_left m sibling;
          m \<leftarrow> rb_set_right m parent tmp1;
          m \<leftarrow> rb_set_left m sibling parent;
          m \<leftarrow> rb_set_parent_color m tmp1 parent RB_BLACK;
          m \<leftarrow> rb_rotate_set_parents m parent sibling RB_RED;
          m \<leftarrow> rot m parent sibling;
          Some (m, tmp1) }"

definition rb_erase_case1_right ::
  "'u rb_rotate \<Rightarrow> 'u rb_mem \<Rightarrow> addr \<Rightarrow> addr \<Rightarrow> ('u rb_mem \<times> addr) option" where
  "rb_erase_case1_right rot m parent sibling =
     do { tmp1 \<leftarrow> rb_get_right m sibling;
          m \<leftarrow> rb_set_left m parent tmp1;
          m \<leftarrow> rb_set_right m sibling parent;
          m \<leftarrow> rb_set_parent_color m tmp1 parent RB_BLACK;
          m \<leftarrow> rb_rotate_set_parents m parent sibling RB_RED;
          m \<leftarrow> rot m parent sibling;
          Some (m, tmp1) }"

text \<open>Case 3, left and right; \<open>tmp2\<close> is the red near nephew.  The new \<open>tmp1\<close> and sibling are returned.\<close>

definition rb_erase_case3_left ::
  "'u rb_rotate \<Rightarrow> 'u rb_mem \<Rightarrow> addr \<Rightarrow> addr \<Rightarrow> addr \<Rightarrow> ('u rb_mem \<times> addr \<times> addr) option" where
  "rb_erase_case3_left rot m parent sibling tmp2 =
     do { tmp1 \<leftarrow> rb_get_right m tmp2;
          m \<leftarrow> rb_set_left m sibling tmp1;
          m \<leftarrow> rb_set_right m tmp2 sibling;
          m \<leftarrow> rb_set_right m parent tmp2;
          m \<leftarrow> (if tmp1 \<noteq> NULL then rb_set_parent_color m tmp1 sibling RB_BLACK else Some m);
          m \<leftarrow> rot m sibling tmp2;
          Some (m, sibling, tmp2) }"

definition rb_erase_case3_right ::
  "'u rb_rotate \<Rightarrow> 'u rb_mem \<Rightarrow> addr \<Rightarrow> addr \<Rightarrow> addr \<Rightarrow> ('u rb_mem \<times> addr \<times> addr) option" where
  "rb_erase_case3_right rot m parent sibling tmp2 =
     do { tmp1 \<leftarrow> rb_get_left m tmp2;
          m \<leftarrow> rb_set_right m sibling tmp1;
          m \<leftarrow> rb_set_left m tmp2 sibling;
          m \<leftarrow> rb_set_left m parent tmp2;
          m \<leftarrow> (if tmp1 \<noteq> NULL then rb_set_parent_color m tmp1 sibling RB_BLACK else Some m);
          m \<leftarrow> rot m sibling tmp2;
          Some (m, sibling, tmp2) }"

text \<open>Case 4, left and right; \<open>tmp1\<close> is the red far nephew.\<close>

definition rb_erase_case4_left ::
  "'u rb_rotate \<Rightarrow> 'u rb_mem \<Rightarrow> addr \<Rightarrow> addr \<Rightarrow> addr \<Rightarrow> 'u rb_mem option" where
  "rb_erase_case4_left rot m parent sibling tmp1 =
     do { tmp2 \<leftarrow> rb_get_left m sibling;
          m \<leftarrow> rb_set_right m parent tmp2;
          m \<leftarrow> rb_set_left m sibling parent;
          m \<leftarrow> rb_set_parent_color m tmp1 sibling RB_BLACK;
          m \<leftarrow> (if tmp2 \<noteq> NULL then rb_set_parent m tmp2 parent else Some m);
          m \<leftarrow> rb_rotate_set_parents m parent sibling RB_BLACK;
          rot m parent sibling }"

definition rb_erase_case4_right ::
  "'u rb_rotate \<Rightarrow> 'u rb_mem \<Rightarrow> addr \<Rightarrow> addr \<Rightarrow> addr \<Rightarrow> 'u rb_mem option" where
  "rb_erase_case4_right rot m parent sibling tmp1 =
     do { tmp2 \<leftarrow> rb_get_right m sibling;
          m \<leftarrow> rb_set_left m parent tmp2;
          m \<leftarrow> rb_set_right m sibling parent;
          m \<leftarrow> rb_set_parent_color m tmp1 sibling RB_BLACK;
          m \<leftarrow> (if tmp2 \<noteq> NULL then rb_set_parent m tmp2 parent else Some m);
          m \<leftarrow> rb_rotate_set_parents m parent sibling RB_BLACK;
          rot m parent sibling }"

text \<open>
  The loop of \<^verbatim>\<open>____rb_erase_color\<close>.  The \<^verbatim>\<open>continue\<close> of Case 2 is the recursive call; every \<^verbatim>\<open>break\<close> returns
  the memory.
\<close>

partial_function (option) rb_erase_loop ::
  "'u rb_rotate \<Rightarrow> 'u rb_mem \<Rightarrow> addr \<Rightarrow> addr \<Rightarrow> 'u rb_mem option" where
  "rb_erase_loop rot m node parent =
     do { sibling \<leftarrow> rb_get_right m parent;
          if node \<noteq> sibling
          then do { r \<leftarrow> rb_is_red m sibling;
                    (m, sibling) \<leftarrow> (if r then rb_erase_case1_left rot m parent sibling else Some (m, sibling));
                    tmp1 \<leftarrow> rb_get_right m sibling;
                    b1 \<leftarrow> rb_null_or_black m tmp1;
                    if b1
                    then do { tmp2 \<leftarrow> rb_get_left m sibling;
                              b2 \<leftarrow> rb_null_or_black m tmp2;
                              if b2
                              then do { m \<leftarrow> rb_set_parent_color m sibling parent RB_RED;
                                        pr \<leftarrow> rb_is_red m parent;
                                        if pr then rb_set_black m parent
                                        else do { gp \<leftarrow> rb_parent m parent;
                                                  if gp \<noteq> NULL then rb_erase_loop rot m parent gp else Some m } }
                              else do { (m, tmp1, sibling) \<leftarrow> rb_erase_case3_left rot m parent sibling tmp2;
                                        rb_erase_case4_left rot m parent sibling tmp1 } }
                    else rb_erase_case4_left rot m parent sibling tmp1 }
          else do { sibling \<leftarrow> rb_get_left m parent;
                    r \<leftarrow> rb_is_red m sibling;
                    (m, sibling) \<leftarrow> (if r then rb_erase_case1_right rot m parent sibling else Some (m, sibling));
                    tmp1 \<leftarrow> rb_get_left m sibling;
                    b1 \<leftarrow> rb_null_or_black m tmp1;
                    if b1
                    then do { tmp2 \<leftarrow> rb_get_right m sibling;
                              b2 \<leftarrow> rb_null_or_black m tmp2;
                              if b2
                              then do { m \<leftarrow> rb_set_parent_color m sibling parent RB_RED;
                                        pr \<leftarrow> rb_is_red m parent;
                                        if pr then rb_set_black m parent
                                        else do { gp \<leftarrow> rb_parent m parent;
                                                  if gp \<noteq> NULL then rb_erase_loop rot m parent gp else Some m } }
                              else do { (m, tmp1, sibling) \<leftarrow> rb_erase_case3_right rot m parent sibling tmp2;
                                        rb_erase_case4_right rot m parent sibling tmp1 } }
                    else rb_erase_case4_right rot m parent sibling tmp1 } }"

definition rb_erase_color :: "'u rb_rotate \<Rightarrow> 'u rb_mem \<Rightarrow> addr \<Rightarrow> 'u rb_mem option" where
  "rb_erase_color rot m parent = rb_erase_loop rot m NULL parent"

definition rb_erase :: "'u rb_mem \<Rightarrow> addr \<Rightarrow> 'u rb_mem option" where
  "rb_erase m node =
     do { (m, rebalance) \<leftarrow> rb_erase_augmented_core dummy_callbacks m node;
          if rebalance \<noteq> NULL then rb_erase_color dummy_rotate m rebalance else Some m }"

definition rb_erase_augmented :: "'u rb_augment_callbacks \<Rightarrow> 'u rb_mem \<Rightarrow> addr \<Rightarrow> 'u rb_mem option" where
  "rb_erase_augmented augment m node =
     do { (m, rebalance) \<leftarrow> rb_erase_augmented_core augment m node;
          if rebalance \<noteq> NULL then rb_erase_color (aug_rotate augment) m rebalance else Some m }"

definition rb_insert_augmented :: "'u rb_augment_callbacks \<Rightarrow> 'u rb_mem \<Rightarrow> addr \<Rightarrow> 'u rb_mem option" where
  "rb_insert_augmented augment m node = rb_insert (aug_rotate augment) m node"

end
