(* ===== verification/Rbtree_Repr.thy ===== *)
theory Rbtree_Repr
  imports Rbtree
begin

text \<open>
  How pointer trees represent abstract trees.  \<open>tree_at h par t\<close> says that memory \<open>h\<close> holds the tree \<open>t\<close>
  whose root has parent \<open>par\<close>; it fixes the content of every node, so a node of the tree can be read off
  by rewriting.  The rebalancing loops climb towards the root, so their states are described by
  zippers: a context (the path from the hole to the root, with the subtrees hanging off it) and the
  subtree in the hole.
\<close>

section \<open>Abstract trees\<close>

datatype rb_color = RED | BLACK

datatype rtree = Tip | Nd rtree rb_color addr rtree

fun root_of :: "rtree \<Rightarrow> addr" where
  "root_of Tip = NULL"
| "root_of (Nd l c a r) = a"

fun inord :: "rtree \<Rightarrow> addr list" where
  "inord Tip = []"
| "inord (Nd l c a r) = inord l @ a # inord r"

fun color_of :: "rtree \<Rightarrow> rb_color" where
  "color_of Tip = BLACK"
| "color_of (Nd l c a r) = c"

fun paint :: "rb_color \<Rightarrow> rtree \<Rightarrow> rtree" where
  "paint c Tip = Tip"
| "paint c (Nd l c' a r) = Nd l c a r"

lemma not_RED [simp]: "c \<noteq> RED \<longleftrightarrow> c = BLACK" and not_BLACK [simp]: "c \<noteq> BLACK \<longleftrightarrow> c = RED"
  by (cases c; simp)+

lemma root_of_paint [simp]: "root_of (paint c t) = root_of t"
  and inord_paint [simp]: "inord (paint c t) = inord t"
  by (cases t; simp)+

section \<open>The packed parent and colour\<close>

fun colbit :: "rb_color \<Rightarrow> 64 word" where
  "colbit RED = RB_RED"
| "colbit BLACK = RB_BLACK"

definition mk_pc :: "addr \<Rightarrow> rb_color \<Rightarrow> 64 word" where
  "mk_pc p c = p OR colbit c"

text \<open>Nodes are aligned to \<^verbatim>\<open>sizeof(long)\<close>, so the two low bits of their addresses are clear.\<close>

definition aligned :: "addr \<Rightarrow> bool" where
  "aligned a \<longleftrightarrow> a AND 3 = 0"

definition node_addr :: "addr \<Rightarrow> bool" where
  "node_addr a \<longleftrightarrow> a \<noteq> NULL \<and> aligned a"

lemma bit_three: "bit (3 :: 64 word) n \<longleftrightarrow> n < 2"
proof -
  have "(3 :: 64 word) = mask 2" by (simp add: mask_eq_exp_minus_1)
  then show ?thesis by (simp only: bit_mask_iff) auto
qed

lemma aligned_bits: "aligned a \<Longrightarrow> \<not> bit a 0 \<and> \<not> bit a 1"
  using arg_cong [of "a AND 3" 0 "\<lambda>w. bit w 0"] arg_cong [of "a AND 3" 0 "\<lambda>w. bit w 1"]
  unfolding bit_and_iff bit_three aligned_def by simp

lemma aligned_NULL [simp]: "aligned NULL"
  by (simp add: aligned_def)

lemma node_addr_simps [simp]: "node_addr a \<Longrightarrow> a \<noteq> NULL" "node_addr a \<Longrightarrow> aligned a" "\<not> node_addr NULL"
  by (auto simp: node_addr_def)

lemmas pc_bit_simps = bit_and_iff bit_or_iff bit_not_iff bit_three bit_1_iff

lemma aligned_masks:
  assumes "aligned p"
  shows "p AND NOT 3 = p" and "(p OR 1) AND NOT 3 = p" and "p AND 1 = 0" and "(p OR 1) AND 1 = 1"
proof -
  note bits = aligned_bits [OF assms]
  show "p AND NOT 3 = p"
    by (rule bit_word_eqI) (use bits in \<open>simp only: pc_bit_simps, auto simp: less_2_cases_iff intro!: gr0I\<close>)
  show "(p OR 1) AND NOT 3 = p"
    by (rule bit_word_eqI) (use bits in \<open>simp only: pc_bit_simps, auto simp: less_2_cases_iff intro!: gr0I\<close>)
  show "p AND 1 = 0"
    by (rule bit_word_eqI) (use bits in \<open>simp only: pc_bit_simps, auto intro!: gr0I\<close>)
  show "(p OR 1) AND 1 = 1"
    by (rule bit_word_eqI) (simp only: pc_bit_simps, auto)
qed

lemma pc_parent_mk [simp]: "aligned p \<Longrightarrow> pc_parent (mk_pc p c) = p"
  unfolding pc_parent_def mk_pc_def
  by (cases c) (simp_all only: colbit.simps RB_RED_def RB_BLACK_def or.right_neutral aligned_masks)

lemma pc_color_mk [simp]: "aligned p \<Longrightarrow> pc_color (mk_pc p c) = colbit c"
  unfolding pc_color_def mk_pc_def
  by (cases c) (simp_all only: colbit.simps RB_RED_def RB_BLACK_def or.right_neutral aligned_masks)

lemma colbit_zero [simp]: "colbit c = 0 \<longleftrightarrow> c = RED"
  by (cases c) (simp_all add: RB_RED_def RB_BLACK_def)

lemma pc_is_black_mk [simp]: "aligned p \<Longrightarrow> pc_is_black (mk_pc p c) \<longleftrightarrow> c = BLACK"
  and pc_is_red_mk [simp]: "aligned p \<Longrightarrow> pc_is_red (mk_pc p c) \<longleftrightarrow> c = RED"
  by (simp_all add: pc_is_black_def pc_is_red_def)

lemma mk_pc_RED: "mk_pc p RED = p"
  by (simp add: mk_pc_def RB_RED_def)

lemma colbit_or [simp]: "colbit c OR p = mk_pc p c"
  by (simp add: mk_pc_def or.commute)

lemma or_colors [simp]: "p OR RB_RED = mk_pc p RED" "p OR RB_BLACK = mk_pc p BLACK"
  by (simp_all add: mk_pc_def)

lemma mk_pc_paint_black [simp]: "mk_pc (mk_pc p c) BLACK = mk_pc p BLACK"
  by (cases c) (simp_all add: mk_pc_def RB_RED_def RB_BLACK_def or.assoc)

section \<open>Trees in memory\<close>

primrec tree_at :: "(addr \<rightharpoonup> rb_node) \<Rightarrow> addr \<Rightarrow> rtree \<Rightarrow> bool" where
  "tree_at h par Tip \<longleftrightarrow> True"
| "tree_at h par (Nd l c a r) \<longleftrightarrow>
     node_addr a \<and>
     h a = Some \<lparr>rb_parent_color = mk_pc par c, rb_right = root_of r, rb_left = root_of l\<rparr> \<and>
     tree_at h a l \<and> tree_at h a r"

lemma tree_at_frame [simp]: "a \<notin> set (inord t) \<Longrightarrow> tree_at (h(a := v)) par t \<longleftrightarrow> tree_at h par t"
  by (induction t arbitrary: par) auto

lemma tree_at_cong: "tree_at h par t \<Longrightarrow> \<forall>a \<in> set (inord t). h' a = h a \<Longrightarrow> tree_at h' par t"
  by (induction t arbitrary: par) auto

lemma root_of_eq_NULL [simp]: "tree_at h par t \<Longrightarrow> root_of t = NULL \<longleftrightarrow> t = Tip"
  by (cases t) auto

lemma root_of_inord: "root_of t \<noteq> NULL \<Longrightarrow> root_of t \<in> set (inord t)"
  by (cases t) auto

lemma tree_at_nodes: "tree_at h par t \<Longrightarrow> a \<in> set (inord t) \<Longrightarrow> node_addr a \<and> (\<exists>n. h a = Some n)"
  by (induction t arbitrary: par) auto

definition rb_repr :: "'u rb_mem \<Rightarrow> rtree \<Rightarrow> bool" where
  "rb_repr m t \<longleftrightarrow> rb_root_node m = root_of t \<and> tree_at (rb_nodes m) NULL t \<and> distinct (inord t)"

section \<open>Contexts\<close>

datatype frame = FL rb_color addr rtree | FR rtree rb_color addr

fun parent_of :: "frame list \<Rightarrow> addr" where
  "parent_of [] = NULL"
| "parent_of (FL c a s # k) = a"
| "parent_of (FR s c a # k) = a"

fun plug :: "frame list \<Rightarrow> rtree \<Rightarrow> rtree" where
  "plug [] t = t"
| "plug (FL c a s # k) t = plug k (Nd t c a s)"
| "plug (FR s c a # k) t = plug k (Nd s c a t)"

fun ctx_at :: "(addr \<rightharpoonup> rb_node) \<Rightarrow> addr \<Rightarrow> addr \<Rightarrow> frame list \<Rightarrow> bool" where
  "ctx_at h root hole [] \<longleftrightarrow> root = hole"
| "ctx_at h root hole (FL c a s # k) \<longleftrightarrow>
     node_addr a \<and>
     h a = Some \<lparr>rb_parent_color = mk_pc (parent_of k) c, rb_right = root_of s, rb_left = hole\<rparr> \<and>
     tree_at h a s \<and> ctx_at h root a k"
| "ctx_at h root hole (FR s c a # k) \<longleftrightarrow>
     node_addr a \<and>
     h a = Some \<lparr>rb_parent_color = mk_pc (parent_of k) c, rb_right = hole, rb_left = root_of s\<rparr> \<and>
     tree_at h a s \<and> ctx_at h root a k"

fun ctx_set :: "frame list \<Rightarrow> addr set" where
  "ctx_set [] = {}"
| "ctx_set (FL c a s # k) = insert a (set (inord s) \<union> ctx_set k)"
| "ctx_set (FR s c a # k) = insert a (set (inord s) \<union> ctx_set k)"

fun ctx_distinct :: "frame list \<Rightarrow> bool" where
  "ctx_distinct [] \<longleftrightarrow> True"
| "ctx_distinct (FL c a s # k) \<longleftrightarrow>
     distinct (inord s) \<and> a \<notin> set (inord s) \<and> a \<notin> ctx_set k \<and> set (inord s) \<inter> ctx_set k = {} \<and> ctx_distinct k"
| "ctx_distinct (FR s c a # k) \<longleftrightarrow>
     distinct (inord s) \<and> a \<notin> set (inord s) \<and> a \<notin> ctx_set k \<and> set (inord s) \<inter> ctx_set k = {} \<and> ctx_distinct k"

lemma ctx_at_frame [simp]:
  "a \<notin> ctx_set k \<Longrightarrow> ctx_at (h(a := v)) root hole k \<longleftrightarrow> ctx_at h root hole k"
  by (induction h root hole k rule: ctx_at.induct) auto

lemma ctx_at_aligned: "ctx_at h root hole k \<Longrightarrow> aligned (parent_of k)"
  by (cases "(h, root, hole, k)" rule: ctx_at.cases) auto

lemma ctx_at_parent: "ctx_at h root hole k \<Longrightarrow> parent_of k = NULL \<longleftrightarrow> k = []"
  by (cases "(h, root, hole, k)" rule: ctx_at.cases) auto

lemma parent_of_in_ctx: "k \<noteq> [] \<Longrightarrow> parent_of k \<in> ctx_set k"
  by (cases k rule: parent_of.cases) auto

lemma plug_append: "plug (k @ k') t = plug k' (plug k t)"
  by (induction k t rule: plug.induct) auto

lemma set_inord_plug: "set (inord (plug k t)) = ctx_set k \<union> set (inord t)"
  by (induction k t rule: plug.induct) auto

lemma distinct_inord_plug:
  "distinct (inord (plug k t)) \<longleftrightarrow> distinct (inord t) \<and> ctx_distinct k \<and> set (inord t) \<inter> ctx_set k = {}"
  by (induction k t rule: plug.induct) auto

lemma tree_at_plug:
  "root = root_of (plug k t) \<and> tree_at h NULL (plug k t) \<longleftrightarrow>
   ctx_at h root (root_of t) k \<and> tree_at h (parent_of k) t"
  by (induction k t rule: plug.induct) auto

lemma rb_repr_plug:
  "rb_repr m (plug k t) \<longleftrightarrow>
   ctx_at (rb_nodes m) (rb_root_node m) (root_of t) k \<and> tree_at (rb_nodes m) (parent_of k) t \<and>
   distinct (inord t) \<and> ctx_distinct k \<and> set (inord t) \<inter> ctx_set k = {}"
  using tree_at_plug [of "rb_root_node m" k t "rb_nodes m"]
  by (auto simp: rb_repr_def distinct_inord_plug)


fun frame_color :: "frame \<Rightarrow> rb_color" where
  "frame_color (FL c a s) = c"
| "frame_color (FR s c a) = c"

definition root_black :: "frame list \<Rightarrow> bool" where
  "root_black k \<longleftrightarrow> (k \<noteq> [] \<longrightarrow> frame_color (last k) = BLACK)"

lemma root_black_simps [simp]:
  "root_black []" "root_black [fr] \<longleftrightarrow> frame_color fr = BLACK" "root_black (fr # fr' # k) \<longleftrightarrow> root_black (fr' # k)"
  "root_black (fr # k) \<Longrightarrow> root_black k"
  by (auto simp: root_black_def split: if_splits)

lemma inord_plug_cong: "inord t = inord t' \<Longrightarrow> inord (plug k t) = inord (plug k t')"
  by (induction k t arbitrary: t' rule: plug.induct) auto

section \<open>Symbolic execution\<close>

lemma rb_get_known [mem_simps]:
  assumes "rb_nodes m p = Some n" and "p \<noteq> NULL"
  shows "rb_get_pc m p = Some (rb_parent_color n)"
    and "rb_get_left m p = Some (rb_left n)"
    and "rb_get_right m p = Some (rb_right n)"
    and "rb_set_pc m p v = Some (m\<lparr>rb_nodes := (rb_nodes m)(p \<mapsto> n\<lparr>rb_parent_color := v\<rparr>)\<rparr>)"
    and "rb_set_left m p v = Some (m\<lparr>rb_nodes := (rb_nodes m)(p \<mapsto> n\<lparr>rb_left := v\<rparr>)\<rparr>)"
    and "rb_set_right m p v = Some (m\<lparr>rb_nodes := (rb_nodes m)(p \<mapsto> n\<lparr>rb_right := v\<rparr>)\<rparr>)"
  using assms by (simp_all add: rb_get_pc_def rb_get_left_def rb_get_right_def rb_set_pc_def
      rb_set_left_def rb_set_right_def load_known store_known)

lemmas rb_access_defs [mem_simps] = rb_parent_def rb_is_black_def rb_is_red_def rb_set_parent_def
  rb_set_parent_color_def rb_set_black_def
  rb_rotate_set_parents_def

lemma rb_color_guards [mem_simps]:
  "rb_some_red m NULL = Some False" "rb_null_or_black m NULL = Some True"
  "p \<noteq> NULL \<Longrightarrow> rb_nodes m p = Some n \<Longrightarrow> rb_some_red m p = Some (pc_is_red (rb_parent_color n))"
  "p \<noteq> NULL \<Longrightarrow> rb_nodes m p = Some n \<Longrightarrow> rb_null_or_black m p = Some (pc_is_black (rb_parent_color n))"
  by (simp_all add: rb_some_red_def rb_null_or_black_def rb_is_red_def rb_is_black_def rb_get_known)

lemma rb_red_parent_known [mem_simps]:
  "rb_nodes m p = Some \<lparr>rb_parent_color = mk_pc g RED, rb_right = r, rb_left = l\<rparr> \<Longrightarrow> p \<noteq> NULL \<Longrightarrow>
   rb_red_parent m p = Some g"
  by (simp add: rb_red_parent_def mem_simps mk_pc_RED)

text \<open>The parent of the hole gets a new child.\<close>

fun relink :: "frame list \<Rightarrow> addr \<Rightarrow> 'u rb_mem \<Rightarrow> 'u rb_mem" where
  "relink [] v m = m\<lparr>rb_root_node := v\<rparr>"
| "relink (FL c a s # k) v m =
     m\<lparr>rb_nodes := (rb_nodes m)(a \<mapsto> \<lparr>rb_parent_color = mk_pc (parent_of k) c, rb_right = root_of s, rb_left = v\<rparr>)\<rparr>"
| "relink (FR s c a # k) v m =
     m\<lparr>rb_nodes := (rb_nodes m)(a \<mapsto> \<lparr>rb_parent_color = mk_pc (parent_of k) c, rb_right = v, rb_left = root_of s\<rparr>)\<rparr>"

lemma change_child_relink:
  assumes "ctx_at (rb_nodes m) (rb_root_node m) old k" and "old \<noteq> NULL" and "old \<notin> ctx_set k"
  shows "rb_change_child m old v (parent_of k) = Some (relink k v m)"
proof (cases k rule: parent_of.cases)
  case (3 s c a k')
  then have "root_of s \<noteq> old" using assms root_of_inord [of s] by auto
  with 3 assms show ?thesis by (auto simp: rb_change_child_def mem_simps)
qed (use assms in \<open>auto simp: rb_change_child_def mem_simps\<close>)

lemma relink_simps [simp]:
  "a \<notin> ctx_set k \<Longrightarrow> rb_nodes (relink k v m) a = rb_nodes m a"
  "rb_aug (relink k v m) = rb_aug m"
  by (cases k rule: parent_of.cases; simp)+

lemma relink_ctx_at [simp]:
  "ctx_at (rb_nodes m) (rb_root_node m) old k \<Longrightarrow> ctx_distinct k \<Longrightarrow>
   ctx_at (rb_nodes (relink k v m)) (rb_root_node (relink k v m)) v k"
  by (cases k rule: parent_of.cases) auto

lemma relink_tree_at [simp]:
  "ctx_set k \<inter> set (inord t) = {} \<Longrightarrow> tree_at (rb_nodes (relink k v m)) p t = tree_at (rb_nodes m) p t"
  "set (inord t) \<inter> ctx_set k = {} \<Longrightarrow> tree_at (rb_nodes (relink k v m)) p t = tree_at (rb_nodes m) p t"
  by (cases k rule: parent_of.cases; auto)+

text \<open>
  \<open>rb_becomes x m t\<close>: the computation \<open>x\<close>, started in \<open>m\<close>, ends in a memory that holds the tree \<open>t\<close>
  and that differs from \<open>m\<close> only at nodes of \<open>t\<close>.
\<close>

definition rb_becomes :: "'u rb_mem option \<Rightarrow> 'u rb_mem \<Rightarrow> rtree \<Rightarrow> bool" where
  "rb_becomes x m t \<longleftrightarrow>
     (\<exists>m'. x = Some m' \<and> rb_repr m' t \<and> (\<forall>a. a \<notin> set (inord t) \<longrightarrow> rb_nodes m' a = rb_nodes m a))"

text \<open>The same with the augmented data at the end.\<close>

definition rb_becomes_aug :: "'u rb_mem option \<Rightarrow> 'u rb_mem \<Rightarrow> rtree \<Rightarrow> 'u \<Rightarrow> bool" where
  "rb_becomes_aug x m t u \<longleftrightarrow>
     (\<exists>m'. x = Some m' \<and> rb_repr m' t \<and> (\<forall>a. a \<notin> set (inord t) \<longrightarrow> rb_nodes m' a = rb_nodes m a) \<and> rb_aug m' = u)"

text \<open>The same with a property \<open>G\<close> of the tree and the augmented data, which every step keeps.\<close>

definition rb_keeps :: "('u \<Rightarrow> rtree \<Rightarrow> bool) \<Rightarrow> 'u rb_mem option \<Rightarrow> 'u rb_mem \<Rightarrow> rtree \<Rightarrow> bool" where
  "rb_keeps G x m t \<longleftrightarrow> (\<exists>u. rb_becomes_aug x m t u \<and> G u t)"

definition rb_state :: "('u \<Rightarrow> rtree \<Rightarrow> bool) \<Rightarrow> 'u rb_mem \<Rightarrow> rtree \<Rightarrow> bool" where
  "rb_state G m t \<longleftrightarrow> rb_repr m t \<and> G (rb_aug m) t"

lemma rb_becomes_refl: "rb_repr m t \<Longrightarrow> rb_becomes_aug (Some m) m t (rb_aug m)"
  by (simp add: rb_becomes_aug_def)

lemma rb_keepsI: "rb_becomes_aug x m t u \<Longrightarrow> G u t \<Longrightarrow> rb_keeps G x m t"
  by (auto simp: rb_keeps_def)

lemma rb_keeps_becomes: "rb_keeps G x m t \<Longrightarrow> rb_becomes x m t"
  by (auto simp: rb_keeps_def rb_becomes_aug_def rb_becomes_def)

lemma rb_keeps_state: "rb_keeps G (Some m') m t \<Longrightarrow> rb_state G m' t"
  by (auto simp: rb_keeps_def rb_becomes_aug_def rb_state_def)

lemma no_property:
  "rb_keeps (\<lambda>_ _. True) x m t \<longleftrightarrow> rb_becomes x m t" "rb_state (\<lambda>_ _. True) m t \<longleftrightarrow> rb_repr m t"
  by (auto simp: rb_keeps_def rb_becomes_aug_def rb_becomes_def rb_state_def)

text \<open>The rotation callbacks that only write augmented data.\<close>

definition aug_rot :: "('u rb_mem \<Rightarrow> addr \<Rightarrow> addr \<Rightarrow> 'u) \<Rightarrow> 'u rb_rotate" where
  "aug_rot f m old new = Some (m\<lparr>rb_aug := f m old new\<rparr>)"

lemma rb_repr_zip:
  "rb_repr m (plug k t) \<longleftrightarrow>
   aligned (parent_of k) \<and> 
   ctx_at (rb_nodes m) (rb_root_node m) (root_of t) k \<and> tree_at (rb_nodes m) (parent_of k) t \<and>
   distinct (inord t) \<and> ctx_distinct k \<and> set (inord t) \<inter> ctx_set k = {}"
  using ctx_at_aligned by (auto simp: rb_repr_plug)

lemma some_red_tree [mem_simps]:
  "tree_at (rb_nodes m) q t \<Longrightarrow> aligned q \<Longrightarrow> rb_some_red m (root_of t) = Some (color_of t = RED)"
  "tree_at (rb_nodes m) q t \<Longrightarrow> aligned q \<Longrightarrow> rb_null_or_black m (root_of t) = Some (color_of t = BLACK)"
  by (cases t; simp add: mem_simps)+

lemmas zip_simps = Int_Un_distrib Int_Un_distrib2 set_inord_plug

lemmas rot_simps = mem_simps aug_rot_def change_child_relink

lemma rb_keeps_bind:
  assumes "\<exists>m'. x = Some (m', q) \<and> rb_keeps G (Some m') m t"
    and "\<And>m'. rb_state G m' t \<Longrightarrow> rb_keeps G (g m' q) m' t'" and "set (inord t) = set (inord t')"
  shows "rb_keeps G (do { (m', q) \<leftarrow> x; g m' q }) m t'"
proof -
  obtain m' where m': "x = Some (m', q)" "rb_keeps G (Some m') m t" using assms(1) by blast
  with assms(2) [of m'] have "rb_keeps G (g m' q) m' t'" by (simp add: rb_keeps_state)
  with m' assms(3) show ?thesis by (auto simp: rb_keeps_def rb_becomes_aug_def)
qed

text \<open>The tree without its colours.\<close>

fun bare :: "rtree \<Rightarrow> rtree" where
  "bare Tip = Tip"
| "bare (Nd l c a r) = Nd (bare l) BLACK a (bare r)"

lemma bare_paint [simp]: "bare (paint c t) = bare t"
  by (cases t) auto

lemma bare_plug: "bare t = bare t' \<Longrightarrow> bare (plug k t) = bare (plug k t')"
  by (induction k t arbitrary: t' rule: plug.induct) auto

section \<open>The red-black invariant\<close>

fun bheight :: "rtree \<Rightarrow> nat" where
  "bheight Tip = 0"
| "bheight (Nd l c a r) = bheight l + (if c = BLACK then 1 else 0)"

fun bal :: "rtree \<Rightarrow> bool" where
  "bal Tip \<longleftrightarrow> True"
| "bal (Nd l c a r) \<longleftrightarrow> bal l \<and> bal r \<and> bheight l = bheight r"

fun no_red_red :: "rtree \<Rightarrow> bool" where
  "no_red_red Tip \<longleftrightarrow> True"
| "no_red_red (Nd l c a r) \<longleftrightarrow>
     (c = RED \<longrightarrow> color_of l = BLACK \<and> color_of r = BLACK) \<and> no_red_red l \<and> no_red_red r"

definition rb_inv :: "rtree \<Rightarrow> bool" where
  "rb_inv t \<longleftrightarrow> color_of t = BLACK \<and> no_red_red t \<and> bal t"

text \<open>The same for a context whose hole takes a black tree of black height \<open>h\<close>.\<close>

fun top_black :: "frame list \<Rightarrow> bool" where
  "top_black [] \<longleftrightarrow> False"
| "top_black (fr # k) \<longleftrightarrow> frame_color fr = BLACK"

fun ctx_fits :: "frame list \<Rightarrow> nat \<Rightarrow> bool" where
  "ctx_fits [] h \<longleftrightarrow> True"
| "ctx_fits (FL c a s # k) h \<longleftrightarrow>
     no_red_red s \<and> bal s \<and> bheight s = h \<and> (c = RED \<longrightarrow> color_of s = BLACK \<and> top_black k) \<and>
     ctx_fits k (h + (if c = BLACK then 1 else 0))"
| "ctx_fits (FR s c a # k) h \<longleftrightarrow>
     no_red_red s \<and> bal s \<and> bheight s = h \<and> (c = RED \<longrightarrow> color_of s = BLACK \<and> top_black k) \<and>
     ctx_fits k (h + (if c = BLACK then 1 else 0))"

lemma rb_inv_plug:
  "rb_inv (plug k t) \<longleftrightarrow>
   ctx_fits k (bheight t) \<and> no_red_red t \<and> bal t \<and> (color_of t = RED \<longrightarrow> top_black k)"
  by (induction k t rule: plug.induct) (auto simp: rb_inv_def)

lemma ctx_fits_root_black: "ctx_fits k h \<Longrightarrow> root_black k"
  by (induction k h rule: ctx_fits.induct)
    (auto simp: root_black_def split: if_splits elim: top_black.elims)

lemma paint_black [simp]:
  "color_of t = BLACK \<Longrightarrow> paint BLACK t = t" "color_of (paint BLACK t) = BLACK"
  "color_of t = RED \<Longrightarrow> bheight (paint BLACK t) = Suc (bheight t)"
  "bal (paint c t) = bal t" "no_red_red t \<Longrightarrow> no_red_red (paint BLACK t)"
  by (cases t; simp)+

end
