(* ===== verification/Rbtree_Insert.thy ===== *)
theory Rbtree_Insert
  imports Rbtree_Repr
begin

text \<open>
  Insertion.  \<open>ins_fix\<close> is the rebalancing of \<^verbatim>\<open>__rb_insert\<close> on a zipper; \<open>insert_loop_sim\<close> shows that
  the pointer loop computes it, for every rotation callback that only writes augmented data.  Then
  \<open>ins_fix\<close> keeps the order of the nodes and restores the red-black invariant, and \<^verbatim>\<open>rb_add\<close> is sorted
  insertion.
\<close>

section \<open>Rotations and colour flips\<close>

lemma rot_left_outer:
  assumes "rb_repr m (plug k (Nd (Nd (Nd a1 RED n a2) RED p s) c g u))"
  shows "rb_becomes (rb_insert_rot_left (aug_rot f) m n p g) m
    (plug k (Nd (Nd a1 RED n a2) c p (Nd (paint BLACK s) RED g u)))"
  using assms unfolding rb_repr_zip rb_becomes_def
  by - (cases s; simp add: zip_simps; (simp add: Int_commute)?; (elim conjE)?;
       simp add: rb_insert_rot_left_def rot_simps)

lemma rot_left_inner:
  assumes "rb_repr m (plug k (Nd (Nd s RED p (Nd a1 RED n a2)) c g u))"
  shows "rb_becomes (rb_insert_rot_left (aug_rot f) m n p g) m
    (plug k (Nd (Nd s RED p (paint BLACK a1)) c n (Nd (paint BLACK a2) RED g u)))"
  using assms unfolding rb_repr_zip rb_becomes_def
  by - (cases a1; cases a2; simp add: zip_simps; (simp add: Int_commute)?; (elim conjE)?;
       simp add: rb_insert_rot_left_def rot_simps)

lemma rot_right_outer:
  assumes "rb_repr m (plug k (Nd u c g (Nd s RED p (Nd a1 RED n a2))))"
  shows "rb_becomes (rb_insert_rot_right (aug_rot f) m n p g) m
    (plug k (Nd (Nd u RED g (paint BLACK s)) c p (Nd a1 RED n a2)))"
  using assms unfolding rb_repr_zip rb_becomes_def
  by - (cases s; simp add: zip_simps; (simp add: Int_commute)?; (elim conjE)?;
       simp add: rb_insert_rot_right_def rot_simps)

lemma rot_right_inner:
  assumes "rb_repr m (plug k (Nd u c g (Nd (Nd a1 RED n a2) RED p s)))"
  shows "rb_becomes (rb_insert_rot_right (aug_rot f) m n p g) m
    (plug k (Nd (Nd u RED g (paint BLACK a1)) c n (Nd (paint BLACK a2) RED p s)))"
  using assms unfolding rb_repr_zip rb_becomes_def
  by - (cases a1; cases a2; simp add: zip_simps; (simp add: Int_commute)?; (elim conjE)?;
       simp add: rb_insert_rot_right_def rot_simps)

lemma flip_left:
  assumes "rb_repr m (plug k (Nd (Nd a pc p b) c g u))" and "color_of u = RED"
  shows "\<exists>m'. rb_insert_flip m (root_of u) p g = Some (m', parent_of k) \<and>
    rb_becomes_aug (Some m') m (plug k (Nd (Nd a BLACK p b) RED g (paint BLACK u))) (rb_aug m)"
  using assms unfolding rb_repr_zip rb_becomes_aug_def
  by - (cases u; simp add: zip_simps; (simp add: Int_commute)?; (elim conjE)?;
       simp add: rb_insert_flip_def rot_simps)

lemma flip_right:
  assumes "rb_repr m (plug k (Nd u c g (Nd a pc p b)))" and "color_of u = RED"
  shows "\<exists>m'. rb_insert_flip m (root_of u) p g = Some (m', parent_of k) \<and>
    rb_becomes_aug (Some m') m (plug k (Nd (paint BLACK u) RED g (Nd a BLACK p b))) (rb_aug m)"
  using assms unfolding rb_repr_zip rb_becomes_aug_def
  by - (cases u; simp add: zip_simps; (simp add: Int_commute)?; (elim conjE)?;
       simp add: rb_insert_flip_def rot_simps)

lemma insert_loop_root:
  assumes "rb_repr m (Nd l c n r)"
  shows "rb_becomes_aug (rb_insert_loop rot m n NULL) m (Nd l BLACK n r) (rb_aug m)"
  using assms by (simp add: rb_insert_loop.simps [of rot m n NULL] rb_repr_def mem_simps rb_becomes_aug_def)

lemma insert_loop_stops:
  assumes "rb_repr m (plug (fr # k) t)" and "frame_color fr = BLACK"
  shows "rb_insert_loop rot m n (parent_of (fr # k)) = Some m"
  using assms unfolding rb_repr_zip
  by (subst rb_insert_loop.simps, cases fr; simp; elim conjE) (simp_all add: ctx_at_aligned mem_simps)

lemma insert_loop_black:
  assumes "rb_repr m (plug (fr # k) t)" and "frame_color fr = BLACK"
  shows "rb_becomes_aug (rb_insert_loop rot m n (parent_of (fr # k))) m (plug (fr # k) t) (rb_aug m)"
  using insert_loop_stops [OF assms] assms(1) by (simp only: rb_becomes_refl)

lemma insert_loop_left:
  assumes "rb_repr m (plug k (Nd (Nd a RED p b) c g u))"
  shows "rb_insert_loop rot m n p =
    (if color_of u = RED
     then do { (m, gp) \<leftarrow> rb_insert_flip m (root_of u) p g; rb_insert_loop rot m g gp }
     else rb_insert_rot_left rot m n p g)"
  using assms unfolding rb_repr_zip
  by (subst rb_insert_loop.simps, cases u; simp; elim conjE) (simp_all add: mem_simps)

lemma insert_loop_right:
  assumes "rb_repr m (plug k (Nd u c g (Nd a RED p b)))"
  shows "rb_insert_loop rot m n p =
    (if color_of u = RED
     then do { (m, gp) \<leftarrow> rb_insert_flip m (root_of u) p g; rb_insert_loop rot m g gp }
     else rb_insert_rot_right rot m n p g)"
  using assms unfolding rb_repr_zip
  by (subst rb_insert_loop.simps, cases u; simp; elim conjE) (simp_all add: mem_simps)

fun ins_fix :: "frame list \<Rightarrow> rtree \<Rightarrow> rtree" where
  "ins_fix [] t = paint BLACK t"
| "ins_fix [fr] t = plug [fr] t"
| "ins_fix (FL pc p s # FL c g u # k) t =
     (if pc = BLACK then plug k (Nd (Nd t pc p s) c g u)
      else if color_of u = RED then ins_fix k (Nd (Nd t BLACK p s) RED g (paint BLACK u))
      else plug k (Nd t c p (Nd (paint BLACK s) RED g u)))"
| "ins_fix (FR s pc p # FL c g u # k) t =
     (if pc = BLACK then plug k (Nd (Nd s pc p t) c g u)
      else if color_of u = RED then ins_fix k (Nd (Nd s BLACK p t) RED g (paint BLACK u))
      else (case t of Tip \<Rightarrow> plug k (Nd (Nd s pc p t) c g u)
        | Nd a1 _ n a2 \<Rightarrow> plug k (Nd (Nd s RED p (paint BLACK a1)) c n (Nd (paint BLACK a2) RED g u))))"
| "ins_fix (FR s pc p # FR u c g # k) t =
     (if pc = BLACK then plug k (Nd u c g (Nd s pc p t))
      else if color_of u = RED then ins_fix k (Nd (paint BLACK u) RED g (Nd s BLACK p t))
      else plug k (Nd (Nd u RED g (paint BLACK s)) c p t))"
| "ins_fix (FL pc p s # FR u c g # k) t =
     (if pc = BLACK then plug k (Nd u c g (Nd t pc p s))
      else if color_of u = RED then ins_fix k (Nd (paint BLACK u) RED g (Nd t BLACK p s))
      else (case t of Tip \<Rightarrow> plug k (Nd u c g (Nd t pc p s))
        | Nd a1 _ n a2 \<Rightarrow> plug k (Nd (Nd u RED g (paint BLACK a1)) c n (Nd (paint BLACK a2) RED p s))))"

lemma inord_ins_fix: "inord (ins_fix k t) = inord (plug k t)"
  by (induction k t rule: ins_fix.induct) (auto split: rtree.split intro!: inord_plug_cong)

section \<open>The loop, with a property of the augmented data\<close>

text \<open>
  What the rebalancing needs of a rotation callback \<open>rot\<close> to keep a property \<open>G\<close> of the augmented data: \<open>G\<close> does not look at colours, and every
  rotation keeps it.
\<close>

locale rb_augmentation =
  fixes rot :: "'u rb_rotate" and G :: "'u \<Rightarrow> rtree \<Rightarrow> bool"
  assumes recolor: "G u t \<Longrightarrow> bare t' = bare t \<Longrightarrow> G u t'"
begin

lemma keeps_recolor: "rb_becomes_aug x m t' (rb_aug m) \<Longrightarrow> rb_state G m t \<Longrightarrow> bare t' = bare t \<Longrightarrow> rb_keeps G x m t'"
  by (auto simp: rb_state_def intro: rb_keepsI recolor)

lemma flip_keeps:
  "rb_state G m (plug k (Nd (Nd a pc p b) c g u)) \<Longrightarrow> color_of u = RED \<Longrightarrow>
   \<exists>m'. rb_insert_flip m (root_of u) p g = Some (m', parent_of k) \<and>
     rb_keeps G (Some m') m (plug k (Nd (Nd a BLACK p b) RED g (paint BLACK u)))"
  "rb_state G m (plug k (Nd u c g (Nd a pc p b))) \<Longrightarrow> color_of u = RED \<Longrightarrow>
   \<exists>m'. rb_insert_flip m (root_of u) p g = Some (m', parent_of k) \<and>
     rb_keeps G (Some m') m (plug k (Nd (paint BLACK u) RED g (Nd a BLACK p b)))"
  using flip_left [of m k a pc p b c g u] flip_right [of m k u c g a pc p b]
  by (fastforce simp: rb_state_def intro: keeps_recolor [of _ _ _ "plug k _"] bare_plug)+

end

locale rb_insertion = rb_augmentation +
  assumes left_outer: "rb_state G m (plug k (Nd (Nd (Nd a1 RED n a2) RED p s) c g u)) \<Longrightarrow>
      rb_keeps G (rb_insert_rot_left rot m n p g) m (plug k (Nd (Nd a1 RED n a2) c p (Nd (paint BLACK s) RED g u)))"
    and left_inner: "rb_state G m (plug k (Nd (Nd s RED p (Nd a1 RED n a2)) c g u)) \<Longrightarrow>
      rb_keeps G (rb_insert_rot_left rot m n p g) m (plug k (Nd (Nd s RED p (paint BLACK a1)) c n (Nd (paint BLACK a2) RED g u)))"
    and right_outer: "rb_state G m (plug k (Nd u c g (Nd s RED p (Nd a1 RED n a2)))) \<Longrightarrow>
      rb_keeps G (rb_insert_rot_right rot m n p g) m (plug k (Nd (Nd u RED g (paint BLACK s)) c p (Nd a1 RED n a2)))"
    and right_inner: "rb_state G m (plug k (Nd u c g (Nd (Nd a1 RED n a2) RED p s))) \<Longrightarrow>
      rb_keeps G (rb_insert_rot_right rot m n p g) m (plug k (Nd (Nd u RED g (paint BLACK a1)) c n (Nd (paint BLACK a2) RED p s)))"
begin

lemma insert_loop_keeps:
  assumes "rb_state G m (plug k (Nd l RED n r))" and "root_black k"
  shows "rb_keeps G (rb_insert_loop rot m n (parent_of k)) m (ins_fix k (Nd l RED n r))"
  using assms
proof (induction k "Nd l RED n r" arbitrary: m l n r rule: ins_fix.induct)
  case 1
  then show ?case by (auto simp: rb_state_def intro: keeps_recolor insert_loop_root)
next
  case (2 fr)
  then show ?case using insert_loop_black [of m fr "[]"] by (auto simp: rb_state_def intro: keeps_recolor)
next
  case (3 pc p s c g u k)
  note flip = flip_keeps(1) [of m k "Nd l RED n r" RED p s c g u]
  show ?case using 3 insert_loop_black [of m "FL pc p s" "FL c g u # k" "Nd l RED n r"]
      insert_loop_left [of m k "Nd l RED n r" p s c g u rot n] left_outer [of m k l n r p s c g u] rb_keeps_bind [OF flip]
    by (cases pc) (auto simp: inord_ins_fix set_inord_plug rb_state_def intro: keeps_recolor)
next
  case (4 s pc p c g u k)
  note flip = flip_keeps(1) [of m k s RED p "Nd l RED n r" c g u]
  show ?case using 4 insert_loop_black [of m "FR s pc p" "FL c g u # k" "Nd l RED n r"]
      insert_loop_left [of m k s p "Nd l RED n r" c g u rot n] left_inner [of m k s p l n r c g u] rb_keeps_bind [OF flip]
    by (cases pc) (auto simp: inord_ins_fix set_inord_plug rb_state_def intro: keeps_recolor)
next
  case (5 s pc p u c g k)
  note flip = flip_keeps(2) [of m k u c g s RED p "Nd l RED n r"]
  show ?case using 5 insert_loop_black [of m "FR s pc p" "FR u c g # k" "Nd l RED n r"]
      insert_loop_right [of m k u c g s p "Nd l RED n r" rot n] right_outer [of m k u c g s p l n r] rb_keeps_bind [OF flip]
    by (cases pc) (auto simp: inord_ins_fix set_inord_plug rb_state_def intro: keeps_recolor)
next
  case (6 pc p s u c g k)
  note flip = flip_keeps(2) [of m k u c g "Nd l RED n r" RED p s]
  show ?case using 6 insert_loop_black [of m "FL pc p s" "FR u c g # k" "Nd l RED n r"]
      insert_loop_right [of m k u c g "Nd l RED n r" p s rot n] right_inner [of m k u c g l n r p s] rb_keeps_bind [OF flip]
    by (cases pc) (auto simp: inord_ins_fix set_inord_plug rb_state_def intro: keeps_recolor)
qed

lemma insert_keeps:
  assumes "rb_state G m (plug k (Nd l RED n r))" and "root_black k"
  shows "rb_keeps G (rb_insert rot m n) m (ins_fix k (Nd l RED n r))"
proof -
  have "rb_red_parent m n = Some (parent_of k)"
    using assms(1) unfolding rb_state_def rb_repr_zip by (simp add: mem_simps)
  with insert_loop_keeps [OF assms] show ?thesis by (simp add: rb_insert_def)
qed

end

text \<open>The callbacks that write anything they like to the augmented data.\<close>

interpretation any_aug: rb_insertion "aug_rot f" "\<lambda>_ _. True" for f
  by unfold_locales
    (simp_all add: no_property rot_left_outer rot_left_inner rot_right_outer rot_right_inner)

lemma rb_inv_ins_fix:
  "ctx_fits k (bheight t) \<Longrightarrow> no_red_red t \<Longrightarrow> bal t \<Longrightarrow> color_of t = RED \<Longrightarrow> rb_inv (ins_fix k t)"
proof (induction k t rule: ins_fix.induct)
  case (1 t)
  then show ?case by (simp add: rb_inv_def)
next
  case (2 fr t)
  then show ?case by (cases fr) (auto simp: rb_inv_def)
next
  case (3 pc p s c g u k t)
  then show ?case by (cases pc; cases "color_of u"; cases c; simp add: rb_inv_plug)
next
  case (4 s pc p c g u k t)
  then show ?case by (cases t; cases pc; cases "color_of u"; cases c; simp add: rb_inv_plug)
next
  case (5 s pc p u c g k t)
  then show ?case by (cases pc; cases "color_of u"; cases c; simp add: rb_inv_plug)
next
  case (6 pc p s u c g k t)
  then show ?case by (cases t; cases pc; cases "color_of u"; cases c; simp add: rb_inv_plug)
qed

section \<open>Linking a new node\<close>

fun link_of :: "frame list \<Rightarrow> rb_link" where
  "link_of [] = LRoot"
| "link_of (FL c a s # k) = LLeft a"
| "link_of (FR s c a # k) = LRight a"

fun descend :: "(addr \<Rightarrow> bool) \<Rightarrow> rtree \<Rightarrow> frame list \<Rightarrow> frame list" where
  "descend lt Tip k = k"
| "descend lt (Nd l c a r) k = (if lt a then descend lt l (FL c a r # k) else descend lt r (FR l c a # k))"

lemma plug_descend: "plug (descend lt t k) Tip = plug k t"
  by (induction lt t k rule: descend.induct) auto

lemma ctx_set_descend: "ctx_set (descend lt t k) = ctx_set k \<union> set (inord t)"
  by (induction lt t k rule: descend.induct) auto

lemma read_link_ctx:
  "rb_repr m (plug k t) \<Longrightarrow> rb_read_link m (link_of k) = Some (root_of t)"
  unfolding rb_repr_zip by (cases k rule: link_of.cases; simp add: zip_simps; (simp add: Int_commute)?; (elim conjE)?;
       simp add: mem_simps)

lemma add_loop_descend:
  "rb_repr m (plug k t) \<Longrightarrow>
   rb_add_loop cmp m n (link_of k) (parent_of k) =
     Some (parent_of (descend (\<lambda>a. cmp n a < 0) t k), link_of (descend (\<lambda>a. cmp n a < 0) t k))"
proof (induction t arbitrary: k)
  case Tip
  then show ?case using read_link_ctx [OF Tip] by (subst rb_add_loop.simps) simp
next
  case (Nd l c a r)
  have "a \<noteq> NULL" using Nd.prems unfolding rb_repr_zip by auto
  then show ?case using read_link_ctx [OF Nd.prems] Nd.IH(1) [of "FL c a r # k"] Nd.IH(2) [of "FR l c a # k"] Nd.prems
    by (subst rb_add_loop.simps) auto
qed

lemma link_node_plug:
  assumes "rb_repr m (plug k Tip)" and "n \<notin> ctx_set k" and "node_addr n" and "rb_nodes m n = Some v"
  shows "rb_becomes (rb_link_node m n (parent_of k) (link_of k)) m (plug k (Nd Tip RED n Tip))"
  using assms unfolding rb_repr_zip rb_becomes_def
  by - (cases k rule: link_of.cases; simp add: zip_simps; (simp add: Int_commute)?; (elim conjE)?;
       simp add: rb_link_node_def mk_pc_RED rot_simps)

lemma rb_insert_plug:
  "rb_repr m (plug k (Nd l RED n r)) \<Longrightarrow> root_black k \<Longrightarrow> rb_becomes (rb_insert (aug_rot f) m n) m (ins_fix k (Nd l RED n r))"
  by (rule rb_keeps_becomes [OF any_aug.insert_keeps]) (simp_all add: no_property)

section \<open>Sorted insertion\<close>

definition add_tree :: "(addr \<Rightarrow> bool) \<Rightarrow> addr \<Rightarrow> rtree \<Rightarrow> rtree" where
  "add_tree lt n t = ins_fix (descend lt t []) (Nd Tip RED n Tip)"

lemma rb_inv_add_tree: "rb_inv t \<Longrightarrow> rb_inv (add_tree lt n t)"
  using rb_inv_plug [of "descend lt t []" Tip] plug_descend [of lt t "[]"]
  by (simp add: add_tree_def rb_inv_ins_fix)

fun ctx_left :: "frame list \<Rightarrow> addr list" where
  "ctx_left [] = []"
| "ctx_left (FL c a s # k) = ctx_left k"
| "ctx_left (FR s c a # k) = ctx_left k @ inord s @ [a]"

fun ctx_right :: "frame list \<Rightarrow> addr list" where
  "ctx_right [] = []"
| "ctx_right (FL c a s # k) = a # inord s @ ctx_right k"
| "ctx_right (FR s c a # k) = ctx_right k"

lemma inord_plug: "inord (plug k t) = ctx_left k @ inord t @ ctx_right k"
  by (induction k t rule: plug.induct) auto

lemma inord_descend:
  "sorted_wrt (\<lambda>a b. lt a \<longrightarrow> lt b) (inord t) \<Longrightarrow>
   inord (plug (descend lt t k) x) =
     ctx_left k @ takeWhile (\<lambda>a. \<not> lt a) (inord t) @ inord x @ dropWhile (\<lambda>a. \<not> lt a) (inord t) @ ctx_right k"
proof (induction lt t k rule: descend.induct)
  case (1 lt k)
  then show ?case by (simp add: inord_plug)
next
  case (2 lt l c a r k)
  show ?case
  proof (cases "lt a")
    case True
    with 2 show ?thesis by (auto simp: sorted_wrt_append takeWhile_append dropWhile_append)
  next
    case False
    with 2 have "\<forall>b\<in>set (inord l). \<not> lt b" by (auto simp: sorted_wrt_append)
    with False 2 show ?thesis by (auto simp: sorted_wrt_append takeWhile_append dropWhile_append)
  qed
qed

lemma inord_add_tree:
  "sorted_wrt (\<lambda>a b. lt a \<longrightarrow> lt b) (inord t) \<Longrightarrow>
   inord (add_tree lt n t) = takeWhile (\<lambda>a. \<not> lt a) (inord t) @ n # dropWhile (\<lambda>a. \<not> lt a) (inord t)"
  by (simp add: add_tree_def inord_ins_fix inord_descend)

lemma set_add_tree: "set (inord (add_tree lt n t)) = insert n (set (inord t))"
  by (auto simp: add_tree_def inord_ins_fix set_inord_plug ctx_set_descend)

lemma dummy_rotate_aug: "dummy_rotate = aug_rot (\<lambda>m old new. rb_aug m)"
  by (intro ext) (simp add: dummy_rotate_def aug_rot_def)

lemma rb_add_becomes:
  assumes "rb_repr m t" and "rb_inv t" and "n \<notin> set (inord t)" and "node_addr n" and "rb_nodes m n = Some v"
  shows "rb_becomes (rb_add cmp m n) m (add_tree (\<lambda>a. cmp n a < 0) n t)"
proof -
  let ?k = "descend (\<lambda>a. cmp n a < 0) t []"
  have k: "rb_repr m (plug ?k Tip)" "rb_inv (plug ?k Tip)" "n \<notin> ctx_set ?k"
    using assms(1-3) by (simp_all add: plug_descend ctx_set_descend)
  then have rb: "root_black ?k" using ctx_fits_root_black by (auto simp: rb_inv_plug)
  obtain m1 where m1: "rb_link_node m n (parent_of ?k) (link_of ?k) = Some m1"
      "rb_repr m1 (plug ?k (Nd Tip RED n Tip))"
      "\<forall>a. a \<notin> set (inord (plug ?k (Nd Tip RED n Tip))) \<longrightarrow> rb_nodes m1 a = rb_nodes m a"
    using link_node_plug [OF k(1,3) assms(4,5)] by (auto simp: rb_becomes_def)
  have "rb_becomes (rb_insert_color m1 n) m1 (ins_fix ?k (Nd Tip RED n Tip))"
    unfolding rb_insert_color_def dummy_rotate_aug by (rule rb_insert_plug [OF m1(2) rb])
  moreover have "rb_add cmp m n = rb_insert_color m1 n"
    using add_loop_descend [of m "[]" t cmp n] assms(1) m1(1) by (simp add: rb_add_def)
  ultimately show ?thesis
    using m1(3) by (auto simp: rb_becomes_def add_tree_def inord_ins_fix)
qed

text \<open>With a comparison that follows a key, the new node comes after the nodes whose key is not greater.\<close>

lemma rb_add_sorted:
  fixes key :: "addr \<Rightarrow> 'k :: linorder"
  assumes "rb_repr m t" and "rb_inv t" and "n \<notin> set (inord t)" and "node_addr n" and "rb_nodes m n = Some v"
    and cmp: "\<And>a. a \<in> set (inord t) \<Longrightarrow> cmp n a < 0 \<longleftrightarrow> key n < key a" and "sorted (map key (inord t))"
  shows "\<exists>m' t'. rb_add cmp m n = Some m' \<and> rb_repr m' t' \<and> rb_inv t' \<and>
    inord t' = takeWhile (\<lambda>a. key a \<le> key n) (inord t) @ n # dropWhile (\<lambda>a. key a \<le> key n) (inord t) \<and>
    (\<forall>a. a \<notin> set (inord t') \<longrightarrow> rb_nodes m' a = rb_nodes m a)"
proof -
  let ?lt = "\<lambda>a. cmp n a < 0"
  have "sorted_wrt (\<lambda>a b. key a \<le> key b) (inord t)" using assms(7) by (simp add: sorted_wrt_map)
  then have "sorted_wrt (\<lambda>a b. ?lt a \<longrightarrow> ?lt b) (inord t)"
    by (rule sorted_wrt_mono_rel [rotated]) (auto simp: cmp)
  moreover have "takeWhile (\<lambda>a. \<not> ?lt a) (inord t) = takeWhile (\<lambda>a. key a \<le> key n) (inord t)"
    "dropWhile (\<lambda>a. \<not> ?lt a) (inord t) = dropWhile (\<lambda>a. key a \<le> key n) (inord t)"
    using cmp by (auto intro!: takeWhile_cong dropWhile_cong)
  ultimately have "inord (add_tree ?lt n t) =
      takeWhile (\<lambda>a. key a \<le> key n) (inord t) @ n # dropWhile (\<lambda>a. key a \<le> key n) (inord t)"
    by (simp add: inord_add_tree)
  with rb_add_becomes [OF assms(1-5), of cmp] rb_inv_add_tree [OF assms(2), of ?lt n] show ?thesis
    unfolding rb_becomes_def by metis
qed

end
