(* ===== verification/Rbtree_Rebalance.thy ===== *)
theory Rbtree_Rebalance
  imports Rbtree_Insert
begin

text \<open>
  Rebalancing after an erasure, the loop of \<^verbatim>\<open>____rb_erase_color\<close>: each \<^verbatim>\<open>Case\<close> is a lemma on the tree
  in memory, for both sides, and \<open>erase_loop_restores\<close> shows that the loop ends with a red-black tree
  holding the same nodes in the same order.
\<close>

section \<open>The cases of the rebalancing loop\<close>


definition erase_tail_left ::
  "'u rb_rotate \<Rightarrow> 'u rb_mem \<Rightarrow> addr \<Rightarrow> addr \<Rightarrow> 'u rb_mem option" where
  "erase_tail_left rot m parent sibling =
     do { tmp1 \<leftarrow> rb_get_right m sibling;
          b1 \<leftarrow> rb_null_or_black m tmp1;
          if b1
          then do { tmp2 \<leftarrow> rb_get_left m sibling;
                    b2 \<leftarrow> rb_null_or_black m tmp2;
                    if b2
                    then do { m \<leftarrow> rb_set_parent_color m sibling parent RB_RED;
                              pr \<leftarrow> rb_is_red m parent;
                              if pr then rb_set_black m parent
                              else do { gp \<leftarrow> rb_parent m parent;
                                        if gp \<noteq> NULL then rb_erase_loop rot m parent gp else Some m } }
                    else do { (m, tmp1, sibling) \<leftarrow> rb_erase_case3_left rot m parent sibling tmp2;
                              rb_erase_case4_left rot m parent sibling tmp1 } }
          else rb_erase_case4_left rot m parent sibling tmp1 }"

definition erase_tail_right ::
  "'u rb_rotate \<Rightarrow> 'u rb_mem \<Rightarrow> addr \<Rightarrow> addr \<Rightarrow> 'u rb_mem option" where
  "erase_tail_right rot m parent sibling =
     do { tmp1 \<leftarrow> rb_get_left m sibling;
          b1 \<leftarrow> rb_null_or_black m tmp1;
          if b1
          then do { tmp2 \<leftarrow> rb_get_right m sibling;
                    b2 \<leftarrow> rb_null_or_black m tmp2;
                    if b2
                    then do { m \<leftarrow> rb_set_parent_color m sibling parent RB_RED;
                              pr \<leftarrow> rb_is_red m parent;
                              if pr then rb_set_black m parent
                              else do { gp \<leftarrow> rb_parent m parent;
                                        if gp \<noteq> NULL then rb_erase_loop rot m parent gp else Some m } }
                    else do { (m, tmp1, sibling) \<leftarrow> rb_erase_case3_right rot m parent sibling tmp2;
                              rb_erase_case4_right rot m parent sibling tmp1 } }
          else rb_erase_case4_right rot m parent sibling tmp1 }"

lemma erase_loop_unfold:
  "rb_erase_loop rot m node parent =
     do { sibling \<leftarrow> rb_get_right m parent;
          if node \<noteq> sibling
          then do { r \<leftarrow> rb_is_red m sibling;
                    (m, sibling) \<leftarrow> (if r then rb_erase_case1_left rot m parent sibling else Some (m, sibling));
                    erase_tail_left rot m parent sibling }
          else do { sibling \<leftarrow> rb_get_left m parent;
                    r \<leftarrow> rb_is_red m sibling;
                    (m, sibling) \<leftarrow> (if r then rb_erase_case1_right rot m parent sibling else Some (m, sibling));
                    erase_tail_right rot m parent sibling } }"
  unfolding erase_tail_left_def erase_tail_right_def by (rule rb_erase_loop.simps)

text \<open>The computation ends with a red-black tree of the same nodes in the same order, and keeps \<open>G\<close>.\<close>

definition rb_restores :: "('u \<Rightarrow> rtree \<Rightarrow> bool) \<Rightarrow> 'u rb_mem option \<Rightarrow> 'u rb_mem \<Rightarrow> rtree \<Rightarrow> bool" where
  "rb_restores G x m t \<longleftrightarrow> (\<exists>t'. rb_keeps G x m t' \<and> rb_inv t' \<and> inord t' = inord t)"

lemma rb_restoresI: "rb_keeps G x m t' \<Longrightarrow> rb_inv t' \<Longrightarrow> inord t' = inord t \<Longrightarrow> rb_restores G x m t"
  by (auto simp: rb_restores_def)

lemma rb_restores_trans:
  "rb_keeps G (Some m1) m t1 \<Longrightarrow> rb_restores G x m1 t1 \<Longrightarrow> inord t1 = inord t \<Longrightarrow> rb_restores G x m t"
  unfolding rb_restores_def rb_keeps_def rb_becomes_aug_def by (elim exE conjE, rule exI, auto)

lemma tail_left_case4:
  assumes "rb_repr m (plug k (Nd t c p (Nd sl BLACK s (Nd x RED q y))))"
  shows "rb_becomes (erase_tail_left (aug_rot f) m p s) m
    (plug k (Nd (Nd t BLACK p sl) c s (Nd x BLACK q y)))"
  using assms unfolding rb_repr_zip rb_becomes_def
  by - (cases sl; simp add: zip_simps; (simp add: Int_commute)?; (elim conjE)?;
       simp add: erase_tail_left_def rb_erase_case4_left_def rot_simps)

lemma tail_left_case3:
  assumes "rb_repr m (plug k (Nd t c p (Nd (Nd x RED q y) BLACK s sr)))" and "color_of sr = BLACK"
  shows "rb_becomes (erase_tail_left (aug_rot f) m p s) m
    (plug k (Nd (Nd t BLACK p x) c q (Nd (paint BLACK y) BLACK s sr)))"
  using assms unfolding rb_repr_zip rb_becomes_def
  by - (cases x; cases y; simp add: zip_simps; (simp add: Int_commute)?; (elim conjE)?;
      
      simp add: erase_tail_left_def rb_erase_case3_left_def rb_erase_case4_left_def rot_simps)

lemma tail_left_case2_red:
  assumes "rb_repr m (plug k (Nd t RED p (Nd sl BLACK s sr)))" and "color_of sl = BLACK" and "color_of sr = BLACK"
  shows "rb_becomes_aug (erase_tail_left rot m p s) m (plug k (Nd t BLACK p (Nd sl RED s sr))) (rb_aug m)"
  using assms unfolding rb_repr_zip rb_becomes_aug_def
  by - (simp add: zip_simps; (simp add: Int_commute)?; (elim conjE)?;
       simp add: erase_tail_left_def rot_simps)

lemma tail_left_case2_black:
  assumes "rb_repr m (plug k (Nd t BLACK p (Nd sl BLACK s sr)))" and "color_of sl = BLACK" and "color_of sr = BLACK"
  shows "\<exists>m'. erase_tail_left rot m p s = (if k = [] then Some m' else rb_erase_loop rot m' p (parent_of k)) \<and>
    rb_becomes_aug (Some m') m (plug k (Nd t BLACK p (Nd sl RED s sr))) (rb_aug m)"
proof (rule exI [of _ "m\<lparr>rb_nodes := (rb_nodes m)(s \<mapsto>
    \<lparr>rb_parent_color = mk_pc p RED, rb_right = root_of sr, rb_left = root_of sl\<rparr>)\<rparr>"])
qed (use assms in \<open>unfold rb_repr_zip rb_becomes_aug_def\<close>,
  cases k rule: parent_of.cases; simp add: zip_simps; (simp add: Int_commute)?; (elim conjE)?;
  simp add: erase_tail_left_def rot_simps)

lemma case1_left:
  assumes "rb_repr m (plug k (Nd t c p (Nd (Nd x sc q y) RED s sr)))"
  shows "\<exists>m'. rb_erase_case1_left (aug_rot f) m p s = Some (m', q) \<and> rb_becomes (Some m') m (plug k (Nd (Nd t RED p (Nd x BLACK q y)) c s sr))"
  using assms unfolding rb_repr_zip rb_becomes_def
  by - (cases t; simp add: zip_simps; (simp add: Int_commute)?; (elim conjE)?;
      simp add: rb_erase_case1_left_def rot_simps)

lemma erase_loop_left:
  assumes "rb_repr m (plug k (Nd t c p (Nd sl sc s sr)))" and "root_of t = n"
  shows "rb_erase_loop rot m n p =
    (if sc = RED then do { (m, s) \<leftarrow> rb_erase_case1_left rot m p s; erase_tail_left rot m p s }
     else erase_tail_left rot m p s)"
  using assms unfolding rb_repr_zip
  by - (cases t; simp add: zip_simps; (simp add: Int_commute)?; (elim conjE)?;
      simp add: erase_loop_unfold mem_simps)

lemma tail_right_case4:
  assumes "rb_repr m (plug k (Nd (Nd (Nd x RED q y) BLACK s sl) c p t))"
  shows "rb_becomes (erase_tail_right (aug_rot f) m p s) m
    (plug k (Nd (Nd x BLACK q y) c s (Nd sl BLACK p t)))"
  using assms unfolding rb_repr_zip rb_becomes_def
  by - (cases sl; simp add: zip_simps; (simp add: Int_commute)?; (elim conjE)?;
       simp add: erase_tail_right_def rb_erase_case4_right_def rot_simps)

lemma tail_right_case3:
  assumes "rb_repr m (plug k (Nd (Nd sr BLACK s (Nd y RED q x)) c p t))" and "color_of sr = BLACK"
  shows "rb_becomes (erase_tail_right (aug_rot f) m p s) m
    (plug k (Nd (Nd sr BLACK s (paint BLACK y)) c q (Nd x BLACK p t)))"
  using assms unfolding rb_repr_zip rb_becomes_def
  by - (cases x; cases y; simp add: zip_simps; (simp add: Int_commute)?; (elim conjE)?;
      
      simp add: erase_tail_right_def rb_erase_case3_right_def rb_erase_case4_right_def rot_simps)

lemma tail_right_case2_red:
  assumes "rb_repr m (plug k (Nd (Nd sl BLACK s sr) RED p t))" and "color_of sl = BLACK" and "color_of sr = BLACK"
  shows "rb_becomes_aug (erase_tail_right rot m p s) m (plug k (Nd (Nd sl RED s sr) BLACK p t)) (rb_aug m)"
  using assms unfolding rb_repr_zip rb_becomes_aug_def
  by - (simp add: zip_simps; (simp add: Int_commute)?; (elim conjE)?;
       simp add: erase_tail_right_def rot_simps)

lemma tail_right_case2_black:
  assumes "rb_repr m (plug k (Nd (Nd sl BLACK s sr) BLACK p t))" and "color_of sl = BLACK" and "color_of sr = BLACK"
  shows "\<exists>m'. erase_tail_right rot m p s = (if k = [] then Some m' else rb_erase_loop rot m' p (parent_of k)) \<and>
    rb_becomes_aug (Some m') m (plug k (Nd (Nd sl RED s sr) BLACK p t)) (rb_aug m)"
proof (rule exI [of _ "m\<lparr>rb_nodes := (rb_nodes m)(s \<mapsto>
    \<lparr>rb_parent_color = mk_pc p RED, rb_right = root_of sr, rb_left = root_of sl\<rparr>)\<rparr>"])
qed (use assms in \<open>unfold rb_repr_zip rb_becomes_aug_def\<close>,
  cases k rule: parent_of.cases; simp add: zip_simps; (simp add: Int_commute)?; (elim conjE)?;
  simp add: erase_tail_right_def rot_simps)

lemma case1_right:
  assumes "rb_repr m (plug k (Nd (Nd sr RED s (Nd x sc q y)) c p t))"
  shows "\<exists>m'. rb_erase_case1_right (aug_rot f) m p s = Some (m', q) \<and> rb_becomes (Some m') m (plug k (Nd sr c s (Nd (Nd x BLACK q y) RED p t)))"
  using assms unfolding rb_repr_zip rb_becomes_def
  by - (cases t; simp add: zip_simps; (simp add: Int_commute)?; (elim conjE)?;
      simp add: rb_erase_case1_right_def rot_simps)

lemma erase_loop_right:
  assumes "rb_repr m (plug k (Nd (Nd sl sc s sr) c p t))" and "root_of t = n"
  shows "rb_erase_loop rot m n p =
    (if sc = RED then do { (m, s) \<leftarrow> rb_erase_case1_right rot m p s; erase_tail_right rot m p s }
     else erase_tail_right rot m p s)"
  using assms unfolding rb_repr_zip
  by - (cases t; simp add: zip_simps; (simp add: Int_commute)?; (elim conjE)?;
      simp add: erase_loop_unfold mem_simps)


lemma bheight_Suc: "bheight t = Suc h \<Longrightarrow> \<exists>l c a r. t = Nd l c a r"
  by (cases t) auto

section \<open>The loop, with a property of the augmented data\<close>

locale rb_rebalance = rb_augmentation +
  assumes left4: "rb_state G m (plug k (Nd t c p (Nd sl BLACK s (Nd x RED q y)))) \<Longrightarrow>
      rb_keeps G (erase_tail_left rot m p s) m (plug k (Nd (Nd t BLACK p sl) c s (Nd x BLACK q y)))"
    and left3: "rb_state G m (plug k (Nd t c p (Nd (Nd x RED q y) BLACK s sr))) \<Longrightarrow> color_of sr = BLACK \<Longrightarrow>
      rb_keeps G (erase_tail_left rot m p s) m (plug k (Nd (Nd t BLACK p x) c q (Nd (paint BLACK y) BLACK s sr)))"
    and left1: "rb_state G m (plug k (Nd t c p (Nd (Nd x sc q y) RED s sr))) \<Longrightarrow>
      \<exists>m'. rb_erase_case1_left rot m p s = Some (m', q) \<and> rb_keeps G (Some m') m (plug k (Nd (Nd t RED p (Nd x BLACK q y)) c s sr))"
    and right4: "rb_state G m (plug k (Nd (Nd (Nd x RED q y) BLACK s sl) c p t)) \<Longrightarrow>
      rb_keeps G (erase_tail_right rot m p s) m (plug k (Nd (Nd x BLACK q y) c s (Nd sl BLACK p t)))"
    and right3: "rb_state G m (plug k (Nd (Nd sr BLACK s (Nd y RED q x)) c p t)) \<Longrightarrow> color_of sr = BLACK \<Longrightarrow>
      rb_keeps G (erase_tail_right rot m p s) m (plug k (Nd (Nd sr BLACK s (paint BLACK y)) c q (Nd x BLACK p t)))"
    and right1: "rb_state G m (plug k (Nd (Nd sr RED s (Nd x sc q y)) c p t)) \<Longrightarrow>
      \<exists>m'. rb_erase_case1_right rot m p s = Some (m', q) \<and> rb_keeps G (Some m') m (plug k (Nd sr c s (Nd (Nd x BLACK q y) RED p t)))"
begin

lemma left2:
  assumes "rb_state G m (plug k (Nd t c p (Nd sl BLACK s sr)))" and "color_of sl = BLACK" and "color_of sr = BLACK"
  shows "c = RED \<Longrightarrow> rb_keeps G (erase_tail_left rot m p s) m (plug k (Nd t BLACK p (Nd sl RED s sr)))"
    and "c = BLACK \<Longrightarrow> \<exists>m'. erase_tail_left rot m p s = (if k = [] then Some m' else rb_erase_loop rot m' p (parent_of k)) \<and>
      rb_keeps G (Some m') m (plug k (Nd t BLACK p (Nd sl RED s sr)))"
proof -
  have bare: "bare (plug k (Nd t BLACK p (Nd sl RED s sr))) = bare (plug k (Nd t c p (Nd sl BLACK s sr)))"
    by (rule bare_plug) simp
  show "rb_keeps G (erase_tail_left rot m p s) m (plug k (Nd t BLACK p (Nd sl RED s sr)))" if "c = RED"
    using tail_left_case2_red [of m k t p sl s sr rot] assms that by (intro keeps_recolor [OF _ assms(1) bare]) (simp add: rb_state_def)
  show "\<exists>m'. erase_tail_left rot m p s = (if k = [] then Some m' else rb_erase_loop rot m' p (parent_of k)) \<and>
      rb_keeps G (Some m') m (plug k (Nd t BLACK p (Nd sl RED s sr)))" if "c = BLACK"
    using tail_left_case2_black [of m k t p sl s sr rot] assms that keeps_recolor [OF _ assms(1) bare] unfolding rb_state_def by blast
qed

lemma right2:
  assumes "rb_state G m (plug k (Nd (Nd sl BLACK s sr) c p t))" and "color_of sl = BLACK" and "color_of sr = BLACK"
  shows "c = RED \<Longrightarrow> rb_keeps G (erase_tail_right rot m p s) m (plug k (Nd (Nd sl RED s sr) BLACK p t))"
    and "c = BLACK \<Longrightarrow> \<exists>m'. erase_tail_right rot m p s = (if k = [] then Some m' else rb_erase_loop rot m' p (parent_of k)) \<and>
      rb_keeps G (Some m') m (plug k (Nd (Nd sl RED s sr) BLACK p t))"
proof -
  have bare: "bare (plug k (Nd (Nd sl RED s sr) BLACK p t)) = bare (plug k (Nd (Nd sl BLACK s sr) c p t))"
    by (rule bare_plug) simp
  show "rb_keeps G (erase_tail_right rot m p s) m (plug k (Nd (Nd sl RED s sr) BLACK p t))" if "c = RED"
    using tail_right_case2_red [of m k sl s sr p t rot] assms that by (intro keeps_recolor [OF _ assms(1) bare]) (simp add: rb_state_def)
  show "\<exists>m'. erase_tail_right rot m p s = (if k = [] then Some m' else rb_erase_loop rot m' p (parent_of k)) \<and>
      rb_keeps G (Some m') m (plug k (Nd (Nd sl RED s sr) BLACK p t))" if "c = BLACK"
    using tail_right_case2_black [of m k sl s sr p t rot] assms that keeps_recolor [OF _ assms(1) bare] unfolding rb_state_def by blast
qed

lemma tail_left_recolor:
  assumes m: "rb_state G m (plug k (Nd t c p (Nd sl BLACK s sr)))"
    and fits: "ctx_fits (FL c p (Nd sl BLACK s sr) # k) (Suc (bheight t))" "no_red_red t" "bal t" "color_of t = BLACK"
    and IH: "\<And>m' u. \<lbrakk>c = BLACK; k \<noteq> []; rb_state G m' (plug k u); ctx_fits k (Suc (bheight u)); no_red_red u; bal u;
               color_of u = BLACK; root_of u = p\<rbrakk> \<Longrightarrow>
             rb_restores G (rb_erase_loop rot m' p (parent_of k)) m' (plug k u)"
    and sl: "color_of sl = BLACK" and sr: "color_of sr = BLACK"
  shows "rb_restores G (erase_tail_left rot m p s) m (plug k (Nd t c p (Nd sl BLACK s sr)))"
proof (cases c)
  case RED
  with left2(1) [OF m sl sr RED] fits sl sr show ?thesis
    by (auto simp: rb_inv_plug intro!: rb_restoresI inord_plug_cong)
next
  case c: BLACK
  let ?t = "plug k (Nd t BLACK p (Nd sl RED s sr))"
  obtain m' where m': "erase_tail_left rot m p s =
      (if k = [] then Some m' else rb_erase_loop rot m' p (parent_of k))" "rb_keeps G (Some m') m ?t"
    using left2(2) [OF m sl sr c] by blast
  have eq: "inord ?t = inord (plug k (Nd t c p (Nd sl BLACK s sr)))"
    by (auto intro: inord_plug_cong)
  show ?thesis
  proof (cases "k = []")
    case True
    with m' eq fits sl sr show ?thesis by (auto simp: c rb_inv_def intro!: rb_restoresI)
  next
    case False
    have "rb_state G m' ?t" using m'(2) by (rule rb_keeps_state)
    from IH [OF c False this] fits sl sr
    have "rb_restores G (rb_erase_loop rot m' p (parent_of k)) m' ?t" by (auto simp: c)
    with m' False eq show ?thesis by (auto intro: rb_restores_trans)
  qed
qed

lemma tail_left_restores:
  assumes m: "rb_state G m (plug k (Nd t c p (Nd sl BLACK s sr)))"
    and fits: "ctx_fits (FL c p (Nd sl BLACK s sr) # k) (Suc (bheight t))" "no_red_red t" "bal t" "color_of t = BLACK"
    and IH: "\<And>m' u. \<lbrakk>c = BLACK; k \<noteq> []; rb_state G m' (plug k u); ctx_fits k (Suc (bheight u)); no_red_red u; bal u;
               color_of u = BLACK; root_of u = p\<rbrakk> \<Longrightarrow>
             rb_restores G (rb_erase_loop rot m' p (parent_of k)) m' (plug k u)"
  shows "rb_restores G (erase_tail_left rot m p s) m (plug k (Nd t c p (Nd sl BLACK s sr)))"
proof (cases "color_of sr")
  case RED
  then obtain x q y where far: "sr = Nd x RED q y" by (cases sr) auto
  show ?thesis using left4 [OF m [unfolded far]] fits
    by (auto simp: far rb_inv_plug intro!: rb_restoresI inord_plug_cong)
next
  case far: BLACK
  show ?thesis
  proof (cases "color_of sl")
    case RED
    then obtain x q y where near: "sl = Nd x RED q y" by (cases sl) auto
    show ?thesis using left3 [OF m [unfolded near] far] fits far
      by (auto simp: near rb_inv_plug intro!: rb_restoresI inord_plug_cong)
  next
    case BLACK
    with far tail_left_recolor [OF m fits IH] show ?thesis by blast
  qed
qed

lemma tail_right_recolor:
  assumes m: "rb_state G m (plug k (Nd (Nd sl BLACK s sr) c p t))"
    and fits: "ctx_fits (FR (Nd sl BLACK s sr) c p # k) (Suc (bheight t))" "no_red_red t" "bal t" "color_of t = BLACK"
    and IH: "\<And>m' u. \<lbrakk>c = BLACK; k \<noteq> []; rb_state G m' (plug k u); ctx_fits k (Suc (bheight u)); no_red_red u; bal u;
               color_of u = BLACK; root_of u = p\<rbrakk> \<Longrightarrow>
             rb_restores G (rb_erase_loop rot m' p (parent_of k)) m' (plug k u)"
    and sl: "color_of sl = BLACK" and sr: "color_of sr = BLACK"
  shows "rb_restores G (erase_tail_right rot m p s) m (plug k (Nd (Nd sl BLACK s sr) c p t))"
proof (cases c)
  case RED
  with right2(1) [OF m sl sr RED] fits sl sr show ?thesis
    by (auto simp: rb_inv_plug intro!: rb_restoresI inord_plug_cong)
next
  case c: BLACK
  let ?t = "plug k (Nd (Nd sl RED s sr) BLACK p t)"
  obtain m' where m': "erase_tail_right rot m p s =
      (if k = [] then Some m' else rb_erase_loop rot m' p (parent_of k))" "rb_keeps G (Some m') m ?t"
    using right2(2) [OF m sl sr c] by blast
  have eq: "inord ?t = inord (plug k (Nd (Nd sl BLACK s sr) c p t))"
    by (auto intro: inord_plug_cong)
  show ?thesis
  proof (cases "k = []")
    case True
    with m' eq fits sl sr show ?thesis by (auto simp: c rb_inv_def intro!: rb_restoresI)
  next
    case False
    have "rb_state G m' ?t" using m'(2) by (rule rb_keeps_state)
    from IH [OF c False this] fits sl sr
    have "rb_restores G (rb_erase_loop rot m' p (parent_of k)) m' ?t" by (auto simp: c)
    with m' False eq show ?thesis by (auto intro: rb_restores_trans)
  qed
qed

lemma tail_right_restores:
  assumes m: "rb_state G m (plug k (Nd (Nd sl BLACK s sr) c p t))"
    and fits: "ctx_fits (FR (Nd sl BLACK s sr) c p # k) (Suc (bheight t))" "no_red_red t" "bal t" "color_of t = BLACK"
    and IH: "\<And>m' u. \<lbrakk>c = BLACK; k \<noteq> []; rb_state G m' (plug k u); ctx_fits k (Suc (bheight u)); no_red_red u; bal u;
               color_of u = BLACK; root_of u = p\<rbrakk> \<Longrightarrow>
             rb_restores G (rb_erase_loop rot m' p (parent_of k)) m' (plug k u)"
  shows "rb_restores G (erase_tail_right rot m p s) m (plug k (Nd (Nd sl BLACK s sr) c p t))"
proof (cases "color_of sl")
  case RED
  then obtain x q y where far: "sl = Nd x RED q y" by (cases sl) auto
  show ?thesis using right4 [OF m [unfolded far]] fits
    by (auto simp: far rb_inv_plug intro!: rb_restoresI inord_plug_cong)
next
  case far: BLACK
  show ?thesis
  proof (cases "color_of sr")
    case RED
    then obtain x q y where near: "sr = Nd x RED q y" by (cases sr) auto
    show ?thesis using right3 [OF m [unfolded near] far] fits far
      by (auto simp: near rb_inv_plug intro!: rb_restoresI inord_plug_cong)
  next
    case BLACK
    with far tail_right_recolor [OF m fits IH] show ?thesis by blast
  qed
qed


lemma erase_left_restores:
  assumes m: "rb_state G m (plug (FL c p s # k) t)"
    and fits: "ctx_fits (FL c p s # k) (Suc (bheight t))" "no_red_red t" "bal t" "color_of t = BLACK"
    and IH: "\<And>m' u. \<lbrakk>c = BLACK; k \<noteq> []; rb_state G m' (plug k u); ctx_fits k (Suc (bheight u)); no_red_red u; bal u;
               color_of u = BLACK; root_of u = p\<rbrakk> \<Longrightarrow>
             rb_restores G (rb_erase_loop rot m' p (parent_of k)) m' (plug k u)"
  shows "rb_restores G (rb_erase_loop rot m (root_of t) p) m (plug (FL c p s # k) t)"
proof -
  obtain sl sc a sr where s: "s = Nd sl sc a sr" using fits(1) bheight_Suc by fastforce
  have loop: "rb_erase_loop rot m (root_of t) p =
    (if sc = RED then do { (m, a) \<leftarrow> rb_erase_case1_left rot m p a; erase_tail_left rot m p a }
     else erase_tail_left rot m p a)"
    using erase_loop_left [of m k t c p sl sc a sr] m s by (simp add: rb_state_def)
  show ?thesis
  proof (cases sc)
    case BLACK
    with loop tail_left_restores [of m k t c p sl a sr] m fits IH s show ?thesis by simp
  next
    case RED
    with fits(1) s obtain x q y where sl: "sl = Nd x BLACK q y" by (cases sl) auto
    obtain m' where m': "rb_erase_case1_left rot m p a = Some (m', q)"
        "rb_keeps G (Some m') m (plug (FL c a sr # k) (Nd t RED p (Nd x BLACK q y)))"
      using left1 [of m k t c p x BLACK q y a sr] m RED s sl by auto
    have "rb_restores G (erase_tail_left rot m' p q) m' (plug (FL c a sr # k) (Nd t RED p (Nd x BLACK q y)))"
      using tail_left_restores [of m' "FL c a sr # k" t RED p x q y] m'(2) fits RED s sl
      by (auto dest: rb_keeps_state)
    then have "rb_restores G (erase_tail_left rot m' p q) m (plug (FL c p s # k) t)"
      by (rule rb_restores_trans [OF m'(2)]) (auto simp: s sl intro!: inord_plug_cong)
    with loop m'(1) RED show ?thesis by simp
  qed
qed

lemma erase_right_restores:
  assumes m: "rb_state G m (plug (FR s c p # k) t)"
    and fits: "ctx_fits (FR s c p # k) (Suc (bheight t))" "no_red_red t" "bal t" "color_of t = BLACK"
    and IH: "\<And>m' u. \<lbrakk>c = BLACK; k \<noteq> []; rb_state G m' (plug k u); ctx_fits k (Suc (bheight u)); no_red_red u; bal u;
               color_of u = BLACK; root_of u = p\<rbrakk> \<Longrightarrow>
             rb_restores G (rb_erase_loop rot m' p (parent_of k)) m' (plug k u)"
  shows "rb_restores G (rb_erase_loop rot m (root_of t) p) m (plug (FR s c p # k) t)"
proof -
  obtain sl sc a sr where s: "s = Nd sl sc a sr" using fits(1) bheight_Suc by fastforce
  have loop: "rb_erase_loop rot m (root_of t) p =
    (if sc = RED then do { (m, a) \<leftarrow> rb_erase_case1_right rot m p a; erase_tail_right rot m p a }
     else erase_tail_right rot m p a)"
    using erase_loop_right [of m k sl sc a sr c p t] m s by (simp add: rb_state_def)
  show ?thesis
  proof (cases sc)
    case BLACK
    with loop tail_right_restores [of m k sl a sr c p t] m fits IH s show ?thesis by simp
  next
    case RED
    with fits(1) s obtain x q y where sr: "sr = Nd x BLACK q y" by (cases sr) auto
    obtain m' where m': "rb_erase_case1_right rot m p a = Some (m', q)"
        "rb_keeps G (Some m') m (plug (FR sl c a # k) (Nd (Nd x BLACK q y) RED p t))"
      using right1 [of m k sl a x BLACK q y c p t] m RED s sr by auto
    have "rb_restores G (erase_tail_right rot m' p q) m' (plug (FR sl c a # k) (Nd (Nd x BLACK q y) RED p t))"
      using tail_right_restores [of m' "FR sl c a # k" x q y RED p t] m'(2) fits RED s sr
      by (auto dest: rb_keeps_state)
    then have "rb_restores G (erase_tail_right rot m' p q) m (plug (FR s c p # k) t)"
      by (rule rb_restores_trans [OF m'(2)]) (auto simp: s sr intro!: inord_plug_cong)
    with loop m'(1) RED show ?thesis by simp
  qed
qed

lemma erase_loop_restores:
  "\<lbrakk>rb_state G m (plug k t); k \<noteq> []; ctx_fits k (Suc (bheight t)); no_red_red t; bal t; color_of t = BLACK; root_of t = n\<rbrakk> \<Longrightarrow>
   rb_restores G (rb_erase_loop rot m n (parent_of k)) m (plug k t)"
proof (induction k arbitrary: m t n)
  case (Cons fr k)
  show ?case
  proof (cases fr)
    case (FL c p s)
    then have "rb_state G m (plug (FL c p s # k) t)" "ctx_fits (FL c p s # k) (Suc (bheight t))"
      "no_red_red t" "bal t" "color_of t = BLACK"
      using Cons.prems by simp_all
    then have "rb_restores G (rb_erase_loop rot m (root_of t) p) m (plug (FL c p s # k) t)"
      by (rule erase_left_restores) (rule Cons.IH; assumption)
    with FL Cons.prems show ?thesis by simp
  next
    case (FR s c p)
    then have "rb_state G m (plug (FR s c p # k) t)" "ctx_fits (FR s c p # k) (Suc (bheight t))"
      "no_red_red t" "bal t" "color_of t = BLACK"
      using Cons.prems by simp_all
    then have "rb_restores G (rb_erase_loop rot m (root_of t) p) m (plug (FR s c p # k) t)"
      by (rule erase_right_restores) (rule Cons.IH; assumption)
    with FR Cons.prems show ?thesis by simp
  qed
qed simp

end

interpretation any_aug: rb_rebalance "aug_rot f" "\<lambda>_ _. True" for f
  by (unfold_locales, unfold no_property)
    (simp_all add: tail_left_case4 tail_left_case3 tail_right_case4 tail_right_case3 case1_left case1_right)

end
