(* ===== verification/Rbtree_Erase.thy ===== *)
theory Rbtree_Erase
  imports Rbtree_Rebalance
begin

text \<open>
  Erasure.  \<^verbatim>\<open>__rb_erase_augmented\<close> unlinks the node, in the three shapes of the source (no left child, no
  right child, a successor in the right subtree); what it leaves is a valid tree or a hole that is one
  black level short, which is the precondition of the rebalancing loop.  Both together remove the node
  from the in-order sequence and restore the red-black invariant.
\<close>

section \<open>The path to the successor\<close>


fun all_left :: "frame list \<Rightarrow> bool" where
  "all_left [] \<longleftrightarrow> True"
| "all_left (FL c a s # k) \<longleftrightarrow> all_left k"
| "all_left (FR s c a # k) \<longleftrightarrow> False"

lemma all_left_append [simp]: "all_left (k @ k') \<longleftrightarrow> all_left k \<and> all_left k'"
  by (induction k rule: all_left.induct) auto

lemma leftmost_split: "t \<noteq> Tip \<Longrightarrow> \<exists>k c a r. all_left k \<and> t = plug k (Nd Tip c a r)"
proof (induction t)
  case (Nd l c a r)
  show ?case
  proof (cases "l = Tip")
    case True
    then show ?thesis by (intro exI [of _ "[]"]) auto
  next
    case False
    with Nd obtain k c' a' r' where "all_left k" "l = plug k (Nd Tip c' a' r')" by blast
    then show ?thesis by (intro exI [of _ "k @ [FL c a r]"]) (auto simp: plug_append)
  qed
qed simp

text \<open>A stretch of a context in memory, with the parent \<open>par\<close> above it.\<close>

fun seg_parent :: "frame list \<Rightarrow> addr \<Rightarrow> addr" where
  "seg_parent [] par = par"
| "seg_parent (FL c a s # k) par = a"
| "seg_parent (FR s c a # k) par = a"

fun seg_top :: "frame list \<Rightarrow> addr \<Rightarrow> addr" where
  "seg_top [] hole = hole"
| "seg_top (FL c a s # k) hole = seg_top k a"
| "seg_top (FR s c a # k) hole = seg_top k a"

fun seg_at :: "(addr \<rightharpoonup> rb_node) \<Rightarrow> addr \<Rightarrow> frame list \<Rightarrow> addr \<Rightarrow> bool" where
  "seg_at h hole [] par \<longleftrightarrow> True"
| "seg_at h hole (FL c a s # k) par \<longleftrightarrow>
     node_addr a \<and>
     h a = Some \<lparr>rb_parent_color = mk_pc (seg_parent k par) c, rb_right = root_of s, rb_left = hole\<rparr> \<and>
     tree_at h a s \<and> seg_at h a k par"
| "seg_at h hole (FR s c a # k) par \<longleftrightarrow>
     node_addr a \<and>
     h a = Some \<lparr>rb_parent_color = mk_pc (seg_parent k par) c, rb_right = hole, rb_left = root_of s\<rparr> \<and>
     tree_at h a s \<and> seg_at h a k par"

lemma seg_at_frame [simp]: "a \<notin> ctx_set k \<Longrightarrow> seg_at (h(a := v)) hole k par = seg_at h hole k par"
  by (induction h hole k par rule: seg_at.induct) auto

lemma seg_at_relink [simp]:
  "ctx_set k \<inter> ctx_set k' = {} \<Longrightarrow> seg_at (rb_nodes (relink k v m)) hole k' par = seg_at (rb_nodes m) hole k' par"
  "ctx_set k' \<inter> ctx_set k = {} \<Longrightarrow> seg_at (rb_nodes (relink k v m)) hole k' par = seg_at (rb_nodes m) hole k' par"
  by (cases k rule: parent_of.cases; auto)+

lemma tree_at_plug_seg:
  "tree_at h par (plug k t) \<longleftrightarrow> seg_at h (root_of t) k par \<and> tree_at h (seg_parent k par) t"
  by (induction k t rule: plug.induct) auto

lemma root_of_plug: "root_of (plug k t) = seg_top k (root_of t)"
  by (induction k t rule: plug.induct) auto

lemma plug_eq_Tip [simp]: "plug k t = Tip \<longleftrightarrow> k = [] \<and> t = Tip"
  by (induction k t rule: plug.induct) auto

lemma succ_loop_left:
  "\<lbrakk>tree_at (rb_nodes m) par (plug k (Nd Tip c s r)); all_left k\<rbrakk> \<Longrightarrow>
   rb_succ_loop m q (root_of (plug k (Nd Tip c s r))) = Some (seg_parent k q, s)"
proof (induction k arbitrary: par q rule: rev_induct)
  case Nil
  then show ?case by (subst rb_succ_loop.simps) (simp add: mem_simps)
next
  case (snoc fr k)
  then obtain fc a fs where fr: "fr = FL fc a fs" by (cases fr) auto
  then have "root_of (plug k (Nd Tip c s r)) \<noteq> NULL"
    using snoc.prems fr by (auto simp: plug_append)
  moreover have "seg_parent (k @ [fr]) q = seg_parent k a" using fr by (cases k rule: parent_of.cases) auto
  ultimately show ?case
    using snoc.IH [of a a] snoc.prems fr by (subst rb_succ_loop.simps) (simp add: plug_append mem_simps)
qed

section \<open>Unlinking in memory\<close>

text \<open>Callbacks that only write augmented data.\<close>

definition aug_callbacks ::
  "('u rb_mem \<Rightarrow> addr \<Rightarrow> addr \<Rightarrow> 'u) \<Rightarrow> ('u rb_mem \<Rightarrow> addr \<Rightarrow> addr \<Rightarrow> 'u) \<Rightarrow> ('u rb_mem \<Rightarrow> addr \<Rightarrow> addr \<Rightarrow> 'u) \<Rightarrow>
   'u rb_augment_callbacks" where
  "aug_callbacks fp fc fr = \<lparr>aug_propagate = aug_rot fp, aug_copy = aug_rot fc, aug_rotate = aug_rot fr\<rparr>"

lemma core_no_left:
  assumes "rb_repr m (plug k (Nd Tip c n r))"
  shows "\<exists>m'. rb_erase_augmented_core (aug_callbacks fp fc fr) m n =
      Some (m', if r = Tip \<and> c = BLACK then parent_of k else NULL) \<and>
    rb_becomes (Some m') m (plug k (paint c r))"
  using assms unfolding rb_repr_zip rb_becomes_def
  by - (cases r; simp add: zip_simps; (simp add: Int_commute)?; (elim conjE)?;
      simp add: rb_erase_augmented_core_def aug_callbacks_def rot_simps)

lemma core_no_right:
  assumes "rb_repr m (plug k (Nd (Nd x lc y z) c n Tip))"
  shows "\<exists>m'. rb_erase_augmented_core (aug_callbacks fp fc fr) m n = Some (m', NULL) \<and>
    rb_becomes (Some m') m (plug k (Nd x c y z))"
  using assms unfolding rb_repr_zip rb_becomes_def
  by - (simp add: zip_simps; (simp add: Int_commute)?; (elim conjE)?;
      simp add: rb_erase_augmented_core_def aug_callbacks_def rot_simps)

lemma core_two_near:
  assumes "rb_repr m (plug k (Nd (Nd x lc y z) c n (Nd Tip sc s r)))"
  shows "\<exists>m'. rb_erase_augmented_core (aug_callbacks fp fc fr) m n =
      Some (m', if r = Tip \<and> sc = BLACK then s else NULL) \<and>
    rb_becomes (Some m') m (plug k (Nd (Nd x lc y z) c s (paint BLACK r)))"
  using assms unfolding rb_repr_zip rb_becomes_def
  by - (cases r; simp add: zip_simps; (simp add: Int_commute)?; (elim conjE)?;
      simp add: rb_erase_augmented_core_def rb_erase_augmented_two_def aug_callbacks_def rot_simps)


lemmas spine_simps = tree_at_plug_seg root_of_plug distinct_inord_plug

lemma core_two_child:
  assumes "rb_repr m (plug k (Nd (Nd x lc y z) c n (Nd (Nd Tip sc s r) pc p ps)))"
  shows "\<exists>m'. rb_erase_augmented_core (aug_callbacks fp fc fr) m n =
      Some (m', if r = Tip \<and> sc = BLACK then p else NULL) \<and>
    rb_becomes (Some m') m (plug k (Nd (Nd x lc y z) c s (Nd (paint BLACK r) pc p ps)))"
proof -
  have "rb_succ_loop m p s = Some (p, s)"
    using assms succ_loop_left [of m p "[]" sc s r p] unfolding rb_repr_zip by simp
  with assms show ?thesis unfolding rb_repr_zip rb_becomes_def
    by - (cases r; simp add: zip_simps; (simp add: Int_commute)?; (elim conjE)?;
      simp add: rb_erase_augmented_core_def rb_erase_augmented_two_def aug_callbacks_def rot_simps)
qed

lemma core_two_far:
  assumes "rb_repr m (plug k (Nd (Nd x lc y z) c n (Nd (plug kk (Nd (Nd Tip sc s r) pc p ps)) wc w ws)))"
    and "all_left kk"
  shows "\<exists>m'. rb_erase_augmented_core (aug_callbacks fp fc fr) m n =
      Some (m', if r = Tip \<and> sc = BLACK then p else NULL) \<and>
    rb_becomes (Some m') m (plug k (Nd (Nd x lc y z) c s (Nd (plug kk (Nd (paint BLACK r) pc p ps)) wc w ws)))"
proof -
  have t: "tree_at (rb_nodes m) w (plug kk (Nd (Nd Tip sc s r) pc p ps))"
    using assms unfolding rb_repr_zip by simp
  have "rb_succ_loop m w (seg_top kk p) = Some (p, s)" "seg_top kk p \<noteq> NULL"
    using succ_loop_left [of m w "FL pc p ps # kk" sc s r w] root_of_eq_NULL [OF t] t assms(2)
    by (simp_all add: root_of_plug)
  with assms show ?thesis unfolding rb_repr_zip rb_becomes_def
    by - (cases r; simp add: zip_simps spine_simps; (simp add: Int_commute)?; (elim conjE)?;
      simp add: rb_erase_augmented_core_def rb_erase_augmented_two_def aug_callbacks_def rot_simps)
qed


text \<open>The three shapes of the path to the successor, together.\<close>

lemma core_two:
  assumes "rb_repr m (plug k (Nd (Nd x lc y z) c n (plug kk (Nd Tip sc s r))))" and "all_left kk"
  shows "\<exists>m'. rb_erase_augmented_core (aug_callbacks fp fc fr) m n =
      Some (m', if r = Tip \<and> sc = BLACK then parent_of (kk @ FR (Nd x lc y z) c s # k) else NULL) \<and>
    rb_becomes (Some m') m (plug (kk @ FR (Nd x lc y z) c s # k) (paint BLACK r))"
proof (cases kk)
  case Nil
  with core_two_near [of m k x lc y z c n sc s r fp fc fr] assms show ?thesis by (simp split del: if_split cong: if_cong)
next
  case (Cons f kk1)
  with assms obtain pc p ps where f: "f = FL pc p ps" by (cases f) auto
  show ?thesis
  proof (cases kk1 rule: rev_cases)
    case Nil
    with Cons f core_two_child [of m k x lc y z c n sc s r pc p ps fp fc fr] assms show ?thesis
      by (simp split del: if_split cong: if_cong)
  next
    case (snoc kk2 g)
    with Cons f assms obtain wc w ws where g: "g = FL wc w ws" by (cases g) auto
    show ?thesis
      using Cons f snoc g core_two_far [of m k x lc y z c n kk2 sc s r pc p ps wc w ws fp fc fr] assms
      by (simp add: plug_append split del: if_split cong: if_cong)
  qed
qed

section \<open>Unlinking keeps the invariant, up to one black level\<close>

lemma top_black_rename: "top_black (kk @ FR l c a # k) = top_black (kk @ FR l c b # k)"
  by (cases kk) auto

lemma ctx_fits_rename: "ctx_fits (kk @ FR l c a # k) h = ctx_fits (kk @ FR l c b # k) h"
  by (induction kk h rule: ctx_fits.induct) (auto simp: top_black_rename [of _ l c a k b])

lemma ctx_fits_append_top: "k \<noteq> [] \<Longrightarrow> top_black (kk @ k) = (if kk = [] then top_black k else top_black kk)"
  by (cases kk) auto

lemma bheight_0: "bheight t = 0 \<Longrightarrow> color_of t = BLACK \<Longrightarrow> t = Tip"
  by (cases t) auto

text \<open>The node to unlink has at most one child; \<open>u\<close> is the tree left in its place.\<close>

lemma unlink_inv:
  assumes "ctx_fits k (bheight t)" and "no_red_red t" and "bal t" and "color_of t = RED \<longrightarrow> top_black k"
    and "t = Nd Tip c s r \<or> t = Nd r c s Tip"
  shows "if r = Tip \<and> c = BLACK then ctx_fits k (Suc 0) else rb_inv (plug k (paint BLACK r))"
    and "paint c r = paint BLACK r"
  using assms by (cases r; cases c; auto simp: rb_inv_plug bheight_0 split: if_splits)+

lemma in_tree_split: "n \<in> set (inord t) \<Longrightarrow> \<exists>k l c r. t = plug k (Nd l c n r)"
proof (induction t)
  case (Nd l c a r)
  consider "n = a" | "n \<in> set (inord l)" | "n \<in> set (inord r)" using Nd.prems by auto
  then show ?case
  proof cases
    case 1
    then show ?thesis by (intro exI [of _ "[]"]) auto
  next
    case 2
    with Nd.IH(1) obtain k l' c' r' where "l = plug k (Nd l' c' n r')" by blast
    then show ?thesis by (intro exI [of _ "k @ [FL c a r]"]) (auto simp: plug_append)
  next
    case 3
    with Nd.IH(2) obtain k l' c' r' where "r = plug k (Nd l' c' n r')" by blast
    then show ?thesis by (intro exI [of _ "k @ [FR l c a]"]) (auto simp: plug_append)
  qed
qed simp

text \<open>What \<^verbatim>\<open>__rb_erase_augmented\<close> leaves: a valid tree, or a hole that is one black level short.\<close>

definition unlinked :: "('u \<Rightarrow> rtree \<Rightarrow> bool) \<Rightarrow> 'u rb_mem \<Rightarrow> ('u rb_mem \<times> addr) option \<Rightarrow> addr list \<Rightarrow> bool" where
  "unlinked G m x ns \<longleftrightarrow> (\<exists>m' reb k u. x = Some (m', reb) \<and> rb_keeps G (Some m') m (plug k u) \<and> inord (plug k u) = ns \<and>
     (rb_inv (plug k u) \<and> reb = NULL \<or> k \<noteq> [] \<and> u = Tip \<and> ctx_fits k (Suc 0) \<and> reb = parent_of k))"

lemma unlinkedI:
  assumes "\<exists>m'. x = Some (m', if r = Tip \<and> c = BLACK then parent_of k else NULL) \<and>
      rb_keeps G (Some m') m (plug k (paint BLACK r))"
    and "if r = Tip \<and> c = BLACK then ctx_fits k (Suc 0) else rb_inv (plug k (paint BLACK r))"
    and "inord (plug k r) = ns"
  shows "unlinked G m x ns"
proof -
  obtain m' where m': "x = Some (m', if r = Tip \<and> c = BLACK then parent_of k else NULL)"
    "rb_keeps G (Some m') m (plug k (paint BLACK r))" using assms(1) by blast
  have "inord (plug k (paint BLACK r)) = ns" using assms(3) by (simp add: inord_plug)
  with m' assms(2) show ?thesis unfolding unlinked_def
    by (intro exI [of _ m'] exI [of _ "if r = Tip \<and> c = BLACK then parent_of k else NULL"]
        exI [of _ k] exI [of _ "paint BLACK r"]) (cases k, auto simp: rb_inv_def split: if_splits)
qed

lemma ctx_append: "ctx_left (k @ k') = ctx_left k' @ ctx_left k" "ctx_right (k @ k') = ctx_right k @ ctx_right k'"
  by (induction k rule: ctx_left.induct) auto

lemma ctx_left_all_left: "all_left k \<Longrightarrow> ctx_left k = []"
  by (induction k rule: all_left.induct) auto

lemma inord_erased:
  "distinct (inord (plug k (Nd l c n r))) \<Longrightarrow>
   remove1 n (inord (plug k (Nd l c n r))) = ctx_left k @ inord l @ inord r @ ctx_right k"
  by (auto simp: inord_plug remove1_append)

section \<open>Erasure, with a property of the augmented data\<close>

locale rb_erasure = rb_rebalance +
  fixes cb :: "'a rb_augment_callbacks"
  assumes rotates: "aug_rotate cb = rot"
    and no_left: "rb_state G m (plug k (Nd Tip c n r)) \<Longrightarrow>
      \<exists>m'. rb_erase_augmented_core cb m n = Some (m', if r = Tip \<and> c = BLACK then parent_of k else NULL) \<and>
        rb_keeps G (Some m') m (plug k (paint c r))"
    and no_right: "rb_state G m (plug k (Nd (Nd x lc y z) c n Tip)) \<Longrightarrow>
      \<exists>m'. rb_erase_augmented_core cb m n = Some (m', NULL) \<and> rb_keeps G (Some m') m (plug k (Nd x c y z))"
    and two: "rb_state G m (plug k (Nd (Nd x lc y z) c n (plug kk (Nd Tip sc s r)))) \<Longrightarrow> all_left kk \<Longrightarrow>
      \<exists>m'. rb_erase_augmented_core cb m n =
          Some (m', if r = Tip \<and> sc = BLACK then parent_of (kk @ FR (Nd x lc y z) c s # k) else NULL) \<and>
        rb_keeps G (Some m') m (plug (kk @ FR (Nd x lc y z) c s # k) (paint BLACK r))"
begin

lemma core_unlinked:
  assumes m: "rb_state G m t" and inv: "rb_inv t" and n: "n \<in> set (inord t)"
  shows "unlinked G m (rb_erase_augmented_core cb m n) (remove1 n (inord t))"
proof -
  obtain k l c r where t: "t = plug k (Nd l c n r)" using in_tree_split [OF n] by blast
  have ns: "remove1 n (inord t) = ctx_left k @ inord l @ inord r @ ctx_right k"
    using m inord_erased unfolding rb_state_def rb_repr_def t by blast
  have fits: "ctx_fits k (bheight (Nd l c n r))" "no_red_red (Nd l c n r)" "bal (Nd l c n r)"
      "color_of (Nd l c n r) = RED \<longrightarrow> top_black k"
    using inv unfolding t rb_inv_plug by blast+
  consider "l = Tip" | x lc y z where "l = Nd x lc y z" "r = Tip" | x lc y z where "l = Nd x lc y z" "r \<noteq> Tip"
    by (cases l; cases r) auto
  then show ?thesis
  proof cases
    case 1
    note u = unlink_inv [OF fits, of c n r]
    show ?thesis using no_left [of m k c n r] m u 1 unfolding t ns [unfolded t]
      by (intro unlinkedI [of _ r c k]) (auto simp: inord_plug)
  next
    case 2
    note u = unlink_inv [OF fits, of c n l]
    show ?thesis using no_right [of m k x lc y z c n] m u 2 unfolding t ns [unfolded t]
      by (intro unlinkedI [of _ l c k]) (auto simp: inord_plug)
  next
    case 3
    then obtain kk sc s q where r: "r = plug kk (Nd Tip sc s q)" "all_left kk" using leftmost_split by blast
    let ?k = "kk @ FR l c s # k"
    have "rb_inv (plug (kk @ FR l c n # k) (Nd Tip sc s q))" using inv by (simp add: t r plug_append)
    then have fits': "ctx_fits ?k (bheight (Nd Tip sc s q))" "no_red_red (Nd Tip sc s q)" "bal (Nd Tip sc s q)"
        "color_of (Nd Tip sc s q) = RED \<longrightarrow> top_black ?k"
      unfolding rb_inv_plug ctx_fits_rename [of kk l c n k _ s] top_black_rename [of kk l c n k s] by blast+
    have "ctx_left ?k @ inord q @ ctx_right ?k = remove1 n (inord t)"
      using r(2) by (simp add: ns r(1) inord_plug ctx_append ctx_left_all_left)
    then show ?thesis
      using two [of m k x lc y z c n kk sc s q] m r 3 unlink_inv(1) [OF fits', of sc s q]
      unfolding t by (intro unlinkedI [of _ q sc ?k]) (auto simp: inord_plug)
  qed
qed


lemma erase_augmented_result:
  assumes "rb_state G m t" and "rb_inv t" and "n \<in> set (inord t)"
  shows "\<exists>m' t'. rb_erase_augmented cb m n = Some m' \<and> rb_state G m' t' \<and> rb_inv t' \<and>
    inord t' = remove1 n (inord t) \<and> (\<forall>a. a \<notin> set (inord t') \<longrightarrow> rb_nodes m' a = rb_nodes m a)"
proof -
  obtain m1 reb k u where core: "rb_erase_augmented_core cb m n = Some (m1, reb)"
      and m1: "rb_keeps G (Some m1) m (plug k u)" and u: "inord (plug k u) = remove1 n (inord t)"
      and reb: "rb_inv (plug k u) \<and> reb = NULL \<or> k \<noteq> [] \<and> u = Tip \<and> ctx_fits k (Suc 0) \<and> reb = parent_of k"
    using core_unlinked [OF assms] unfolding unlinked_def by blast
  have "rb_restores G (rb_erase_augmented cb m n) m (plug k u)"
  proof (cases "reb = NULL")
    case True
    with reb rb_keeps_state [OF m1] have "rb_inv (plug k u)"
      using ctx_at_parent by (auto simp: rb_state_def rb_repr_zip)
    with True core m1 show ?thesis by (auto simp: rb_erase_augmented_def intro: rb_restoresI)
  next
    case False
    with reb have k: "k \<noteq> []" "u = Tip" "ctx_fits k (Suc 0)" "reb = parent_of k" by auto
    have "rb_state G m1 (plug k Tip)" using m1 k(2) by (simp add: rb_keeps_state)
    from erase_loop_restores [OF this k(1), of NULL] k(3)
    have "rb_restores G (rb_erase_loop rot m1 NULL (parent_of k)) m1 (plug k u)" by (simp add: k(2))
    with m1 False core k(4) show ?thesis
      by (auto simp: rb_erase_augmented_def rb_erase_color_def rotates intro: rb_restores_trans)
  qed
  with u show ?thesis unfolding rb_restores_def rb_keeps_def rb_becomes_aug_def rb_state_def by metis
qed

end

interpretation any_aug: rb_erasure "aug_rot fr" "\<lambda>_ _. True" "aug_callbacks fp fc fr" for fp fc fr
  by (unfold_locales, unfold no_property)
    (simp add: aug_callbacks_def, (rule core_no_left core_no_right core_two; assumption)+)

lemma rb_erase_augmented_result:
  assumes "rb_repr m t" and "rb_inv t" and "n \<in> set (inord t)"
  shows "\<exists>m' t'. rb_erase_augmented (aug_callbacks fp fc fr) m n = Some m' \<and> rb_repr m' t' \<and> rb_inv t' \<and>
    inord t' = remove1 n (inord t) \<and> (\<forall>a. a \<notin> set (inord t') \<longrightarrow> rb_nodes m' a = rb_nodes m a)"
  using any_aug.erase_augmented_result [of m t n fp fc fr] assms by (simp add: no_property)

lemma dummy_callbacks_aug: "dummy_callbacks = aug_callbacks (\<lambda>m a b. rb_aug m) (\<lambda>m a b. rb_aug m) (\<lambda>m a b. rb_aug m)"
  by (simp add: dummy_callbacks_def aug_callbacks_def dummy_rotate_aug [symmetric])
    (simp add: fun_eq_iff dummy_propagate_def dummy_copy_def dummy_rotate_def)

lemma rb_erase_augmented_dummy: "rb_erase m n = rb_erase_augmented dummy_callbacks m n"
  unfolding rb_erase_def rb_erase_augmented_def dummy_callbacks_def rb_augment_callbacks.simps by (rule refl)

lemmas rb_erase_result =
  rb_erase_augmented_result [of _ _ _ "\<lambda>m a b. rb_aug m" "\<lambda>m a b. rb_aug m" "\<lambda>m a b. rb_aug m",
    folded dummy_callbacks_aug rb_erase_augmented_dummy]

end
