(* ===== verification/Ordered_Index.thy ===== *)
theory Ordered_Index
  imports Prelude "HOL-Library.Multiset"
begin

text \<open>
  The interface of an intrusive ordered index, as \<^verbatim>\<open>fault_inject.c\<close> uses the red-black tree: nodes are added
  with a three-way comparison, searched with a comparison against a key, and erased.  \<open>idx m xs\<close> says that
  \<open>m\<close> holds the nodes \<open>xs\<close> in order; \<open>room m n\<close> that the memory of node \<open>n\<close> is owned and not in use.
\<close>

fun place_after :: "('a \<Rightarrow> 'k :: linorder) \<Rightarrow> 'a \<Rightarrow> 'a list \<Rightarrow> 'a list" where
  "place_after key n [] = [n]"
| "place_after key n (x # xs) = (if key x \<le> key n then x # place_after key n xs else n # x # xs)"

lemma place_after_split:
  "place_after key n xs = takeWhile (\<lambda>a. key a \<le> key n) xs @ n # dropWhile (\<lambda>a. key a \<le> key n) xs"
  by (induction xs) auto

lemma set_place_after [simp]: "set (place_after key n xs) = insert n (set xs)"
  by (induction xs) auto

lemma mset_place_after [simp]: "mset (place_after key n xs) = add_mset n (mset xs)"
  by (induction xs) auto

lemma filter_place_after:
  "sorted (map key xs) \<Longrightarrow>
   filter (\<lambda>a. key k = key a) (place_after key n xs) = filter (\<lambda>a. key k = key a) (xs @ [n])"
proof (induction xs)
  case (Cons x xs)
  have "filter (\<lambda>a. key k = key a) xs = []" if "key k = key n" "\<not> key x \<le> key n"
    using that Cons.prems by (auto simp: filter_empty_conv)
  with Cons show ?case by auto
qed simp

lemma sorted_place_after: "sorted (map key xs) \<Longrightarrow> sorted (map key (place_after key n xs))"
  by (induction xs) auto

lemma find_place_after:
  "(\<And>a. a \<in> set xs \<Longrightarrow> key a \<noteq> key n) \<Longrightarrow>
   find (\<lambda>a. key a = k) (place_after key n xs) = (if k = key n then Some n else find (\<lambda>a. key a = k) xs)"
  by (induction xs) auto

lemma sort_place_after:
  assumes "sorted (map key xs)"
  shows "sort_key key (place_after key n xs @ ns) = sort_key key (xs @ n # ns)"
proof (rule properties_for_sort_key [symmetric])
  fix k
  have stable: "filter (\<lambda>x. key k = key x) (sort_key key zs) = filter (\<lambda>x. key k = key x) zs" for zs
    using sort_key_stable [of key "key k" zs] by (simp add: eq_commute)
  show "filter (\<lambda>x. key k = key x) (sort_key key (place_after key n xs @ ns)) =
      filter (\<lambda>x. key k = key x) (xs @ n # ns)"
    unfolding stable using filter_place_after [OF assms, of k n] by simp
qed simp_all

text \<open>The nodes are added one after the other.\<close>

fun index_add_all :: "('m \<Rightarrow> addr \<Rightarrow> 'm option) \<Rightarrow> 'm \<Rightarrow> addr list \<Rightarrow> 'm option" where
  "index_add_all add m [] = Some m"
| "index_add_all add m (n # ns) = do { m \<leftarrow> add m n; index_add_all add m ns }"

locale ordered_index =
  fixes idx :: "'m \<Rightarrow> addr list \<Rightarrow> bool"
    and room :: "'m \<Rightarrow> addr \<Rightarrow> bool"
    and add :: "(addr \<Rightarrow> addr \<Rightarrow> int) \<Rightarrow> 'm \<Rightarrow> addr \<Rightarrow> 'm option"
    and search :: "(addr \<Rightarrow> int) \<Rightarrow> 'm \<Rightarrow> addr option"
    and erase :: "'m \<Rightarrow> addr \<Rightarrow> 'm option"
  assumes add_law:
    "\<And>m xs n cmp (key :: addr \<Rightarrow> 'k :: linorder).
     \<lbrakk>idx m xs; room m n; n \<notin> set xs; sorted (map key xs); \<And>a. a \<in> set xs \<Longrightarrow> cmp n a < 0 \<longleftrightarrow> key n < key a\<rbrakk> \<Longrightarrow>
     \<exists>m'. add cmp m n = Some m' \<and> idx m' (place_after key n xs) \<and> (\<forall>a. a \<noteq> n \<longrightarrow> a \<notin> set xs \<longrightarrow> room m a \<longrightarrow> room m' a)"
    and search_law:
    "\<And>m xs cmpk (key :: addr \<Rightarrow> 'k) k.
     \<lbrakk>idx m xs; sorted (map key xs); \<And>a. a \<in> set xs \<Longrightarrow> cmpk a < 0 \<longleftrightarrow> k < key a; \<And>a. a \<in> set xs \<Longrightarrow> cmpk a = 0 \<longleftrightarrow> k = key a\<rbrakk> \<Longrightarrow>
     search cmpk m = Some (case find (\<lambda>a. key a = k) xs of None \<Rightarrow> NULL | Some a \<Rightarrow> a)"
    and erase_law:
    "\<And>m xs n. \<lbrakk>idx m xs; n \<in> set xs\<rbrakk> \<Longrightarrow>
     \<exists>m'. erase m n = Some m' \<and> idx m' (remove1 n xs) \<and> room m' n \<and> (\<forall>a. a \<notin> set xs \<longrightarrow> room m a \<longrightarrow> room m' a)"
    and idx_distinct: "\<And>m xs. idx m xs \<Longrightarrow> distinct xs \<and> NULL \<notin> set xs"
begin

text \<open>Building an index by repeated insertion is a stable sort.\<close>

lemma add_all_sorts:
  fixes key :: "addr \<Rightarrow> 'k"
  assumes "idx m xs" and "sorted (map key xs)" and "distinct ns" and "set ns \<inter> set xs = {}"
    and "\<And>n. n \<in> set ns \<Longrightarrow> room m n" and cmp: "\<And>a b. cmp a b < 0 \<longleftrightarrow> key a < key b"
  shows "\<exists>m'. index_add_all (add cmp) m ns = Some m' \<and> idx m' (sort_key key (xs @ ns))"
  using assms(1-5)
proof (induction ns arbitrary: m xs)
  case Nil
  then show ?case by (simp add: sort_key_id_if_sorted)
next
  case (Cons n ns)
  from Cons.prems add_law [of m xs n key cmp] obtain m1 where m1: "add cmp m n = Some m1" "idx m1 (place_after key n xs)"
      "\<And>a. a \<noteq> n \<Longrightarrow> a \<notin> set xs \<Longrightarrow> room m a \<Longrightarrow> room m1 a"
    by (auto simp: cmp)
  have "room m1 a" if "a \<in> set ns" for a
    using that Cons.prems by (intro m1(3)) auto
  then obtain m' where "index_add_all (add cmp) m1 ns = Some m'" "idx m' (sort_key key (place_after key n xs @ ns))"
    using Cons.IH [OF m1(2) sorted_place_after [OF Cons.prems(2)]] Cons.prems by auto
  moreover have "sort_key key (place_after key n xs @ ns) = sort_key key (xs @ n # ns)"
    by (rule sort_place_after [OF Cons.prems(2)])
  ultimately show ?case using m1(1) by auto
qed

text \<open>With distinct keys, the index is a map.\<close>

lemma search_added:
  fixes key :: "addr \<Rightarrow> 'k"
  assumes "idx m xs" and "room m n" and "n \<notin> set xs" and "sorted (map key xs)"
    and new: "\<And>a. a \<in> set xs \<Longrightarrow> key a \<noteq> key n"
    and cmp: "\<And>a b. cmp a b < 0 \<longleftrightarrow> key a < key b"
    and cmpk: "\<And>a. cmpk a < 0 \<longleftrightarrow> k < key a" "\<And>a. cmpk a = 0 \<longleftrightarrow> k = key a"
  shows "\<exists>m'. add cmp m n = Some m' \<and> search cmpk m' = (if k = key n then Some n else search cmpk m)"
proof -
  obtain m' where m': "add cmp m n = Some m'" "idx m' (place_after key n xs)"
    using add_law [of m xs n key cmp] assms(1-4) by (auto simp: cmp)
  have "search cmpk m' = Some (case find (\<lambda>a. key a = k) (place_after key n xs) of None \<Rightarrow> NULL | Some a \<Rightarrow> a)"
    by (rule search_law [OF m'(2) sorted_place_after [OF assms(4)]]) (auto simp: cmpk)
  moreover have "search cmpk m = Some (case find (\<lambda>a. key a = k) xs of None \<Rightarrow> NULL | Some a \<Rightarrow> a)"
    by (rule search_law [OF assms(1,4)]) (auto simp: cmpk)
  ultimately show ?thesis using m'(1) find_place_after [of xs key n k] new by auto
qed

end

end
