(* ===== verification/Rbtree_Walk.thy ===== *)
theory Rbtree_Walk
  imports Rbtree_Erase Ordered_Index
begin

text \<open>
  Navigation, search and replacement: \<^verbatim>\<open>rb_first\<close>, \<^verbatim>\<open>rb_last\<close>, \<^verbatim>\<open>rb_next\<close>, \<^verbatim>\<open>rb_prev\<close>, the postorder walk,
  \<^verbatim>\<open>rb_find_first\<close>, \<^verbatim>\<open>rb_next_match\<close>, \<^verbatim>\<open>rb_replace_node\<close> and the leftmost-cached trees.  The walks are shown
  to follow the in-order and the postorder sequence of the tree in memory.
\<close>

section \<open>Operations\<close>

definition RB_EMPTY_ROOT :: "'u rb_mem \<Rightarrow> bool" where
  "RB_EMPTY_ROOT m \<longleftrightarrow> rb_root_node m = NULL"

definition RB_EMPTY_NODE :: "'u rb_mem \<Rightarrow> addr \<Rightarrow> bool option" where
  "RB_EMPTY_NODE m node = map_option (\<lambda>pc. pc = node) (rb_get_pc m node)"

definition RB_CLEAR_NODE :: "'u rb_mem \<Rightarrow> addr \<Rightarrow> 'u rb_mem option" where
  "RB_CLEAR_NODE m node = rb_set_pc m node node"

partial_function (option) rb_go_left :: "'u rb_mem \<Rightarrow> addr \<Rightarrow> addr option" where
  "rb_go_left m n = do { l \<leftarrow> rb_get_left m n; if l \<noteq> NULL then rb_go_left m l else Some n }"

partial_function (option) rb_go_right :: "'u rb_mem \<Rightarrow> addr \<Rightarrow> addr option" where
  "rb_go_right m n = do { r \<leftarrow> rb_get_right m n; if r \<noteq> NULL then rb_go_right m r else Some n }"

definition rb_first :: "'u rb_mem \<Rightarrow> addr option" where
  "rb_first m = (if rb_root_node m = NULL then Some NULL else rb_go_left m (rb_root_node m))"

definition rb_last :: "'u rb_mem \<Rightarrow> addr option" where
  "rb_last m = (if rb_root_node m = NULL then Some NULL else rb_go_right m (rb_root_node m))"

partial_function (option) rb_next_up :: "'u rb_mem \<Rightarrow> addr \<Rightarrow> addr option" where
  "rb_next_up m node =
     do { parent \<leftarrow> rb_parent m node;
          if parent = NULL then Some NULL
          else do { r \<leftarrow> rb_get_right m parent;
                    if node = r then rb_next_up m parent else Some parent } }"

partial_function (option) rb_prev_up :: "'u rb_mem \<Rightarrow> addr \<Rightarrow> addr option" where
  "rb_prev_up m node =
     do { parent \<leftarrow> rb_parent m node;
          if parent = NULL then Some NULL
          else do { l \<leftarrow> rb_get_left m parent;
                    if node = l then rb_prev_up m parent else Some parent } }"

definition rb_next :: "'u rb_mem \<Rightarrow> addr \<Rightarrow> addr option" where
  "rb_next m node =
     do { e \<leftarrow> RB_EMPTY_NODE m node;
          if e then Some NULL
          else do { r \<leftarrow> rb_get_right m node;
                    if r \<noteq> NULL then rb_go_left m r else rb_next_up m node } }"

definition rb_prev :: "'u rb_mem \<Rightarrow> addr \<Rightarrow> addr option" where
  "rb_prev m node =
     do { e \<leftarrow> RB_EMPTY_NODE m node;
          if e then Some NULL
          else do { l \<leftarrow> rb_get_left m node;
                    if l \<noteq> NULL then rb_go_right m l else rb_prev_up m node } }"

definition rb_copy_node :: "'u rb_mem \<Rightarrow> addr \<Rightarrow> addr \<Rightarrow> 'u rb_mem option" where
  "rb_copy_node m new victim =
     do { v \<leftarrow> load (rb_nodes m) victim;
          h \<leftarrow> store (rb_nodes m) new (\<lambda>_. v);
          Some (m\<lparr>rb_nodes := h\<rparr>) }"

definition rb_replace_node :: "'u rb_mem \<Rightarrow> addr \<Rightarrow> addr \<Rightarrow> 'u rb_mem option" where
  "rb_replace_node m victim new =
     do { parent \<leftarrow> rb_parent m victim;
          m \<leftarrow> rb_copy_node m new victim;
          l \<leftarrow> rb_get_left m victim;
          m \<leftarrow> (if l \<noteq> NULL then rb_set_parent m l new else Some m);
          r \<leftarrow> rb_get_right m victim;
          m \<leftarrow> (if r \<noteq> NULL then rb_set_parent m r new else Some m);
          rb_change_child m victim new parent }"

partial_function (option) rb_left_deepest_node :: "'u rb_mem \<Rightarrow> addr \<Rightarrow> addr option" where
  "rb_left_deepest_node m node =
     do { l \<leftarrow> rb_get_left m node;
          if l \<noteq> NULL then rb_left_deepest_node m l
          else do { r \<leftarrow> rb_get_right m node;
                    if r \<noteq> NULL then rb_left_deepest_node m r else Some node } }"

definition rb_next_postorder :: "'u rb_mem \<Rightarrow> addr \<Rightarrow> addr option" where
  "rb_next_postorder m node =
     (if node = NULL then Some NULL
      else do { parent \<leftarrow> rb_parent m node;
                if parent = NULL then Some parent
                else do { l \<leftarrow> rb_get_left m parent;
                          r \<leftarrow> rb_get_right m parent;
                          if node = l \<and> r \<noteq> NULL then rb_left_deepest_node m r else Some parent } })"

definition rb_first_postorder :: "'u rb_mem \<Rightarrow> addr option" where
  "rb_first_postorder m =
     (if rb_root_node m = NULL then Some NULL else rb_left_deepest_node m (rb_root_node m))"

partial_function (option) rb_find_first_loop ::
  "(addr \<Rightarrow> int) \<Rightarrow> 'u rb_mem \<Rightarrow> addr \<Rightarrow> addr \<Rightarrow> addr option" where
  "rb_find_first_loop cmpk m node match =
     (if node = NULL then Some match
      else let c = cmpk node in
           if c \<le> 0
           then do { l \<leftarrow> rb_get_left m node;
                     rb_find_first_loop cmpk m l (if c = 0 then node else match) }
           else do { r \<leftarrow> rb_get_right m node;
                     rb_find_first_loop cmpk m r match })"

definition rb_find_first :: "(addr \<Rightarrow> int) \<Rightarrow> 'u rb_mem \<Rightarrow> addr option" where
  "rb_find_first cmpk m = rb_find_first_loop cmpk m (rb_root_node m) NULL"

definition rb_next_match :: "(addr \<Rightarrow> int) \<Rightarrow> 'u rb_mem \<Rightarrow> addr \<Rightarrow> addr option" where
  "rb_next_match cmpk m node =
     do { n \<leftarrow> rb_next m node;
          Some (if n \<noteq> NULL \<and> cmpk n \<noteq> 0 then NULL else n) }"

text \<open>Trees with a cached leftmost node.\<close>

record 'u rb_root_cached =
  rbc_root :: "'u rb_mem"
  rbc_leftmost :: addr

definition rb_first_cached :: "'u rb_root_cached \<Rightarrow> addr" where
  "rb_first_cached rc = rbc_leftmost rc"

definition rb_insert_color_cached :: "'u rb_root_cached \<Rightarrow> addr \<Rightarrow> bool \<Rightarrow> 'u rb_root_cached option" where
  "rb_insert_color_cached rc node leftmost =
     map_option (\<lambda>m. \<lparr>rbc_root = m, rbc_leftmost = if leftmost then node else rbc_leftmost rc\<rparr>)
       (rb_insert_color (rbc_root rc) node)"

definition rb_erase_cached :: "'u rb_root_cached \<Rightarrow> addr \<Rightarrow> 'u rb_root_cached option" where
  "rb_erase_cached rc node =
     do { lm \<leftarrow> (if rbc_leftmost rc = node then rb_next (rbc_root rc) node else Some (rbc_leftmost rc));
          m \<leftarrow> rb_erase (rbc_root rc) node;
          Some \<lparr>rbc_root = m, rbc_leftmost = lm\<rparr> }"

definition rb_replace_node_cached :: "'u rb_root_cached \<Rightarrow> addr \<Rightarrow> addr \<Rightarrow> 'u rb_root_cached option" where
  "rb_replace_node_cached rc victim new =
     map_option (\<lambda>m. \<lparr>rbc_root = m, rbc_leftmost = if rbc_leftmost rc = victim then new else rbc_leftmost rc\<rparr>)
       (rb_replace_node (rbc_root rc) victim new)"

definition rb_insert_augmented_cached ::
  "'u rb_augment_callbacks \<Rightarrow> 'u rb_root_cached \<Rightarrow> addr \<Rightarrow> bool \<Rightarrow> 'u rb_root_cached option" where
  "rb_insert_augmented_cached augment rc node newleft =
     map_option (\<lambda>m. \<lparr>rbc_root = m, rbc_leftmost = if newleft then node else rbc_leftmost rc\<rparr>)
       (rb_insert_augmented augment (rbc_root rc) node)"

definition rb_erase_augmented_cached ::
  "'u rb_augment_callbacks \<Rightarrow> 'u rb_root_cached \<Rightarrow> addr \<Rightarrow> 'u rb_root_cached option" where
  "rb_erase_augmented_cached augment rc node =
     do { lm \<leftarrow> (if rbc_leftmost rc = node then rb_next (rbc_root rc) node else Some (rbc_leftmost rc));
          m \<leftarrow> rb_erase_augmented augment (rbc_root rc) node;
          Some \<lparr>rbc_root = m, rbc_leftmost = lm\<rparr> }"

section \<open>In-order walks\<close>

lemma go_left_tree:
  "tree_at (rb_nodes m) par t \<Longrightarrow> t \<noteq> Tip \<Longrightarrow> rb_go_left m (root_of t) = Some (first_of (inord t) NULL)"
proof (induction t arbitrary: par)
  case (Nd l c a r)
  then show ?case
    by (subst rb_go_left.simps, cases l) (auto simp: mem_simps)
qed simp

lemma go_right_tree:
  "tree_at (rb_nodes m) par t \<Longrightarrow> t \<noteq> Tip \<Longrightarrow> rb_go_right m (root_of t) = Some (first_of (rev (inord t)) NULL)"
proof (induction t arbitrary: par)
  case (Nd l c a r)
  then show ?case
    by (subst rb_go_right.simps, cases r) (auto simp: mem_simps)
qed simp

lemma rb_first_inord: "rb_repr m t \<Longrightarrow> rb_first m = Some (first_of (inord t) NULL)"
  using go_left_tree [of m NULL t] by (cases t) (auto simp: rb_first_def rb_repr_def)

lemma rb_last_inord: "rb_repr m t \<Longrightarrow> rb_last m = Some (first_of (rev (inord t)) NULL)"
  using go_right_tree [of m NULL t] by (cases t) (auto simp: rb_last_def rb_repr_def)

lemma next_up_ctx:
  "rb_repr m (plug k (Nd l c n r)) \<Longrightarrow> rb_next_up m n = Some (first_of (ctx_right k) NULL)"
proof (induction k arbitrary: l c n r)
  case Nil
  then show ?case by (subst rb_next_up.simps) (simp add: rb_repr_def mem_simps)
next
  case (Cons fr k)
  show ?case
  proof (cases fr)
    case (FL fc a s)
    have "root_of s \<noteq> n" using Cons.prems FL root_of_inord [of s] by (auto simp: rb_repr_zip)
    with FL Cons.prems show ?thesis
      by (subst rb_next_up.simps) (auto simp: rb_repr_zip mem_simps)
  next
    case (FR s fc a)
    with Cons.prems Cons.IH [of s fc a "Nd l c n r"] show ?thesis
      by (subst rb_next_up.simps) (auto simp: rb_repr_zip mem_simps)
  qed
qed

lemma prev_up_ctx:
  "rb_repr m (plug k (Nd l c n r)) \<Longrightarrow> rb_prev_up m n = Some (first_of (rev (ctx_left k)) NULL)"
proof (induction k arbitrary: l c n r)
  case Nil
  then show ?case by (subst rb_prev_up.simps) (simp add: rb_repr_def mem_simps)
next
  case (Cons fr k)
  show ?case
  proof (cases fr)
    case (FR s fc a)
    have "root_of s \<noteq> n" using Cons.prems FR root_of_inord [of s] by (auto simp: rb_repr_zip)
    with FR Cons.prems show ?thesis
      by (subst rb_prev_up.simps) (auto simp: rb_repr_zip mem_simps)
  next
    case (FL fc a s)
    with Cons.prems Cons.IH [of "Nd l c n r" fc a s] show ?thesis
      by (subst rb_prev_up.simps) (auto simp: rb_repr_zip mem_simps)
  qed
qed

text \<open>A node of a tree is never marked empty.\<close>

lemma linked_not_empty:
  assumes "rb_repr m (plug k (Nd l c n r))"
  shows "RB_EMPTY_NODE m n = Some False"
proof -
  have n: "node_addr n" "rb_nodes m n = Some \<lparr>rb_parent_color = mk_pc (parent_of k) c, rb_right = root_of r, rb_left = root_of l\<rparr>"
    and k: "aligned (parent_of k)" "n \<notin> ctx_set k"
    using assms by (auto simp: rb_repr_zip)
  have "parent_of k \<noteq> n" using k(2) n(1) parent_of_in_ctx [of k] by (cases "k = []") auto
  moreover have "pc_parent n = n" using n(1) pc_parent_mk [of n RED] by (simp add: mk_pc_RED)
  ultimately have "mk_pc (parent_of k) c \<noteq> n" using pc_parent_mk [OF k(1), of c] by metis
  with n show ?thesis by (simp add: RB_EMPTY_NODE_def mem_simps)
qed

lemma distinct_split_unique:
  assumes "distinct (xs @ n # ys)" and "xs @ n # ys = xs' @ n # ys'"
  shows "xs' = xs \<and> ys' = ys"
proof -
  have "n \<notin> set xs" "n \<notin> set ys" using assms(1) by simp_all
  from append_Cons_eq_iff [OF this, of xs' ys'] assms(2) show ?thesis by blast
qed

lemma node_split:
  assumes "rb_repr m t" and "inord t = xs @ n # ys"
  obtains k l c r where "t = plug k (Nd l c n r)" "xs = ctx_left k @ inord l" "ys = inord r @ ctx_right k"
proof -
  obtain k l c r where t: "t = plug k (Nd l c n r)" using in_tree_split [of n t] assms(2) by auto
  have "distinct (xs @ n # ys)" using assms by (metis rb_repr_def)
  moreover have "xs @ n # ys = (ctx_left k @ inord l) @ n # (inord r @ ctx_right k)"
    using assms(2) by (simp add: t inord_plug)
  ultimately show thesis using distinct_split_unique that [OF t] by metis
qed

lemma rb_next_inord:
  assumes "rb_repr m t" and "inord t = xs @ n # ys"
  shows "rb_next m n = Some (first_of ys NULL)"
proof -
  obtain k l c r where t: "t = plug k (Nd l c n r)" and ys: "ys = inord r @ ctx_right k"
    using node_split [OF assms] by metis
  have n: "rb_get_right m n = Some (root_of r)" and r: "tree_at (rb_nodes m) n r"
    using assms(1) by (auto simp: t rb_repr_zip mem_simps)
  show ?thesis
  proof (cases "r = Tip")
    case True
    with linked_not_empty [OF assms(1) [unfolded t]] next_up_ctx [OF assms(1) [unfolded t]] n ys show ?thesis
      by (simp add: rb_next_def)
  next
    case False
    with linked_not_empty [OF assms(1) [unfolded t]] go_left_tree [OF r False] n r ys show ?thesis
      by (cases r) (auto simp: rb_next_def)
  qed
qed

lemma rb_prev_inord:
  assumes "rb_repr m t" and "inord t = xs @ n # ys"
  shows "rb_prev m n = Some (first_of (rev xs) NULL)"
proof -
  obtain k l c r where t: "t = plug k (Nd l c n r)" and xs: "xs = ctx_left k @ inord l"
    using node_split [OF assms] by metis
  have n: "rb_get_left m n = Some (root_of l)" and l: "tree_at (rb_nodes m) n l"
    using assms(1) by (auto simp: t rb_repr_zip mem_simps)
  show ?thesis
  proof (cases "l = Tip")
    case True
    with linked_not_empty [OF assms(1) [unfolded t]] prev_up_ctx [OF assms(1) [unfolded t]] n xs show ?thesis
      by (simp add: rb_prev_def)
  next
    case False
    with linked_not_empty [OF assms(1) [unfolded t]] go_right_tree [OF l False] n l xs show ?thesis
      by (cases l) (auto simp: rb_prev_def)
  qed
qed

section \<open>Postorder walk\<close>

fun postord :: "rtree \<Rightarrow> addr list" where
  "postord Tip = []"
| "postord (Nd l c a r) = postord l @ postord r @ [a]"

fun ctx_before :: "frame list \<Rightarrow> addr list" where
  "ctx_before [] = []"
| "ctx_before (FL c a s # k) = ctx_before k"
| "ctx_before (FR s c a # k) = ctx_before k @ postord s"

fun ctx_after :: "frame list \<Rightarrow> addr list" where
  "ctx_after [] = []"
| "ctx_after (FL c a s # k) = postord s @ a # ctx_after k"
| "ctx_after (FR s c a # k) = a # ctx_after k"

lemma postord_plug: "postord (plug k t) = ctx_before k @ postord t @ ctx_after k"
  by (induction k t rule: plug.induct) auto

lemma set_postord: "set (postord t) = set (inord t)"
  by (induction t) auto

lemma distinct_postord: "distinct (postord t) = distinct (inord t)"
  by (induction t) (auto simp: set_postord)

lemma left_deepest_tree:
  "tree_at (rb_nodes m) par t \<Longrightarrow> t \<noteq> Tip \<Longrightarrow> rb_left_deepest_node m (root_of t) = Some (first_of (postord t) NULL)"
proof (induction t arbitrary: par)
  case (Nd l c a r)
  then show ?case
    by (subst rb_left_deepest_node.simps, cases l; cases r) (auto simp: mem_simps)
qed simp

lemma rb_first_postorder_walk: "rb_repr m t \<Longrightarrow> rb_first_postorder m = Some (first_of (postord t) NULL)"
  using left_deepest_tree [of m NULL t] by (cases t) (auto simp: rb_first_postorder_def rb_repr_def)

text \<open>The walk reads the node it is at and nodes that come later, so that the nodes already visited may be gone.\<close>

lemma next_postorder_later:
  assumes "rb_repr m (plug k (Nd l c n r))" and agree: "\<forall>a \<in> set (n # ctx_after k). rb_nodes m' a = rb_nodes m a"
  shows "rb_next_postorder m' n = Some (first_of (ctx_after k) NULL)"
proof (cases k rule: ctx_after.cases)
  case 1
  with assms show ?thesis by (simp add: rb_repr_def rb_next_postorder_def mem_simps)
next
  case (2 fc a s k')
  then have "tree_at (rb_nodes m) a s" using assms by (auto simp: rb_repr_zip)
  then have "tree_at (rb_nodes m') a s" by (rule tree_at_cong) (use agree 2 in \<open>simp add: set_postord\<close>)
  with 2 assms left_deepest_tree [of m' a s] show ?thesis
    by (cases s) (auto simp: rb_repr_zip rb_next_postorder_def mem_simps)
next
  case (3 s fc a k')
  then have "root_of s \<noteq> n" using assms root_of_inord [of s] by (auto simp: rb_repr_zip)
  with 3 assms show ?thesis
    by (auto simp: rb_repr_zip rb_next_postorder_def mem_simps)
qed

lemma rb_next_postorder_later:
  assumes "rb_repr m t" and "postord t = xs @ n # ys" and "\<forall>a \<in> set (n # ys). rb_nodes m' a = rb_nodes m a"
  shows "rb_next_postorder m' n = Some (first_of ys NULL)"
proof -
  have "n \<in> set (inord t)" using assms(2) set_postord [of t] by auto
  then obtain k l c r where t: "t = plug k (Nd l c n r)" using in_tree_split by metis
  have "distinct (xs @ n # ys)" using assms by (metis rb_repr_def distinct_postord)
  moreover have "xs @ n # ys = (ctx_before k @ postord l @ postord r) @ n # ctx_after k"
    using assms(2) by (simp add: t postord_plug)
  ultimately have "ys = ctx_after k" using distinct_split_unique by metis
  with next_postorder_later [OF assms(1) [unfolded t]] assms(3) show ?thesis by simp
qed

lemma rb_next_postorder_walk:
  assumes "rb_repr m t" and "postord t = xs @ n # ys"
  shows "rb_next_postorder m n = Some (first_of ys NULL)"
  using rb_next_postorder_later [OF assms] by blast

section \<open>Search\<close>

definition search_sorted :: "(addr \<Rightarrow> int) \<Rightarrow> addr list \<Rightarrow> bool" where
  "search_sorted cmpk xs \<longleftrightarrow> sorted_wrt (\<lambda>a b. (0 < cmpk b \<longrightarrow> 0 < cmpk a) \<and> (cmpk a < 0 \<longrightarrow> cmpk b < 0)) xs"

lemma find_append: "find P (xs @ ys) = (case find P xs of None \<Rightarrow> find P ys | Some x \<Rightarrow> Some x)"
  by (induction xs) auto

definition or_null :: "addr option \<Rightarrow> addr \<Rightarrow> addr" where
  "or_null x d = (case x of None \<Rightarrow> d | Some a \<Rightarrow> a)"

lemma find_first_tree:
  "\<lbrakk>tree_at (rb_nodes m) par t; search_sorted cmpk (inord t)\<rbrakk> \<Longrightarrow>
   rb_find_first_loop cmpk m (root_of t) d = Some (or_null (find (\<lambda>a. cmpk a = 0) (inord t)) d)"
proof (induction t arbitrary: par d)
  case Tip
  show ?case by (subst rb_find_first_loop.simps) (simp add: or_null_def)
next
  case (Nd l c a r)
  have n: "rb_get_left m a = Some (root_of l)" "rb_get_right m a = Some (root_of r)" "a \<noteq> NULL"
    using Nd.prems by (auto simp: mem_simps)
  have sl: "search_sorted cmpk (inord l)" "search_sorted cmpk (inord r)"
    using Nd.prems(2) by (auto simp: search_sorted_def sorted_wrt_append)
  note IH = Nd.IH(1) [OF _ sl(1), of a] Nd.IH(2) [OF _ sl(2), of a]
  consider "cmpk a < 0" | "cmpk a = 0" | "0 < cmpk a" by linarith
  then show ?case
  proof cases
    case 1
    then have "find (\<lambda>a. cmpk a = 0) (inord r) = None"
      using Nd.prems(2) by (force simp: search_sorted_def sorted_wrt_append find_None_iff)
    with 1 n IH(1) Nd.prems show ?thesis
      by (subst rb_find_first_loop.simps) (auto simp: find_append split: option.split)
  next
    case 2
    with n IH(1) Nd.prems show ?thesis
      by (subst rb_find_first_loop.simps) (auto simp: find_append or_null_def split: option.split)
  next
    case 3
    then have "find (\<lambda>a. cmpk a = 0) (inord l) = None"
      using Nd.prems(2) by (force simp: search_sorted_def sorted_wrt_append find_None_iff)
    with 3 n IH(2) Nd.prems show ?thesis
      by (subst rb_find_first_loop.simps) (auto simp: find_append)
  qed
qed

lemma rb_find_first_inord:
  assumes "rb_repr m t" and "search_sorted cmpk (inord t)"
  shows "rb_find_first cmpk m = Some (or_null (find (\<lambda>a. cmpk a = 0) (inord t)) NULL)"
  using assms find_first_tree [of m NULL t cmpk NULL] by (simp add: rb_find_first_def rb_repr_def)

section \<open>Replacement\<close>

lemma rb_replace_plug:
  assumes "rb_repr m (plug k (Nd l c v r))" and "node_addr n" and "rb_nodes m n = Some w"
    and "n \<notin> set (inord (plug k (Nd l c v r)))"
  shows "rb_becomes (rb_replace_node m v n) m (plug k (Nd l c n r))"
  using assms unfolding rb_repr_zip rb_becomes_def
  by - (cases l; cases r; simp add: zip_simps; (simp add: Int_commute)?; (elim conjE)?;
      simp add: rb_replace_node_def rb_copy_node_def rot_simps)


section \<open>Walking the matches\<close>

lemma rb_next_match_inord:
  assumes m: "rb_repr m t" and t: "inord t = xs @ n # ys" and s: "search_sorted cmpk (inord t)" and n: "cmpk n = 0"
  shows "rb_next_match cmpk m n = Some (or_null (find (\<lambda>a. cmpk a = 0) ys) NULL)"
proof (cases ys)
  case Nil
  with rb_next_inord [OF m t] show ?thesis by (simp add: rb_next_match_def or_null_def)
next
  case (Cons y zs)
  have "y \<noteq> NULL" using m t Cons tree_at_nodes [of "rb_nodes m" NULL t y] by (auto simp: rb_repr_def)
  moreover have "find (\<lambda>a. cmpk a = 0) zs = None" if "cmpk y \<noteq> 0"
    using s that n Cons unfolding t search_sorted_def
    by (force simp: sorted_wrt_append find_None_iff)
  ultimately show ?thesis using rb_next_inord [OF m t] Cons
    by (auto simp: rb_next_match_def or_null_def)
qed

section \<open>Cached trees\<close>

definition rbc_repr :: "'u rb_root_cached \<Rightarrow> rtree \<Rightarrow> bool" where
  "rbc_repr rc t \<longleftrightarrow> rb_repr (rbc_root rc) t \<and> rb_inv t \<and> rbc_leftmost rc = first_of (inord t) NULL"

lemma rb_erase_cached_result:
  assumes "rbc_repr rc t" and n: "n \<in> set (inord t)"
  shows "\<exists>rc' t'. rb_erase_cached rc n = Some rc' \<and> rbc_repr rc' t' \<and> inord t' = remove1 n (inord t)"
proof -
  have m: "rb_repr (rbc_root rc) t" "rb_inv t" and lm: "rbc_leftmost rc = first_of (inord t) NULL"
    using assms(1) by (auto simp: rbc_repr_def)
  obtain m' t' where e: "rb_erase (rbc_root rc) n = Some m'" "rb_repr m' t'" "rb_inv t'" "inord t' = remove1 n (inord t)"
    using rb_erase_result [OF m n] by blast
  show ?thesis
  proof (cases "rbc_leftmost rc = n")
    case True
    obtain ys where ys: "inord t = n # ys" using True lm n by (cases "inord t") auto
    with rb_next_inord [OF m(1), of "[]" n ys] e True show ?thesis
      by (auto simp: rb_erase_cached_def rbc_repr_def)
  next
    case False
    obtain y ys where "inord t = y # ys" using n by (cases "inord t") auto
    with False e lm show ?thesis by (auto simp: rb_erase_cached_def rbc_repr_def)
  qed
qed

section \<open>The tree is an ordered index\<close>

definition rb_idx :: "'u rb_mem \<Rightarrow> addr list \<Rightarrow> bool" where
  "rb_idx m xs \<longleftrightarrow> (\<exists>t. rb_repr m t \<and> rb_inv t \<and> inord t = xs)"

definition rb_room :: "'u rb_mem \<Rightarrow> addr \<Rightarrow> bool" where
  "rb_room m n \<longleftrightarrow> node_addr n \<and> rb_nodes m n \<noteq> None"

lemma rb_idx_add:
  fixes key :: "addr \<Rightarrow> 'k :: linorder"
  assumes "rb_idx m xs" and "rb_room m n" and "n \<notin> set xs" and "sorted (map key xs)"
    and "\<And>a. a \<in> set xs \<Longrightarrow> cmp n a < 0 \<longleftrightarrow> key n < key a"
  shows "\<exists>m'. rb_add cmp m n = Some m' \<and> rb_idx m' (place_after key n xs) \<and>
    (\<forall>a. a \<noteq> n \<longrightarrow> a \<notin> set xs \<longrightarrow> rb_room m a \<longrightarrow> rb_room m' a)"
proof -
  obtain t v where t: "rb_repr m t" "rb_inv t" "inord t = xs" and n: "node_addr n" "rb_nodes m n = Some v"
    using assms(1,2) by (auto simp: rb_idx_def rb_room_def)
  obtain m' t' where m': "rb_add cmp m n = Some m'" "rb_repr m' t'" "rb_inv t'" "inord t' = place_after key n xs"
      "\<And>a. a \<notin> set (inord t') \<Longrightarrow> rb_nodes m' a = rb_nodes m a"
    using rb_add_sorted [OF t(1,2) _ n, of cmp key] assms(3-5) t(3) unfolding place_after_split by auto
  then show ?thesis by (auto simp: rb_idx_def rb_room_def)
qed

lemma rb_idx_search:
  fixes key :: "addr \<Rightarrow> 'k :: linorder"
  assumes "rb_idx m xs" and "sorted (map key xs)" and "\<And>a. a \<in> set xs \<Longrightarrow> cmpk a < 0 \<longleftrightarrow> k < key a"
    and "\<And>a. a \<in> set xs \<Longrightarrow> cmpk a = 0 \<longleftrightarrow> k = key a"
  shows "rb_find_first cmpk m = Some (case find (\<lambda>a. key a = k) xs of None \<Rightarrow> NULL | Some a \<Rightarrow> a)"
proof -
  obtain t where t: "rb_repr m t" "inord t = xs" using assms(1) by (auto simp: rb_idx_def)
  have gt: "0 < cmpk a \<longleftrightarrow> key a < k" if "a \<in> set xs" for a
    using assms(3,4) [OF that] by (metis linorder_less_linear order_less_asym)
  have "sorted_wrt (\<lambda>a b. key a \<le> key b) xs" using assms(2) by (simp add: sorted_wrt_map)
  then have "search_sorted cmpk (inord t)" unfolding t(2) search_sorted_def
    by (rule sorted_wrt_mono_rel [rotated]) (auto simp: gt assms(3))
  from rb_find_first_inord [OF t(1) this] have "rb_find_first cmpk m = Some (or_null (find (\<lambda>a. cmpk a = 0) xs) NULL)"
    by (simp add: t(2))
  moreover have "find (\<lambda>a. cmpk a = 0) xs = find (\<lambda>a. key a = k) xs"
    using assms(4) by (intro find_cong) auto
  ultimately show ?thesis by (simp add: or_null_def)
qed

lemma rb_idx_erase:
  assumes "rb_idx m xs" and "n \<in> set xs"
  shows "\<exists>m'. rb_erase m n = Some m' \<and> rb_idx m' (remove1 n xs) \<and> rb_room m' n \<and>
    (\<forall>a. a \<notin> set xs \<longrightarrow> rb_room m a \<longrightarrow> rb_room m' a)"
proof -
  obtain t where t: "rb_repr m t" "rb_inv t" "inord t = xs" using assms(1) by (auto simp: rb_idx_def)
  obtain m' t' where m': "rb_erase m n = Some m'" "rb_repr m' t'" "rb_inv t'" "inord t' = remove1 n xs"
      "\<And>a. a \<notin> set (inord t') \<Longrightarrow> rb_nodes m' a = rb_nodes m a"
    using rb_erase_result [OF t(1,2)] assms(2) t(3) by blast
  have d: "distinct xs" and n: "rb_room m n"
    using t assms(2) tree_at_nodes [of "rb_nodes m" NULL t n] by (auto simp: rb_repr_def rb_room_def)
  then have "n \<notin> set (remove1 n xs)" by simp
  with m' n show ?thesis by (auto simp: rb_idx_def rb_room_def dest: in_set_remove1 [THEN iffD1, rotated] notin_set_remove1)
qed

interpretation rbi: ordered_index rb_idx rb_room rb_add rb_find_first rb_erase
proof unfold_locales
  fix m :: "'u rb_mem" and xs
  assume "rb_idx m xs"
  then show "distinct xs \<and> NULL \<notin> set xs" using tree_at_nodes [of "rb_nodes m" NULL _ NULL]
    by (auto simp: rb_idx_def rb_repr_def)
qed (fact rb_idx_add rb_idx_search rb_idx_erase)+

end
