(* ===== verification/Rbtree_Props.thy ===== *)
theory Rbtree_Props
  imports Rbtree_Walk
begin

text \<open>The properties of the red-black tree, stated over the pointer code, with a small tree as example.\<close>

section \<open>An example\<close>

definition rb_example :: "unit rb_mem" where
  "rb_example = \<lparr>rb_nodes = [8 \<mapsto> \<lparr>rb_parent_color = 1, rb_right = 16, rb_left = 0\<rparr>,
       16 \<mapsto> \<lparr>rb_parent_color = 8, rb_right = 0, rb_left = 0\<rparr>,
       24 \<mapsto> \<lparr>rb_parent_color = 7, rb_right = 5, rb_left = 3\<rparr>,
       32 \<mapsto> \<lparr>rb_parent_color = 7, rb_right = 5, rb_left = 3\<rparr>],
     rb_root_node = 8, rb_aug = ()\<rparr>"

definition rb_example_tree :: rtree where
  "rb_example_tree = Nd Tip BLACK 8 (Nd Tip RED 16 Tip)"

lemma rb_example_repr:
  "rb_repr rb_example rb_example_tree" "rb_inv rb_example_tree" "inord rb_example_tree = [8, 16]"
  by (simp_all add: rb_example_def rb_example_tree_def rb_repr_def rb_inv_def node_addr_def aligned_def mk_pc_def
      RB_BLACK_def RB_RED_def)

lemma rb_example_room: "node_addr 24" "node_addr 32"
  "rb_nodes rb_example 24 = Some \<lparr>rb_parent_color = 7, rb_right = 5, rb_left = 3\<rparr>"
  "rb_nodes rb_example 32 = Some \<lparr>rb_parent_color = 7, rb_right = 5, rb_left = 3\<rparr>"
  by (simp_all add: rb_example_def node_addr_def aligned_def)

lemma rb_example_idx: "rb_idx rb_example [8, 16]" "rb_room rb_example 24" "rb_room rb_example 32"
  using rb_example_repr rb_example_room by (auto simp: rb_idx_def rb_room_def)

section \<open>Height\<close>

fun rb_height :: "rtree \<Rightarrow> nat" where
  "rb_height Tip = 0"
| "rb_height (Nd l c a r) = Suc (max (rb_height l) (rb_height r))"

lemma height_bheight:
  "no_red_red t \<Longrightarrow> bal t \<Longrightarrow> rb_height t \<le> 2 * bheight t + (if color_of t = RED then 1 else 0)"
  by (induction t) (auto split: if_splits)

lemma bheight_size: "bal t \<Longrightarrow> 2 ^ bheight t \<le> length (inord t) + 1"
proof (induction t)
  case (Nd l c a r)
  then have "2 ^ bheight l + 2 ^ bheight r \<le> length (inord l) + length (inord r) + 2" by simp
  moreover have "bheight l = bheight r" using Nd.prems by simp
  ultimately show ?case by (cases c) auto
qed simp

lemma rb_inv_height: "rb_inv t \<Longrightarrow> 2 ^ rb_height t \<le> (length (inord t) + 1)\<^sup>2"
proof -
  assume "rb_inv t"
  then have h: "rb_height t \<le> 2 * bheight t" and b: "2 ^ bheight t \<le> length (inord t) + 1"
    using height_bheight [of t] bheight_size [of t] by (auto simp: rb_inv_def)
  have "(2 :: nat) ^ rb_height t \<le> 2 ^ (2 * bheight t)" using h by (rule power_increasing) simp
  also have "\<dots> = (2 ^ bheight t)\<^sup>2" by (simp add: power_mult mult.commute)
  also have "\<dots> \<le> (length (inord t) + 1)\<^sup>2" using b by (rule power_mono) simp
  finally show ?thesis .
qed

section \<open>Insertion and erasure\<close>

text \<open>
  C1: \<^verbatim>\<open>rb_add\<close> terminates, touches only nodes of the tree, and inserts the node in order: after every node whose
  key is not greater and before the others.  The result is a red-black tree again (black root, no red node
  with a red child, the same number of black nodes on every path).
\<close>

theorem rb_add_correct:
  fixes key :: "addr \<Rightarrow> 'k :: linorder"
  assumes "rb_repr m t" and "rb_inv t" and "n \<notin> set (inord t)" and "node_addr n" and "rb_nodes m n = Some v"
    and "\<And>a. a \<in> set (inord t) \<Longrightarrow> cmp n a < 0 \<longleftrightarrow> key n < key a" and "sorted (map key (inord t))"
  shows "\<exists>m' t'. rb_add cmp m n = Some m' \<and> rb_repr m' t' \<and> rb_inv t' \<and>
    inord t' = takeWhile (\<lambda>a. key a \<le> key n) (inord t) @ n # dropWhile (\<lambda>a. key a \<le> key n) (inord t) \<and>
    (\<forall>a. a \<notin> set (inord t') \<longrightarrow> rb_nodes m' a = rb_nodes m a)"
  using assms by (rule rb_add_sorted)

theorem rb_add_correct_witness:
  "\<exists>m' t'. rb_add (\<lambda>a b. uint a - uint b) rb_example 24 = Some m' \<and> rb_repr m' t' \<and> rb_inv t' \<and> inord t' = [8, 16, 24]"
  using rb_add_correct [of rb_example rb_example_tree 24 _ "\<lambda>a b. uint a - uint b" uint,
      OF rb_example_repr(1,2) _ rb_example_room(1,3)] rb_example_repr(3)
  by fastforce

text \<open>
  C2: \<^verbatim>\<open>rb_erase\<close> terminates and removes exactly the given node from the in-order sequence; the result is a
  red-black tree again, and neither the erased node nor any memory outside the tree is written.
\<close>

theorem rb_erase_correct:
  assumes "rb_repr m t" and "rb_inv t" and "n \<in> set (inord t)"
  shows "\<exists>m' t'. rb_erase m n = Some m' \<and> rb_repr m' t' \<and> rb_inv t' \<and> inord t' = remove1 n (inord t) \<and>
    (\<forall>a. a \<notin> set (inord t') \<longrightarrow> rb_nodes m' a = rb_nodes m a)"
  using assms by (rule rb_erase_result)

theorem rb_erase_correct_witness:
  "\<exists>m' t'. rb_erase rb_example 8 = Some m' \<and> rb_repr m' t' \<and> rb_inv t' \<and> inord t' = [16]"
  using rb_erase_correct [OF rb_example_repr(1,2), of 8] rb_example_repr(3) by fastforce

text \<open>
  The augmented variants do the same work on the tree: for every set of callbacks that only writes the
  augmented data, \<^verbatim>\<open>rb_erase_augmented\<close> removes exactly the node and restores the red-black invariant, and
  \<^verbatim>\<open>rb_insert_augmented\<close> on a freshly linked node keeps the sequence and restores it.
\<close>

lemma rb_augmented_correct:
  assumes "rb_repr m t" and "rb_inv t" and "n \<in> set (inord t)"
    and "rb_repr m1 (plug k (Nd Tip RED n1 Tip))" and "rb_inv (plug k Tip)"
  shows "(\<exists>m' t'. rb_erase_augmented (aug_callbacks fp fc fr) m n = Some m' \<and> rb_repr m' t' \<and> rb_inv t' \<and>
      inord t' = remove1 n (inord t)) \<and>
    (\<exists>m' t'. rb_insert_augmented (aug_callbacks fp fc fr) m1 n1 = Some m' \<and> rb_repr m' t' \<and> rb_inv t' \<and>
      inord t' = inord (plug k (Nd Tip RED n1 Tip)))"
proof
  show "\<exists>m' t'. rb_erase_augmented (aug_callbacks fp fc fr) m n = Some m' \<and> rb_repr m' t' \<and> rb_inv t' \<and>
      inord t' = remove1 n (inord t)"
    using rb_erase_augmented_result [OF assms(1-3)] by blast
  have fits: "ctx_fits k 0" using assms(5) by (simp add: rb_inv_plug)
  have "rb_becomes (rb_insert (aug_rot fr) m1 n1) m1 (ins_fix k (Nd Tip RED n1 Tip))"
    by (rule rb_insert_plug [OF assms(4) ctx_fits_root_black [OF fits]])
  moreover have "rb_inv (ins_fix k (Nd Tip RED n1 Tip))" using fits by (simp add: rb_inv_ins_fix)
  ultimately show "\<exists>m' t'. rb_insert_augmented (aug_callbacks fp fc fr) m1 n1 = Some m' \<and> rb_repr m' t' \<and>
      rb_inv t' \<and> inord t' = inord (plug k (Nd Tip RED n1 Tip))"
    using inord_ins_fix [of k "Nd Tip RED n1 Tip"] unfolding rb_insert_augmented_def aug_callbacks_def rb_becomes_def
    by auto
qed

text \<open>
  C26: Building a tree by \<^verbatim>\<open>rb_add\<close> is a stable sort: adding any batch of free nodes one after the other yields a
  red-black tree whose in-order sequence is the batch sorted by key, nodes with equal keys in the order they
  were added.
\<close>

theorem rb_add_all_sorts:
  fixes key :: "addr \<Rightarrow> 'k :: linorder"
  assumes "rb_idx m xs" and "sorted (map key xs)" and "distinct ns" and "set ns \<inter> set xs = {}"
    and "\<And>n. n \<in> set ns \<Longrightarrow> rb_room m n" and "\<And>a b. cmp a b < 0 \<longleftrightarrow> key a < key b"
  shows "\<exists>m'. index_add_all (rb_add cmp) m ns = Some m' \<and> rb_idx m' (sort_key key (xs @ ns))"
  using assms by (rule rbi.add_all_sorts)

theorem rb_add_all_sorts_witness:
  "\<exists>m'. index_add_all (rb_add (\<lambda>a b. uint a - uint b)) rb_example [32, 24] = Some m' \<and> rb_idx m' [8, 16, 24, 32]"
  using rb_add_all_sorts [of rb_example "[8, 16]" uint "[32, 24]" "\<lambda>a b. uint a - uint b"] rb_example_idx
  by (auto simp: sort_key_def)

text \<open>
  C29: The tree stays shallow: after \<^verbatim>\<open>rb_add\<close> on a tree of \<open>n\<close> nodes, the height \<open>h\<close> of the tree satisfies
  \<open>2 ^ h \<le> (n + 2)\<^sup>2\<close>, so a search or an insertion follows at most \<open>2 log\<^sub>2 (n + 2)\<close> links.
\<close>

theorem rb_add_height:
  assumes "rb_repr m t" and "rb_inv t" and "n \<notin> set (inord t)" and "node_addr n" and "rb_nodes m n = Some v"
  shows "\<exists>m' t'. rb_add cmp m n = Some m' \<and> rb_repr m' t' \<and> 2 ^ rb_height t' \<le> (length (inord t) + 2)\<^sup>2"
proof -
  let ?t = "add_tree (\<lambda>a. cmp n a < 0) n t"
  have len: "length (inord ?t) = Suc (length (inord t))"
    using arg_cong [OF plug_descend [of "\<lambda>a. cmp n a < 0" t "[]"], of "\<lambda>t. length (inord t)"]
    by (simp add: add_tree_def inord_ins_fix inord_plug)
  have "2 ^ rb_height ?t \<le> (length (inord ?t) + 1)\<^sup>2"
    using rb_inv_height [OF rb_inv_add_tree [OF assms(2)]] .
  with rb_add_becomes [OF assms, of cmp] show ?thesis
    by (auto simp: rb_becomes_def len)
qed

theorem rb_add_height_witness:
  "\<exists>m' t'. rb_add (\<lambda>a b. uint a - uint b) rb_example 24 = Some m' \<and> rb_repr m' t' \<and> 2 ^ rb_height t' \<le> (length [8 :: addr, 16] + 2)\<^sup>2"
  using rb_add_height [OF rb_example_repr(1,2) _ rb_example_room(1,3), of "\<lambda>a b. uint a - uint b"]
  unfolding rb_example_repr(3) by simp

section \<open>Search and walks\<close>

text \<open>
  C25: \<^verbatim>\<open>rb_find_first\<close> terminates on every tree and, when the nodes are ordered for the comparison, returns the
  first node in order that compares equal to the key, or \<^verbatim>\<open>NULL\<close> when there is none; \<^verbatim>\<open>rb_next_match\<close> then goes to
  the next node that compares equal.
\<close>

theorem rb_find_first_correct:
  assumes "rb_repr m t" and "search_sorted cmpk (inord t)"
  shows "rb_find_first cmpk m = Some (or_null (find (\<lambda>a. cmpk a = 0) (inord t)) NULL) \<and>
    (\<forall>xs n ys. inord t = xs @ n # ys \<longrightarrow> cmpk n = 0 \<longrightarrow>
       rb_next_match cmpk m n = Some (or_null (find (\<lambda>a. cmpk a = 0) ys) NULL))"
  using rb_find_first_inord [OF assms] rb_next_match_inord [OF assms(1) _ assms(2)] by blast

theorem rb_find_first_witness:
  "rb_find_first (\<lambda>a. 16 - uint a) rb_example = Some 16 \<and> rb_next_match (\<lambda>a. 16 - uint a) rb_example 16 = Some NULL"
proof -
  have "search_sorted (\<lambda>a. 16 - uint a) (inord rb_example_tree)"
    by (simp add: search_sorted_def rb_example_repr(3))
  note found = rb_find_first_correct [OF rb_example_repr(1) this]
  from found [THEN conjunct1] found [THEN conjunct2, rule_format, of "[8]" 16 "[]"] show ?thesis
    by (simp add: or_null_def rb_example_repr(3))
qed

text \<open>
  C28: \<^verbatim>\<open>rb_first\<close>, \<^verbatim>\<open>rb_last\<close>, \<^verbatim>\<open>rb_next\<close> and \<^verbatim>\<open>rb_prev\<close> walk the in-order sequence: first and last node, and from every
  node its successor and predecessor in that sequence, \<^verbatim>\<open>NULL\<close> at the ends.
\<close>

theorem rb_walk_correct:
  assumes "rb_repr m t" and "inord t = xs @ n # ys"
  shows "rb_first m = Some (first_of (xs @ [n]) NULL) \<and> rb_last m = Some (first_of (rev ys @ [n]) NULL) \<and>
    rb_next m n = Some (first_of ys NULL) \<and> rb_prev m n = Some (first_of (rev xs) NULL)"
  using rb_first_inord [OF assms(1)] rb_last_inord [OF assms(1)] rb_next_inord [OF assms] rb_prev_inord [OF assms] assms(2)
  by simp

theorem rb_walk_witness:
  "rb_first rb_example = Some 8 \<and> rb_last rb_example = Some 16 \<and> rb_next rb_example 8 = Some 16 \<and>
   rb_prev rb_example 16 = Some 8 \<and> rb_next rb_example 16 = Some NULL"
  using rb_walk_correct [OF rb_example_repr(1), of "[]" 8 "[16]"] rb_walk_correct [OF rb_example_repr(1), of "[8]" 16 "[]"]
  by (simp add: rb_example_repr(3))

text \<open>
  \<^verbatim>\<open>rb_first_postorder\<close> and \<^verbatim>\<open>rb_next_postorder\<close> visit the nodes in postorder, every node after its children,
  and end with \<^verbatim>\<open>NULL\<close>.
\<close>

lemma rb_postorder_correct:
  assumes "rb_repr m t" and "postord t = xs @ n # ys"
  shows "rb_first_postorder m = Some (first_of (xs @ [n]) NULL) \<and> rb_next_postorder m n = Some (first_of ys NULL)"
  using rb_first_postorder_walk [OF assms(1)] rb_next_postorder_walk [OF assms] assms(2) by simp

section \<open>Replacement and cached trees\<close>

text \<open>
  \<^verbatim>\<open>rb_replace_node\<close> puts the new node in the place of the victim: same position in the sequence, same shape
  and colours, so the tree stays a red-black tree.
\<close>

lemma rb_replace_node_correct:
  assumes "rb_repr m t" and "rb_inv t" and "inord t = xs @ v # ys" and "node_addr n" and "rb_nodes m n = Some w"
    and "n \<notin> set (inord t)"
  shows "\<exists>m' t'. rb_replace_node m v n = Some m' \<and> rb_repr m' t' \<and> rb_inv t' \<and> inord t' = xs @ n # ys"
proof -
  obtain k l c r where t: "t = plug k (Nd l c v r)" "xs = ctx_left k @ inord l" "ys = inord r @ ctx_right k"
    using node_split [OF assms(1,3)] by metis
  have "rb_becomes (rb_replace_node m v n) m (plug k (Nd l c n r))"
    using rb_replace_plug [of m k l c v r n w] assms t(1) by simp
  moreover have "rb_inv (plug k (Nd l c n r))" using assms(2) t(1) by (auto simp: rb_inv_plug)
  moreover have "inord (plug k (Nd l c n r)) = xs @ n # ys" by (simp add: inord_plug t(2,3))
  ultimately show ?thesis by (auto simp: rb_becomes_def)
qed

text \<open>
  \<^verbatim>\<open>rb_erase_cached\<close> keeps the cached pointer right: after the erasure \<^verbatim>\<open>rb_leftmost\<close> is again the first node of
  the tree (\<^verbatim>\<open>NULL\<close> for an empty one), and the tree is a red-black tree without the node.
\<close>

lemma rb_erase_cached_correct:
  assumes "rbc_repr rc t" and "n \<in> set (inord t)"
  shows "\<exists>rc' t'. rb_erase_cached rc n = Some rc' \<and> rbc_repr rc' t' \<and> inord t' = remove1 n (inord t) \<and>
    rb_first_cached rc' = first_of (remove1 n (inord t)) NULL"
proof -
  obtain rc' t' where "rb_erase_cached rc n = Some rc'" "rbc_repr rc' t'" "inord t' = remove1 n (inord t)"
    using rb_erase_cached_result [OF assms] by blast
  then show ?thesis by (intro exI [of _ rc'] exI [of _ t']) (simp add: rb_first_cached_def rbc_repr_def)
qed

end
