(* ===== verification/Rbtree_Iterate.thy ===== *)
theory Rbtree_Iterate
  imports List_Iterate Rbtree_Props
begin

text \<open>
  The iteration macro \<^verbatim>\<open>rbtree_postorder_for_each_entry_safe\<close> of \<^verbatim>\<open>include/rbtree.h\<close>, with the loop and the interface of the
  iteration macros of the lists, and its use: freeing a whole tree.
\<close>

definition rb_entry_safe :: "addr \<Rightarrow> addr \<Rightarrow> addr" where
  "rb_entry_safe off ptr = (if ptr \<noteq> NULL then container_of off ptr else NULL)"

definition rb_entry_first :: "addr \<Rightarrow> 'u rb_mem \<Rightarrow> addr option" where
  "rb_entry_first off m = map_option (rb_entry_safe off) (rb_first_postorder m)"

definition rb_entry_next :: "addr \<Rightarrow> 'u rb_mem \<Rightarrow> addr \<Rightarrow> addr option" where
  "rb_entry_next off m pos = map_option (rb_entry_safe off) (rb_next_postorder m (member_of off pos))"

definition rbtree_postorder_for_each_entry_safe ::
  "addr \<Rightarrow> (addr \<Rightarrow> 'u rb_mem \<Rightarrow> 'x \<Rightarrow> (bool \<times> 'u rb_mem \<times> 'x) option) \<Rightarrow> 'u rb_mem \<Rightarrow> 'x \<Rightarrow> (addr \<times> 'u rb_mem \<times> 'x) option" where
  "rbtree_postorder_for_each_entry_safe off body m x =
     do { pos \<leftarrow> rb_entry_first off m; for_loop_safe not_null (rb_entry_next off) body pos m x }"

section \<open>The postorder as a sequence\<close>

definition post_walk :: "'u rb_mem \<Rightarrow> addr \<Rightarrow> addr list \<Rightarrow> bool" where
  "post_walk m p ys \<longleftrightarrow> p = first_of ys NULL \<and>
     (\<exists>(m0 :: 'u rb_mem) t xs. rb_repr m0 t \<and> postord t = xs @ ys \<and> (\<forall>a \<in> set ys. rb_nodes m a = rb_nodes m0 a))"

lemma entries_inject: "entries off xs = entries off ys \<Longrightarrow> xs = ys"
  unfolding entries_def by (rule map_injective) (auto simp: inj_def container_of_def)

lemma post_walk_node: "rb_repr m t \<Longrightarrow> postord t = xs @ y # ys \<Longrightarrow> y \<noteq> NULL"
  by (metis in_set_conv_decomp node_addr_simps(1) rb_repr_def set_postord tree_at_nodes)

lemma post_walk_later: "post_walk m p ys \<Longrightarrow> \<forall>a \<in> set ys. rb_nodes m' a = rb_nodes m a \<Longrightarrow> post_walk m' p ys" for m m' :: "'u rb_mem"
  unfolding post_walk_def by fastforce

interpretation post_iter: iteration not_null rb_next_postorder post_walk
proof
  show "not_null m p = Some False" if "post_walk m p []" for m :: "'u rb_mem" and p
    using that by (simp add: post_walk_def not_null_def)
next
  fix m :: "'u rb_mem" and p y ys
  assume "post_walk m p (y # ys)"
  then obtain m0 :: "'u rb_mem" and t xs where p: "p = y" and w: "rb_repr m0 t" "postord t = xs @ y # ys" "\<forall>a \<in> set (y # ys). rb_nodes m a = rb_nodes m0 a"
    unfolding post_walk_def by auto
  have "post_walk m (first_of ys NULL) ys"
    unfolding post_walk_def using w by (intro conjI exI [of _ m0] exI [of _ t] exI [of _ "xs @ [y]"]) auto
  then show "p = y \<and> not_null m y = Some True \<and> (\<exists>q. rb_next_postorder m y = Some q \<and> post_walk m q ys)"
    using rb_next_postorder_later [OF w] post_walk_node [OF w(1,2)] p by (simp add: not_null_def)
qed

interpretation post_entries: entry_iteration rb_next_postorder post_walk off "rb_entry_next off" for off
  by unfold_locales (auto simp: post_walk_def rb_entry_next_def rb_entry_safe_def map_option_case split: Option.bind_split option.splits)

lemma post_walk_repr:
  assumes "rb_repr m t" and "off \<notin> set (inord t)"
  shows "on_entries off post_walk m (first_of (entries off (postord t)) NULL) (entries off (postord t))"
proof -
  have "post_walk m (first_of (postord t) NULL) (postord t)" using assms(1) unfolding post_walk_def by fastforce
  then show ?thesis using on_entriesI [of post_walk m "postord t" off] assms(2) by (simp add: set_postord)
qed

lemma rb_entry_first_repr:
  assumes "rb_repr m t" and "off \<notin> set (inord t)"
  shows "rb_entry_first off m = Some (first_of (entries off (postord t)) NULL)"
  using rb_first_postorder_walk [OF assms(1)] post_walk_node [OF assms(1), of "[]"] assms(2)
  by (cases "postord t") (auto simp: rb_entry_first_def rb_entry_safe_def)

section \<open>Freeing a tree\<close>

text \<open>The body frees the struct it is at, and notes it.\<close>

definition free_entry :: "addr \<Rightarrow> addr \<Rightarrow> 'u rb_mem \<Rightarrow> addr list \<Rightarrow> (bool \<times> 'u rb_mem \<times> addr list) option" where
  "free_entry off entry m seen =
     do { h \<leftarrow> release (rb_nodes m) (member_of off entry); Some (False, m\<lparr>rb_nodes := h\<rparr>, seen @ [entry]) }"

definition freed_up_to :: "addr \<Rightarrow> 'u rb_mem \<Rightarrow> addr list \<Rightarrow> addr list \<Rightarrow> 'u rb_mem \<Rightarrow> addr list \<Rightarrow> bool" where
  "freed_up_to off m0 ps es m seen \<longleftrightarrow>
     (\<exists>xs ys. ps = xs @ ys \<and> es = entries off ys \<and> seen = entries off xs \<and> m = m0\<lparr>rb_nodes := rb_nodes m0 |` (- set xs)\<rparr>)"

lemma free_entry_step:
  assumes "freed_up_to off m0 ps (e # es) m seen" and "distinct ps" and "\<forall>a \<in> set ps. a \<noteq> NULL \<and> rb_nodes m0 a \<noteq> None"
  shows "\<exists>m'. free_entry off e m seen = Some (False, m', seen @ [e]) \<and> freed_up_to off m0 ps es m' (seen @ [e]) \<and>
    (\<forall>a. a \<noteq> member_of off e \<longrightarrow> rb_nodes m' a = rb_nodes m a)"
proof -
  from assms(1) obtain xs ys where ps: "ps = xs @ member_of off e # ys" and e: "es = entries off ys" "seen = entries off xs"
    and m: "m = m0\<lparr>rb_nodes := rb_nodes m0 |` (- set xs)\<rparr>"
    unfolding freed_up_to_def by (auto simp: entries_Cons)
  let ?m = "m0\<lparr>rb_nodes := rb_nodes m0 |` (- set (xs @ [member_of off e]))\<rparr>"
  obtain v where "rb_nodes m0 (member_of off e) = Some v" "member_of off e \<noteq> NULL" using assms(3) ps by auto
  moreover have nodes: "(rb_nodes m0 |` (- set xs))(member_of off e := None) = rb_nodes m0 |` (- set (xs @ [member_of off e]))"
    by (auto simp: restrict_map_def fun_eq_iff)
  ultimately have "free_entry off e m seen = Some (False, ?m, seen @ [e])"
    using assms(2) ps by (simp add: free_entry_def m release_def nodes)
  moreover have "freed_up_to off m0 ps es ?m (seen @ [e])"
    unfolding freed_up_to_def using ps e by (intro exI [of _ "xs @ [member_of off e]"] exI [of _ ys]) simp
  ultimately show ?thesis using m by (auto simp: restrict_map_def)
qed

text \<open>
  C30: \<^verbatim>\<open>rbtree_postorder_for_each_entry_safe\<close> may free the struct it is at: it visits every struct of the tree once, children before their
  parent, never reads one that has been freed, and ends with exactly the nodes of the tree gone from memory.
\<close>

theorem rbtree_postorder_free_all:
  assumes "rb_repr m t" and "off \<notin> set (inord t)"
  shows "rbtree_postorder_for_each_entry_safe off (free_entry off) m [] =
    Some (NULL, m\<lparr>rb_nodes := rb_nodes m |` (- set (inord t))\<rparr>, entries off (postord t))"
proof -
  let ?I = "freed_up_to off m (postord t)"
  let ?R = "\<lambda>e m' seen. e = NULL \<and> ?I [] m' seen"
  have ps: "distinct (postord t)" "\<forall>a \<in> set (postord t). a \<noteq> NULL \<and> rb_nodes m a \<noteq> None"
    using assms(1) tree_at_nodes [of "rb_nodes m" NULL t] by (fastforce simp: rb_repr_def distinct_postord set_postord)+
  have "\<exists>e m' seen. for_loop_safe not_null (rb_entry_next off) (free_entry off) (first_of (entries off (postord t)) NULL) m [] =
      Some (e, m', seen) \<and> ?R e m' seen"
  proof (rule post_entries.entry.for_loop_safe_rule [where I = ?I])
    show "on_entries off post_walk m (first_of (entries off (postord t)) NULL) (entries off (postord t))"
      by (rule post_walk_repr [OF assms])
    show "?I (entries off (postord t)) m []" 
      unfolding freed_up_to_def by (rule exI [of _ "[]"], rule exI [of _ "postord t"]) (simp add: restrict_map_def)
  next
    fix e es m1 seen
    assume I: "?I (e # es) m1 seen"
    from free_entry_step [OF I ps] obtain m' where m': "free_entry off e m1 seen = Some (False, m', seen @ [e])" "?I es m' (seen @ [e])"
      "\<forall>a. a \<noteq> member_of off e \<longrightarrow> rb_nodes m' a = rb_nodes m1 a" by blast
    have fresh: "member_of off e \<notin> set ys" if es: "es = entries off ys" for ys
    proof -
      obtain xs zs where "postord t = xs @ member_of off e # zs" "es = entries off zs"
        using I unfolding freed_up_to_def entries_Cons by blast
      moreover from this(2) es have "zs = ys" by (metis entries_inject)
      ultimately show ?thesis using ps(1) by simp
    qed
    have later: "on_entries off post_walk m' q es" if "on_entries off post_walk m1 q es" for q
    proof -
      from that obtain ys where ys: "post_walk m1 (first_of ys NULL) ys" "off \<notin> set ys" "es = entries off ys" "q = first_of es NULL"
        unfolding on_entries_def by blast
      have "post_walk m' (first_of ys NULL) ys" by (rule post_walk_later [OF ys(1)]) (metis m'(3) fresh [OF ys(3)])
      with ys show ?thesis unfolding on_entries_def by blast
    qed
    show "\<exists>brk m' seen'. free_entry off e m1 seen = Some (brk, m', seen') \<and>
        (if brk then ?R e m' seen' else ?I es m' seen' \<and> (\<forall>q. on_entries off post_walk m1 q es \<longrightarrow> on_entries off post_walk m' q es))"
      by (rule exI [of _ False], rule exI [of _ m'], rule exI [of _ "seen @ [e]"]) (use m' later in simp)
  qed (auto simp: on_entries_def)
  then show ?thesis using rb_entry_first_repr [OF assms]
    by (auto simp: rbtree_postorder_for_each_entry_safe_def freed_up_to_def entries_def set_postord)
qed

theorem rbtree_postorder_free_all_witness:
  "\<exists>m. rbtree_postorder_for_each_entry_safe 4 (free_entry 4) rb_example [] = Some (NULL, m, [12, 4]) \<and> rb_nodes m 8 = None \<and> rb_nodes m 16 = None"
proof -
  have "postord rb_example_tree = [16, 8]" by (simp add: rb_example_tree_def)
  then show ?thesis
    using rbtree_postorder_free_all [OF rb_example_repr(1), of 4] rb_example_repr(3) by (simp add: entries_def container_of_def)
qed

end
