(* ===== verification/Rbtree_Augment.thy ===== *)
theory Rbtree_Augment
  imports Rbtree_Props
begin

text \<open>
  The templates \<^verbatim>\<open>RB_DECLARE_CALLBACKS\<close> and \<^verbatim>\<open>RB_DECLARE_CALLBACKS_MAX\<close> of \<^verbatim>\<open>include/rbtree.h\<close>, and trees that use them.

  The augmented field of the struct around a node is a map from the address of the node to a value of a linear order
  (\<^verbatim>\<open>RBTYPE\<close>); \<^verbatim>\<open>RBCOMPUTE\<close> of the second template reads fields of the struct that the tree code never writes, so it is a function
  of the address.  Every access to the field goes through \<open>aug_load\<close> and \<open>aug_store\<close> and needs a node at the address.
\<close>

section \<open>The templates\<close>

definition aug_load :: "(addr \<Rightarrow> 'v) rb_mem \<Rightarrow> addr \<Rightarrow> 'v option" where
  "aug_load m p = map_option (\<lambda>_. rb_aug m p) (load (rb_nodes m) p)"

definition aug_store :: "(addr \<Rightarrow> 'v) rb_mem \<Rightarrow> addr \<Rightarrow> 'v \<Rightarrow> (addr \<Rightarrow> 'v) rb_mem option" where
  "aug_store m p v = map_option (\<lambda>_. m\<lparr>rb_aug := (rb_aug m)(p := v)\<rparr>) (load (rb_nodes m) p)"

text \<open>The generic template; \<open>compute\<close> is \<^verbatim>\<open>RBCOMPUTE(node, exit)\<close>.\<close>

partial_function (option) rbcb_propagate ::
  "((addr \<Rightarrow> 'v) rb_mem \<Rightarrow> addr \<Rightarrow> bool \<Rightarrow> (bool \<times> (addr \<Rightarrow> 'v) rb_mem) option) \<Rightarrow>
   (addr \<Rightarrow> 'v) rb_mem \<Rightarrow> addr \<Rightarrow> addr \<Rightarrow> (addr \<Rightarrow> 'v) rb_mem option" where
  "rbcb_propagate compute m rb stop =
     (if rb = stop then Some m
      else do { (leave, m) \<leftarrow> compute m rb True;
                if leave then Some m
                else do { rb \<leftarrow> rb_parent m rb; rbcb_propagate compute m rb stop } })"

definition rbcb_copy :: "(addr \<Rightarrow> 'v) rb_mem \<Rightarrow> addr \<Rightarrow> addr \<Rightarrow> (addr \<Rightarrow> 'v) rb_mem option" where
  "rbcb_copy m rb_old rb_new = do { v \<leftarrow> aug_load m rb_old; aug_store m rb_new v }"

definition rbcb_rotate ::
  "((addr \<Rightarrow> 'v) rb_mem \<Rightarrow> addr \<Rightarrow> bool \<Rightarrow> (bool \<times> (addr \<Rightarrow> 'v) rb_mem) option) \<Rightarrow>
   (addr \<Rightarrow> 'v) rb_mem \<Rightarrow> addr \<Rightarrow> addr \<Rightarrow> (addr \<Rightarrow> 'v) rb_mem option" where
  "rbcb_rotate compute m rb_old rb_new =
     do { v \<leftarrow> aug_load m rb_old;
          m \<leftarrow> aug_store m rb_new v;
          (_, m) \<leftarrow> compute m rb_old False;
          Some m }"

definition rb_declare_callbacks ::
  "((addr \<Rightarrow> 'v) rb_mem \<Rightarrow> addr \<Rightarrow> bool \<Rightarrow> (bool \<times> (addr \<Rightarrow> 'v) rb_mem) option) \<Rightarrow> (addr \<Rightarrow> 'v) rb_augment_callbacks" where
  "rb_declare_callbacks compute =
     \<lparr>aug_propagate = rbcb_propagate compute, aug_copy = rbcb_copy, aug_rotate = rbcb_rotate compute\<rparr>"

text \<open>The template for the maximum: the generic one with \<open>compute_max\<close>.\<close>

definition compute_max ::
  "(addr \<Rightarrow> 'v :: linorder) \<Rightarrow> (addr \<Rightarrow> 'v) rb_mem \<Rightarrow> addr \<Rightarrow> bool \<Rightarrow> (bool \<times> (addr \<Rightarrow> 'v) rb_mem) option" where
  "compute_max val m node ext =
     do { left \<leftarrow> rb_get_left m node;
          mx \<leftarrow> (if left \<noteq> NULL
                 then do { v \<leftarrow> aug_load m left; Some (if v > val node then v else val node) }
                 else Some (val node));
          right \<leftarrow> rb_get_right m node;
          mx \<leftarrow> (if right \<noteq> NULL
                 then do { v \<leftarrow> aug_load m right; Some (if v > mx then v else mx) }
                 else Some mx);
          old \<leftarrow> aug_load m node;
          if ext \<and> old = mx then Some (True, m)
          else do { m \<leftarrow> aug_store m node mx; Some (False, m) } }"

definition rb_declare_callbacks_max :: "(addr \<Rightarrow> 'v :: linorder) \<Rightarrow> (addr \<Rightarrow> 'v) rb_augment_callbacks" where
  "rb_declare_callbacks_max val = rb_declare_callbacks (compute_max val)"

section \<open>The condition on the stored maxima\<close>

text \<open>What \<open>compute_max\<close> computes from the stored values of the children.\<close>

definition mx :: "(addr \<Rightarrow> 'v :: linorder) \<Rightarrow> addr \<Rightarrow> 'v \<Rightarrow> 'v" where
  "mx u p v = (if p = NULL then v else max (u p) v)"

lemma mx_commute: "mx u p (mx u q v) = mx u q (mx u p v)"
  by (simp add: mx_def max.left_commute)

lemma mx_max: "max v (mx u p w) = mx u p (max v w)" "max (mx u p v) w = mx u p (max v w)"
  by (simp_all add: mx_def ac_simps)

lemma mx_other [simp]: "p \<noteq> a \<Longrightarrow> mx (u(a := w)) p v = mx u p v"
  by (simp add: mx_def)

lemma mx_NULL [simp]: "mx u NULL v = v"
  by (simp add: mx_def)

text \<open>Every node stores the maximum of its own value and of what its children store.\<close>

fun maxed :: "(addr \<Rightarrow> 'v :: linorder) \<Rightarrow> (addr \<Rightarrow> 'v) \<Rightarrow> rtree \<Rightarrow> bool" where
  "maxed val u Tip \<longleftrightarrow> True"
| "maxed val u (Nd l c a r) \<longleftrightarrow>
     u a = mx u (root_of l) (mx u (root_of r) (val a)) \<and> maxed val u l \<and> maxed val u r"

text \<open>The same for a context; \<open>climbs\<close> leaves out the equation of the lowest node.\<close>

fun ctx_maxed :: "(addr \<Rightarrow> 'v :: linorder) \<Rightarrow> (addr \<Rightarrow> 'v) \<Rightarrow> addr \<Rightarrow> frame list \<Rightarrow> bool" where
  "ctx_maxed val u hole [] \<longleftrightarrow> True"
| "ctx_maxed val u hole (FL c a s # k) \<longleftrightarrow>
     u a = mx u hole (mx u (root_of s) (val a)) \<and> maxed val u s \<and> ctx_maxed val u a k"
| "ctx_maxed val u hole (FR s c a # k) \<longleftrightarrow>
     u a = mx u hole (mx u (root_of s) (val a)) \<and> maxed val u s \<and> ctx_maxed val u a k"

fun climbs :: "(addr \<Rightarrow> 'v :: linorder) \<Rightarrow> (addr \<Rightarrow> 'v) \<Rightarrow> frame list \<Rightarrow> bool" where
  "climbs val u [] \<longleftrightarrow> True"
| "climbs val u (FL c a s # k) \<longleftrightarrow> maxed val u s \<and> ctx_maxed val u a k"
| "climbs val u (FR s c a # k) \<longleftrightarrow> maxed val u s \<and> ctx_maxed val u a k"

lemma ctx_maxed_climbs: "ctx_maxed val u hole k \<Longrightarrow> climbs val u k"
  by (cases k rule: parent_of.cases) auto

lemma maxed_plug: "maxed val u (plug k t) \<longleftrightarrow> maxed val u t \<and> ctx_maxed val u (root_of t) k"
  by (induction k t rule: plug.induct) (auto simp: mx_commute)

text \<open>The stored values of other nodes do not matter.\<close>

lemma mx_cong: "(p \<noteq> NULL \<Longrightarrow> u p = u' p) \<Longrightarrow> mx u p v = mx u' p v"
  by (simp add: mx_def)

lemma mx_root_cong: "(\<And>b. b \<in> set (inord t) \<Longrightarrow> u b = u' b) \<Longrightarrow> mx u (root_of t) v = mx u' (root_of t) v"
  by (intro mx_cong) (simp add: root_of_inord)

lemma maxed_cong: "(\<And>b. b \<in> set (inord t) \<Longrightarrow> u b = u' b) \<Longrightarrow> maxed val u t = maxed val u' t"
proof (induction t)
  case (Nd l c a r)
  then show ?case using mx_root_cong [of l u u'] mx_root_cong [of r u u'] by simp
qed simp

lemma ctx_maxed_cong:
  "(\<And>b. b \<in> ctx_set k \<Longrightarrow> u b = u' b) \<Longrightarrow> (hole \<noteq> NULL \<Longrightarrow> u hole = u' hole) \<Longrightarrow> ctx_maxed val u hole k = ctx_maxed val u' hole k"
proof (induction k arbitrary: hole rule: ctx_set.induct)
  case (2 c a s k)
  then show ?case using mx_root_cong [of s u u'] maxed_cong [of s u u'] mx_cong [of hole u u'] by simp
next
  case (3 s c a k)
  then show ?case using mx_root_cong [of s u u'] maxed_cong [of s u u'] mx_cong [of hole u u'] by simp
qed simp

lemma maxed_frame [simp]: "a \<notin> set (inord t) \<Longrightarrow> maxed val (u(a := v)) t = maxed val u t"
  by (rule maxed_cong) auto

lemma ctx_maxed_frame [simp]:
  "a \<notin> ctx_set k \<Longrightarrow> hole \<noteq> a \<Longrightarrow> ctx_maxed val (u(a := v)) hole k = ctx_maxed val u hole k"
  by (rule ctx_maxed_cong) auto

text \<open>Only the value at the hole matters, not the address.\<close>

lemma ctx_maxed_hole: "mx u h = mx u h' \<Longrightarrow> ctx_maxed val u h k = ctx_maxed val u h' k"
  by (cases k rule: parent_of.cases) auto

section \<open>The callbacks on nodes that are there\<close>

definition known :: "(addr \<rightharpoonup> 'n) \<Rightarrow> addr \<Rightarrow> bool" where
  "known h p \<longleftrightarrow> p = NULL \<or> h p \<noteq> None"

lemma known_simps [simp]:
  "known h NULL" "known (h(p \<mapsto> v)) p" "known h p \<Longrightarrow> known (h(a \<mapsto> v)) p" "h p = Some n \<Longrightarrow> known h p"
  by (simp_all add: known_def)

lemma known_tree [simp]: "tree_at h q t \<Longrightarrow> known h (root_of t)"
  by (cases t) (simp_all add: known_def)

lemma known_relink [simp]: "known (rb_nodes m) p \<Longrightarrow> known (rb_nodes (relink k w m)) p"
  by (cases k rule: parent_of.cases) (auto simp: known_def)

lemma compute_max_known:
  assumes "node \<noteq> NULL" and "rb_nodes m node = Some \<lparr>rb_parent_color = pc, rb_right = r, rb_left = l\<rparr>"
    and "known (rb_nodes m) l" and "known (rb_nodes m) r"
  shows "compute_max val m node ext =
    (let w = mx (rb_aug m) r (mx (rb_aug m) l (val node))
     in Some (if ext \<and> rb_aug m node = w then (True, m) else (False, m\<lparr>rb_aug := (rb_aug m)(node := w)\<rparr>)))"
proof -
  have load: "(if p \<noteq> NULL then do { v \<leftarrow> aug_load m p; Some (if v > w then v else w) } else Some w) = Some (mx (rb_aug m) p w)"
    if "known (rb_nodes m) p" for p w
    using that by (auto simp: known_def aug_load_def load_def mx_def max_def)
  have "rb_get_left m node = Some l" "rb_get_right m node = Some r" "aug_load m node = Some (rb_aug m node)"
    using assms(1,2) by (simp_all add: mem_simps aug_load_def)
  then show ?thesis using assms(1,2)
    by (simp add: compute_max_def load [OF assms(3)] load [OF assms(4)] aug_store_def mem_simps Let_def)
qed

definition rot_aug :: "(addr \<Rightarrow> 'v :: linorder) \<Rightarrow> (addr \<Rightarrow> 'v) \<Rightarrow> addr \<Rightarrow> addr \<Rightarrow> addr \<Rightarrow> addr \<Rightarrow> addr \<Rightarrow> 'v" where
  "rot_aug val u old new l r = u(new := u old, old := mx u r (mx u l (val old)))"

lemma rotate_known:
  assumes "old \<noteq> NULL" and "rb_nodes m old = Some \<lparr>rb_parent_color = pc, rb_right = r, rb_left = l\<rparr>"
    and "new \<noteq> NULL" and "rb_nodes m new = Some n" and "l \<noteq> new" and "r \<noteq> new" and "old \<noteq> new"
    and "known (rb_nodes m) l" and "known (rb_nodes m) r"
  shows "rbcb_rotate (compute_max val) m old new = Some (m\<lparr>rb_aug := rot_aug val (rb_aug m) old new l r\<rparr>)"
  using assms compute_max_known [of old "m\<lparr>rb_aug := (rb_aug m)(new := rb_aug m old)\<rparr>" pc r l val False]
  by (simp add: rbcb_rotate_def aug_load_def aug_store_def mem_simps rot_aug_def)

lemma root_of_other: "a \<noteq> NULL \<Longrightarrow> a \<notin> set (inord t) \<Longrightarrow> root_of t \<noteq> a"
  using root_of_inord [of t] by auto

abbreviation max_rotate :: "(addr \<Rightarrow> 'v :: linorder) \<Rightarrow> (addr \<Rightarrow> 'v) rb_rotate" where
  "max_rotate val \<equiv> rbcb_rotate (compute_max val)"

section \<open>Insertion\<close>

lemmas max_simps = mem_simps change_child_relink rotate_known root_of_other

lemma max_rot_left_outer:
  assumes "rb_repr m (plug k (Nd (Nd (Nd a1 RED n a2) RED p s) c g u))"
  shows "rb_becomes_aug (rb_insert_rot_left (max_rotate val) m n p g) m
    (plug k (Nd (Nd a1 RED n a2) c p (Nd (paint BLACK s) RED g u))) (rot_aug val (rb_aug m) g p (root_of s) (root_of u))"
  using assms unfolding rb_repr_zip rb_becomes_aug_def
  by - (cases s; simp add: zip_simps; (simp add: Int_commute)?; (elim conjE)?;
       simp add: rb_insert_rot_left_def max_simps)

lemma max_rot_left_inner:
  assumes "rb_repr m (plug k (Nd (Nd s RED p (Nd a1 RED n a2)) c g u))"
  shows "rb_becomes_aug (rb_insert_rot_left (max_rotate val) m n p g) m
    (plug k (Nd (Nd s RED p (paint BLACK a1)) c n (Nd (paint BLACK a2) RED g u)))
    (rot_aug val (rot_aug val (rb_aug m) p n (root_of s) (root_of a1)) g n (root_of a2) (root_of u))"
  using assms unfolding rb_repr_zip rb_becomes_aug_def
  by - (cases a1; cases a2; simp add: zip_simps; (simp add: Int_commute)?; (elim conjE)?;
       simp add: rb_insert_rot_left_def max_simps)

lemma max_rot_right_outer:
  assumes "rb_repr m (plug k (Nd u c g (Nd s RED p (Nd a1 RED n a2))))"
  shows "rb_becomes_aug (rb_insert_rot_right (max_rotate val) m n p g) m
    (plug k (Nd (Nd u RED g (paint BLACK s)) c p (Nd a1 RED n a2)))
    (rot_aug val (rb_aug m) g p (root_of u) (root_of s))"
  using assms unfolding rb_repr_zip rb_becomes_aug_def
  by - (cases s; simp add: zip_simps; (simp add: Int_commute)?; (elim conjE)?;
       simp add: rb_insert_rot_right_def max_simps)

lemma max_rot_right_inner:
  assumes "rb_repr m (plug k (Nd u c g (Nd (Nd a1 RED n a2) RED p s)))"
  shows "rb_becomes_aug (rb_insert_rot_right (max_rotate val) m n p g) m
    (plug k (Nd (Nd u RED g (paint BLACK a1)) c n (Nd (paint BLACK a2) RED p s)))
    (rot_aug val (rot_aug val (rb_aug m) p n (root_of a2) (root_of s)) g n (root_of u) (root_of a1))"
  using assms unfolding rb_repr_zip rb_becomes_aug_def
  by - (cases a1; cases a2; simp add: zip_simps; (simp add: Int_commute)?; (elim conjE)?;
       simp add: rb_insert_rot_right_def max_simps)

text \<open>A rotation keeps the condition: the new root takes the value of the old one.\<close>

lemma mx_eq: "p \<noteq> NULL \<Longrightarrow> mx u p v = max (u p) v"
  by (simp add: mx_def)

lemma ctx_maxed_root:
  assumes "ctx_maxed val u g k" and "u' p = u g" and "p \<noteq> NULL" "g \<noteq> NULL" and same: "\<And>b. b \<in> ctx_set k \<Longrightarrow> u' b = u b"
  shows "ctx_maxed val u' p k"
proof (cases k rule: parent_of.cases)
  case (2 c a s k')
  then show ?thesis
    using assms mx_root_cong [of s u' u] maxed_cong [of s u' u] ctx_maxed_cong [of k' u' u a] by (simp add: mx_eq)
next
  case (3 s c a k')
  then show ?thesis
    using assms mx_root_cong [of s u' u] maxed_cong [of s u' u] ctx_maxed_cong [of k' u' u a] by (simp add: mx_eq)
qed simp

definition tree_ok :: "rtree \<Rightarrow> bool" where
  "tree_ok t \<longleftrightarrow> distinct (inord t) \<and> NULL \<notin> set (inord t)"

lemma rb_repr_tree_ok: "rb_repr m t \<Longrightarrow> tree_ok t"
  using tree_at_nodes [of "rb_nodes m" NULL t NULL] by (auto simp: rb_repr_def tree_ok_def)

lemma maxed_paint [simp]: "maxed val u (paint c t) = maxed val u t"
  by (cases t) auto

lemma rotate_right_maxed:
  assumes "maxed val u (plug k (Nd (Nd x c1 p y) c2 g z))" and "tree_ok (plug k (Nd (Nd x c1 p y) c2 g z))"
  shows "maxed val (rot_aug val u g p (root_of y) (root_of z)) (plug k (Nd x c3 p (Nd y c4 g z)))"
proof -
  let ?u = "rot_aug val u g p (root_of y) (root_of z)"
  have neq: "p \<noteq> NULL" "g \<noteq> NULL" "p \<noteq> g" and off: "p \<notin> ctx_set k" "g \<notin> ctx_set k" "p \<notin> set (inord x)" "g \<notin> set (inord x)"
      "p \<notin> set (inord y)" "g \<notin> set (inord y)" "p \<notin> set (inord z)" "g \<notin> set (inord z)"
    using assms(2) by (auto simp: tree_ok_def distinct_inord_plug set_inord_plug)
  have other: "root_of x \<noteq> p" "root_of x \<noteq> g" "root_of y \<noteq> p" "root_of y \<noteq> g" "root_of z \<noteq> p" "root_of z \<noteq> g"
    using neq off by (auto simp: root_of_other)
  have parts: "maxed val u x" "maxed val u y" "maxed val u z" "ctx_maxed val u g k"
      "u p = mx u (root_of x) (mx u (root_of y) (val p))" "u g = max (u p) (mx u (root_of z) (val g))"
    using assms(1) neq by (auto simp: maxed_plug mx_eq)
  have "ctx_maxed val ?u p k"
    by (rule ctx_maxed_root [OF parts(4)]) (use neq off in \<open>auto simp: rot_aug_def\<close>)
  moreover have "?u p = mx ?u (root_of x) (mx ?u g (val p))"
    using neq other by (simp add: rot_aug_def mx_eq parts(5,6) mx_max ac_simps mx_commute)
  moreover have "?u g = mx ?u (root_of y) (mx ?u (root_of z) (val g))"
    using neq other by (simp add: rot_aug_def mx_commute)
  ultimately show ?thesis using parts neq off by (simp add: maxed_plug rot_aug_def)
qed

lemma rotate_left_maxed:
  assumes "maxed val u (plug k (Nd x c1 p (Nd y c2 s z)))" and "tree_ok (plug k (Nd x c1 p (Nd y c2 s z)))"
  shows "maxed val (rot_aug val u p s (root_of x) (root_of y)) (plug k (Nd (Nd x c3 p y) c4 s z))"
proof -
  let ?u = "rot_aug val u p s (root_of x) (root_of y)"
  have neq: "p \<noteq> NULL" "s \<noteq> NULL" "p \<noteq> s" and off: "p \<notin> ctx_set k" "s \<notin> ctx_set k" "p \<notin> set (inord x)" "s \<notin> set (inord x)"
      "p \<notin> set (inord y)" "s \<notin> set (inord y)" "p \<notin> set (inord z)" "s \<notin> set (inord z)"
    using assms(2) by (auto simp: tree_ok_def distinct_inord_plug set_inord_plug)
  have other: "root_of x \<noteq> p" "root_of x \<noteq> s" "root_of y \<noteq> p" "root_of y \<noteq> s" "root_of z \<noteq> p" "root_of z \<noteq> s"
    using neq off by (auto simp: root_of_other)
  have parts: "maxed val u x" "maxed val u y" "maxed val u z" "ctx_maxed val u p k"
      "u s = mx u (root_of y) (mx u (root_of z) (val s))" "u p = mx u (root_of x) (max (u s) (val p))"
    using assms(1) neq by (auto simp: maxed_plug mx_eq)
  have "ctx_maxed val ?u s k"
    by (rule ctx_maxed_root [OF parts(4)]) (use neq off in \<open>auto simp: rot_aug_def\<close>)
  moreover have "?u s = mx ?u p (mx ?u (root_of z) (val s))"
    using neq other by (simp add: rot_aug_def mx_eq parts(5,6) mx_max ac_simps mx_commute)
  moreover have "?u p = mx ?u (root_of x) (mx ?u (root_of y) (val p))"
    using neq other by (simp add: rot_aug_def mx_commute)
  ultimately show ?thesis using parts neq off by (simp add: maxed_plug rot_aug_def)
qed

lemma max_left_outer:
  assumes "rb_repr m (plug k (Nd (Nd (Nd a1 RED n a2) RED p s) c g u))" "maxed val (rb_aug m) (plug k (Nd (Nd (Nd a1 RED n a2) RED p s) c g u))"
  shows "rb_keeps (maxed val) (rb_insert_rot_left (max_rotate val) m n p g) m
    (plug k (Nd (Nd a1 RED n a2) c p (Nd (paint BLACK s) RED g u)))"
  using rotate_right_maxed [OF assms(2) rb_repr_tree_ok [OF assms(1)], of c RED] max_rot_left_outer [OF assms(1), of val]
  by (auto simp: maxed_plug intro: rb_keepsI)

lemma max_right_outer:
  assumes "rb_repr m (plug k (Nd u c g (Nd s RED p (Nd a1 RED n a2))))" "maxed val (rb_aug m) (plug k (Nd u c g (Nd s RED p (Nd a1 RED n a2))))"
  shows "rb_keeps (maxed val) (rb_insert_rot_right (max_rotate val) m n p g) m
    (plug k (Nd (Nd u RED g (paint BLACK s)) c p (Nd a1 RED n a2)))"
  using rotate_left_maxed [OF assms(2) rb_repr_tree_ok [OF assms(1)], of RED c] max_rot_right_outer [OF assms(1), of val]
  by (auto simp: maxed_plug intro: rb_keepsI)

lemma max_left_inner:
  assumes "rb_repr m (plug k (Nd (Nd s RED p (Nd a1 RED n a2)) c g u))" "maxed val (rb_aug m) (plug k (Nd (Nd s RED p (Nd a1 RED n a2)) c g u))"
  shows "rb_keeps (maxed val) (rb_insert_rot_left (max_rotate val) m n p g) m
    (plug k (Nd (Nd s RED p (paint BLACK a1)) c n (Nd (paint BLACK a2) RED g u)))"
proof -
  have ok: "tree_ok (plug k (Nd (Nd s RED p (Nd a1 RED n a2)) c g u))" using assms(1) by (rule rb_repr_tree_ok)
  let ?v = "rot_aug val (rb_aug m) p n (root_of s) (root_of a1)"
  have "maxed val ?v (plug (FL c g u # k) (Nd (Nd s RED p a1) RED n a2))"
    by (rule rotate_left_maxed) (use assms(2) ok in simp_all)
  then have "maxed val (rot_aug val ?v g n (root_of a2) (root_of u)) (plug k (Nd (Nd s RED p a1) c n (Nd a2 RED g u)))"
    by (intro rotate_right_maxed [of _ _ _ _ RED _ _ c]) (use ok in \<open>simp_all add: tree_ok_def inord_plug\<close>)
  with max_rot_left_inner [OF assms(1), of val] show ?thesis by (auto simp: maxed_plug intro: rb_keepsI)
qed

lemma max_right_inner:
  assumes "rb_repr m (plug k (Nd u c g (Nd (Nd a1 RED n a2) RED p s)))" "maxed val (rb_aug m) (plug k (Nd u c g (Nd (Nd a1 RED n a2) RED p s)))"
  shows "rb_keeps (maxed val) (rb_insert_rot_right (max_rotate val) m n p g) m
    (plug k (Nd (Nd u RED g (paint BLACK a1)) c n (Nd (paint BLACK a2) RED p s)))"
proof -
  have ok: "tree_ok (plug k (Nd u c g (Nd (Nd a1 RED n a2) RED p s)))" using assms(1) by (rule rb_repr_tree_ok)
  let ?v = "rot_aug val (rb_aug m) p n (root_of a2) (root_of s)"
  have "maxed val ?v (plug (FR u c g # k) (Nd a1 RED n (Nd a2 RED p s)))"
    by (rule rotate_right_maxed) (use assms(2) ok in simp_all)
  then have "maxed val (rot_aug val ?v g n (root_of u) (root_of a1)) (plug k (Nd (Nd u RED g a1) c n (Nd a2 RED p s)))"
    by (intro rotate_left_maxed [of _ _ _ _ c _ _ RED]) (use ok in \<open>simp_all add: tree_ok_def inord_plug\<close>)
  with max_rot_right_inner [OF assms(1), of val] show ?thesis by (auto simp: maxed_plug intro: rb_keepsI)
qed

lemma root_of_bare [simp]: "root_of (bare t) = root_of t"
  by (cases t) auto

lemma maxed_bare: "maxed val u (bare t) = maxed val u t"
  by (induction t) auto

lemma maxed_recolor: "maxed val u t \<Longrightarrow> bare t' = bare t \<Longrightarrow> maxed val u t'"
  by (metis maxed_bare)

interpretation maxed: rb_insertion "max_rotate val" "maxed val" for val
  by (unfold_locales, rule maxed_recolor, assumption+, unfold rb_state_def)
    (simp_all add: max_left_outer max_left_inner max_right_outer max_right_inner)

section \<open>Propagation\<close>

text \<open>What the loop of \<^verbatim>\<open>_propagate\<close> does to the stored values on the way up.\<close>

fun climb :: "(addr \<Rightarrow> 'v :: linorder) \<Rightarrow> (addr \<Rightarrow> 'v) \<Rightarrow> addr \<Rightarrow> frame list \<Rightarrow> addr \<Rightarrow> 'v" where
  "climb val u hole [] = u"
| "climb val u hole (FL c a s # k) =
     (let w = mx u (root_of s) (mx u hole (val a)) in if u a = w then u else climb val (u(a := w)) a k)"
| "climb val u hole (FR s c a # k) =
     (let w = mx u hole (mx u (root_of s) (val a)) in if u a = w then u else climb val (u(a := w)) a k)"

lemma propagate_stop: "rbcb_propagate compute m stop stop = Some m"
  by (subst rbcb_propagate.simps) simp

lemma propagate_node:
  assumes "a \<noteq> NULL" and "a \<noteq> stop" and "rb_nodes m a = Some \<lparr>rb_parent_color = mk_pc p c, rb_right = r, rb_left = l\<rparr>"
    and "known (rb_nodes m) l" and "known (rb_nodes m) r" and "aligned p"
  shows "rbcb_propagate (compute_max val) m a stop =
    (let w = mx (rb_aug m) r (mx (rb_aug m) l (val a))
     in if rb_aug m a = w then Some m else rbcb_propagate (compute_max val) (m\<lparr>rb_aug := (rb_aug m)(a := w)\<rparr>) p stop)"
  using assms compute_max_known [OF assms(1,3,4,5), of val True]
  by (subst rbcb_propagate.simps) (simp add: Let_def mem_simps)

lemma propagate_seg:
  assumes "seg_at (rb_nodes m) hole k par" and "known (rb_nodes m) hole" and "aligned par" and "par \<notin> ctx_set k"
  shows "rbcb_propagate (compute_max val) m (seg_parent k par) par = Some (m\<lparr>rb_aug := climb val (rb_aug m) hole k\<rparr>)"
  using assms
proof (induction k arbitrary: m hole rule: ctx_set.induct)
  case 1
  then show ?case by (simp add: propagate_stop)
next
  case (2 c a s k)
  have "aligned (seg_parent k par)" using 2 by (cases k rule: parent_of.cases) auto
  with 2 show ?case by (simp; elim conjE) (simp add: propagate_node Let_def)
next
  case (3 s c a k)
  have "aligned (seg_parent k par)" using 3 by (cases k rule: parent_of.cases) auto
  with 3 show ?case by (simp; elim conjE) (simp add: propagate_node Let_def)
qed

lemma climb_other: "b \<notin> ctx_set k \<Longrightarrow> climb val u hole k b = u b"
  by (induction val u hole k rule: climb.induct) (auto simp: Let_def)

lemma climbs_frame [simp]: "a \<notin> ctx_set k \<Longrightarrow> climbs val (u(a := v)) k = climbs val u k"
  by (cases k rule: parent_of.cases) auto

lemma climb_keeps:
  fixes u :: "addr \<Rightarrow> 'v :: linorder" and val :: "addr \<Rightarrow> 'v" and w :: 'v
  assumes "a \<notin> ctx_set k" "a \<notin> set (inord s)" "set (inord s) \<inter> ctx_set k = {}" "hole \<noteq> a" "hole \<notin> ctx_set k"
  defines "u' \<equiv> climb val (u(a := w)) a k"
  shows "u' a = w" and "mx u' hole v = mx u hole v" and "mx u' (root_of s) v = mx u (root_of s) v" and "maxed val u' s = maxed val u s"
proof -
  have other: "u' b = (u(a := w)) b" if "b \<notin> ctx_set k" for b
    using that by (simp add: u'_def climb_other)
  then show "u' a = w" "mx u' hole v = mx u hole v" using assms(1,4,5) by (simp_all add: mx_def)
  have "u' b = u b" if "b \<in> set (inord s)" for b
  proof -
    have "b \<notin> ctx_set k" "b \<noteq> a" using that assms(2,3) by blast+
    then show ?thesis using other by simp
  qed
  then show "mx u' (root_of s) v = mx u (root_of s) v" "maxed val u' s = maxed val u s"
    by (rule mx_root_cong maxed_cong, simp)+
qed

lemma climb_maxed:
  assumes "climbs val u k" and "ctx_distinct k" and "hole \<notin> ctx_set k"
  shows "ctx_maxed val (climb val u hole k) hole k"
  using assms
proof (induction val u hole k rule: climb.induct)
  case (2 val u hole c a s k)
  let ?w = "mx u (root_of s) (mx u hole (val a))"
  show ?case
  proof (cases "u a = ?w")
    case False
    have "climbs val u k" using "2.prems"(1) ctx_maxed_climbs [of val u a k] by simp
    then have "ctx_maxed val (climb val (u(a := ?w)) a k) a k"
      by (intro "2.IH" [OF refl False] climbs_frame [THEN iffD2]) (use "2.prems" in simp_all)
    with "2.prems" False show ?thesis by (simp add: climb_keeps [of a k s hole] mx_commute)
  qed (use "2.prems" in \<open>simp add: mx_commute\<close>)
next
  case (3 val u hole s c a k)
  let ?w = "mx u hole (mx u (root_of s) (val a))"
  show ?case
  proof (cases "u a = ?w")
    case False
    have "climbs val u k" using "3.prems"(1) ctx_maxed_climbs [of val u a k] by simp
    then have "ctx_maxed val (climb val (u(a := ?w)) a k) a k"
      by (intro "3.IH" [OF refl False] climbs_frame [THEN iffD2]) (use "3.prems" in simp_all)
    with "3.prems" False show ?thesis by (simp add: climb_keeps [of a k s hole] mx_commute)
  qed (use "3.prems" in \<open>simp add: mx_commute\<close>)
qed simp

lemma climb_tree: "set (inord t) \<inter> ctx_set k = {} \<Longrightarrow> maxed val (climb val u hole k) t = maxed val u t"
  by (intro maxed_cong climb_other) auto

lemma parent_of_seg: "parent_of k = seg_parent k NULL"
  by (cases k rule: parent_of.cases) auto

lemma ctx_at_seg: "ctx_at h root hole k \<Longrightarrow> seg_at h hole k NULL"
  by (induction k arbitrary: hole rule: ctx_set.induct) (auto simp: parent_of_seg)

text \<open>From any node up to the root: afterwards all stored maxima are right if only those on the path were not.\<close>

lemma propagate_root:
  assumes "rb_repr m (plug k t)" and "climbs val (rb_aug m) k" and "maxed val (rb_aug m) t"
  shows "\<exists>u. rbcb_propagate (compute_max val) m (parent_of k) NULL = Some (m\<lparr>rb_aug := u\<rparr>) \<and> maxed val u (plug k t)"
proof (intro exI conjI)
  have m: "ctx_at (rb_nodes m) (rb_root_node m) (root_of t) k" "tree_at (rb_nodes m) (parent_of k) t" "ctx_distinct k"
      "set (inord t) \<inter> ctx_set k = {}"
    using assms(1) unfolding rb_repr_zip by blast+
  have "NULL \<notin> ctx_set k" using rb_repr_tree_ok [OF assms(1)] by (simp add: tree_ok_def set_inord_plug)
  with m show "rbcb_propagate (compute_max val) m (parent_of k) NULL = Some (m\<lparr>rb_aug := climb val (rb_aug m) (root_of t) k\<rparr>)"
    unfolding parent_of_seg by (intro propagate_seg) (auto simp: ctx_at_seg)
  have "root_of t \<notin> ctx_set k" using m(4) \<open>NULL \<notin> ctx_set k\<close> root_of_inord [of t] by (cases t) auto
  with m assms(2,3) show "maxed val (climb val (rb_aug m) (root_of t) k) (plug k t)"
    by (simp add: maxed_plug climb_tree climb_maxed)
qed

section \<open>Rebalancing after an erasure\<close>

lemma max_tail_left4:
  assumes "rb_repr m (plug k (Nd t c p (Nd sl BLACK s (Nd x RED q y))))"
  shows "rb_becomes_aug (erase_tail_left (max_rotate val) m p s) m
    (plug k (Nd (Nd t BLACK p sl) c s (Nd x BLACK q y))) (rot_aug val (rb_aug m) p s (root_of t) (root_of sl))"
  using assms unfolding rb_repr_zip rb_becomes_aug_def
  by - (cases sl; simp add: zip_simps; (simp add: Int_commute)?; (elim conjE)?;
       simp add: erase_tail_left_def rb_erase_case4_left_def max_simps)

lemma max_tail_left3:
  assumes "rb_repr m (plug k (Nd t c p (Nd (Nd x RED q y) BLACK s sr)))" and "color_of sr = BLACK"
  shows "rb_becomes_aug (erase_tail_left (max_rotate val) m p s) m
    (plug k (Nd (Nd t BLACK p x) c q (Nd (paint BLACK y) BLACK s sr)))
    (rot_aug val (rot_aug val (rb_aug m) s q (root_of y) (root_of sr)) p q (root_of t) (root_of x))"
  using assms unfolding rb_repr_zip rb_becomes_aug_def
  by - (cases x; cases y; simp add: zip_simps; (simp add: Int_commute)?; (elim conjE)?;
      simp add: erase_tail_left_def rb_erase_case3_left_def rb_erase_case4_left_def max_simps)

lemma max_case1_left:
  assumes "rb_repr m (plug k (Nd t c p (Nd (Nd x sc q y) RED s sr)))"
  shows "\<exists>m'. rb_erase_case1_left (max_rotate val) m p s = Some (m', q) \<and>
    rb_becomes_aug (Some m') m (plug k (Nd (Nd t RED p (Nd x BLACK q y)) c s sr)) (rot_aug val (rb_aug m) p s (root_of t) q)"
  using assms unfolding rb_repr_zip rb_becomes_aug_def
  by - (cases t; simp add: zip_simps; (simp add: Int_commute)?; (elim conjE)?;
      simp add: rb_erase_case1_left_def max_simps)

lemma max_tail_right4:
  assumes "rb_repr m (plug k (Nd (Nd (Nd x RED q y) BLACK s sl) c p t))"
  shows "rb_becomes_aug (erase_tail_right (max_rotate val) m p s) m
    (plug k (Nd (Nd x BLACK q y) c s (Nd sl BLACK p t))) (rot_aug val (rb_aug m) p s (root_of sl) (root_of t))"
  using assms unfolding rb_repr_zip rb_becomes_aug_def
  by - (cases sl; simp add: zip_simps; (simp add: Int_commute)?; (elim conjE)?;
       simp add: erase_tail_right_def rb_erase_case4_right_def max_simps)

lemma max_tail_right3:
  assumes "rb_repr m (plug k (Nd (Nd sr BLACK s (Nd y RED q x)) c p t))" and "color_of sr = BLACK"
  shows "rb_becomes_aug (erase_tail_right (max_rotate val) m p s) m
    (plug k (Nd (Nd sr BLACK s (paint BLACK y)) c q (Nd x BLACK p t)))
    (rot_aug val (rot_aug val (rb_aug m) s q (root_of sr) (root_of y)) p q (root_of x) (root_of t))"
  using assms unfolding rb_repr_zip rb_becomes_aug_def
  by - (cases x; cases y; simp add: zip_simps; (simp add: Int_commute)?; (elim conjE)?;
      simp add: erase_tail_right_def rb_erase_case3_right_def rb_erase_case4_right_def max_simps)

lemma max_case1_right:
  assumes "rb_repr m (plug k (Nd (Nd sr RED s (Nd x sc q y)) c p t))"
  shows "\<exists>m'. rb_erase_case1_right (max_rotate val) m p s = Some (m', q) \<and>
    rb_becomes_aug (Some m') m (plug k (Nd sr c s (Nd (Nd x BLACK q y) RED p t))) (rot_aug val (rb_aug m) p s q (root_of t))"
  using assms unfolding rb_repr_zip rb_becomes_aug_def
  by - (cases t; simp add: zip_simps; (simp add: Int_commute)?; (elim conjE)?;
      simp add: rb_erase_case1_right_def max_simps)

lemma rb_state_parts: "rb_state (maxed val) m t \<Longrightarrow> rb_repr m t \<and> maxed val (rb_aug m) t \<and> tree_ok t"
  by (auto simp: rb_state_def dest: rb_repr_tree_ok)

lemma max_left4:
  assumes "rb_state (maxed val) m (plug k (Nd t c p (Nd sl BLACK s (Nd x RED q y))))"
  shows "rb_keeps (maxed val) (erase_tail_left (max_rotate val) m p s) m (plug k (Nd (Nd t BLACK p sl) c s (Nd x BLACK q y)))"
  using max_tail_left4 [of m k t c p sl s x q y val] rb_state_parts [OF assms]
    rotate_left_maxed [of val "rb_aug m" k t c p sl BLACK s "Nd x RED q y" BLACK c]
  by (auto simp: maxed_plug intro: rb_keepsI)

lemma max_right4:
  assumes "rb_state (maxed val) m (plug k (Nd (Nd (Nd x RED q y) BLACK s sl) c p t))"
  shows "rb_keeps (maxed val) (erase_tail_right (max_rotate val) m p s) m (plug k (Nd (Nd x BLACK q y) c s (Nd sl BLACK p t)))"
  using max_tail_right4 [of m k x q y s sl c p t val] rb_state_parts [OF assms]
    rotate_right_maxed [of val "rb_aug m" k "Nd x RED q y" BLACK s sl c p t c BLACK]
  by (auto simp: maxed_plug intro: rb_keepsI)

lemma max_left1:
  assumes "rb_state (maxed val) m (plug k (Nd t c p (Nd (Nd x sc q y) RED s sr)))"
  shows "\<exists>m'. rb_erase_case1_left (max_rotate val) m p s = Some (m', q) \<and>
    rb_keeps (maxed val) (Some m') m (plug k (Nd (Nd t RED p (Nd x BLACK q y)) c s sr))"
proof -
  have "maxed val (rot_aug val (rb_aug m) p s (root_of t) q) (plug k (Nd (Nd t RED p (Nd x BLACK q y)) c s sr))"
    using rotate_left_maxed [of val "rb_aug m" k t c p "Nd x sc q y" RED s sr RED c] rb_state_parts [OF assms] by (auto simp: maxed_plug)
  with max_case1_left [of m k t c p x sc q y s sr val] rb_state_parts [OF assms] show ?thesis by (blast intro: rb_keepsI)
qed

lemma max_right1:
  assumes "rb_state (maxed val) m (plug k (Nd (Nd sr RED s (Nd x sc q y)) c p t))"
  shows "\<exists>m'. rb_erase_case1_right (max_rotate val) m p s = Some (m', q) \<and>
    rb_keeps (maxed val) (Some m') m (plug k (Nd sr c s (Nd (Nd x BLACK q y) RED p t)))"
proof -
  have "maxed val (rot_aug val (rb_aug m) p s q (root_of t)) (plug k (Nd sr c s (Nd (Nd x BLACK q y) RED p t)))"
    using rotate_right_maxed [of val "rb_aug m" k sr RED s "Nd x sc q y" c p t c RED] rb_state_parts [OF assms] by (auto simp: maxed_plug)
  with max_case1_right [of m k sr s x sc q y c p t val] rb_state_parts [OF assms] show ?thesis by (blast intro: rb_keepsI)
qed

lemma max_left3:
  assumes "rb_state (maxed val) m (plug k (Nd t c p (Nd (Nd x RED q y) BLACK s sr)))" and "color_of sr = BLACK"
  shows "rb_keeps (maxed val) (erase_tail_left (max_rotate val) m p s) m
    (plug k (Nd (Nd t BLACK p x) c q (Nd (paint BLACK y) BLACK s sr)))"
proof -
  have ok: "tree_ok (plug k (Nd t c p (Nd (Nd x RED q y) BLACK s sr)))" using rb_state_parts [OF assms(1)] by blast
  let ?v = "rot_aug val (rb_aug m) s q (root_of y) (root_of sr)"
  have "maxed val ?v (plug (FR t c p # k) (Nd x RED q (Nd y BLACK s sr)))"
    by (rule rotate_right_maxed [of _ _ _ _ RED _ _ BLACK]) (use rb_state_parts [OF assms(1)] in simp_all)
  then have "maxed val (rot_aug val ?v p q (root_of t) (root_of x)) (plug k (Nd (Nd t BLACK p x) c q (Nd y BLACK s sr)))"
    by (intro rotate_left_maxed [of _ _ _ _ c _ _ RED]) (use ok in \<open>simp_all add: tree_ok_def inord_plug\<close>)
  with max_tail_left3 [of m k t c p x q y s sr val] rb_state_parts [OF assms(1)] assms(2) show ?thesis
    by (auto simp: maxed_plug intro: rb_keepsI)
qed

lemma max_right3:
  assumes "rb_state (maxed val) m (plug k (Nd (Nd sr BLACK s (Nd y RED q x)) c p t))" and "color_of sr = BLACK"
  shows "rb_keeps (maxed val) (erase_tail_right (max_rotate val) m p s) m
    (plug k (Nd (Nd sr BLACK s (paint BLACK y)) c q (Nd x BLACK p t)))"
proof -
  have ok: "tree_ok (plug k (Nd (Nd sr BLACK s (Nd y RED q x)) c p t))" using rb_state_parts [OF assms(1)] by blast
  let ?v = "rot_aug val (rb_aug m) s q (root_of sr) (root_of y)"
  have "maxed val ?v (plug (FL c p t # k) (Nd (Nd sr BLACK s y) RED q x))"
    by (rule rotate_left_maxed [of _ _ _ _ BLACK _ _ RED]) (use rb_state_parts [OF assms(1)] in simp_all)
  then have "maxed val (rot_aug val ?v p q (root_of x) (root_of t)) (plug k (Nd (Nd sr BLACK s y) c q (Nd x BLACK p t)))"
    by (intro rotate_right_maxed [of _ _ _ _ RED _ _ c]) (use ok in \<open>simp_all add: tree_ok_def inord_plug\<close>)
  with max_tail_right3 [of m k sr s y q x c p t val] rb_state_parts [OF assms(1)] assms(2) show ?thesis
    by (auto simp: maxed_plug intro: rb_keepsI)
qed

interpretation maxed: rb_rebalance "max_rotate val" "maxed val" for val
  by unfold_locales (simp_all add: max_left4 max_left3 max_left1 max_right4 max_right3 max_right1)

section \<open>Unlinking\<close>

text \<open>\<^verbatim>\<open>__rb_erase_augmented\<close> up to its last call of \<^verbatim>\<open>propagate\<close>; the last component is where that call starts.\<close>

definition rb_erase_unlink :: "'u rb_augment_callbacks \<Rightarrow> 'u rb_mem \<Rightarrow> addr \<Rightarrow> ('u rb_mem \<times> addr \<times> addr) option" where
  "rb_erase_unlink augment m node =
     do { child \<leftarrow> rb_get_right m node;
          tmp \<leftarrow> rb_get_left m node;
          (if tmp = NULL
             then do { pc \<leftarrow> rb_get_pc m node;
                       m \<leftarrow> rb_change_child m node child (pc_parent pc);
                       if child \<noteq> NULL
                       then do { m \<leftarrow> rb_set_pc m child pc; Some (m, NULL, pc_parent pc) }
                       else Some (m, (if pc_is_black pc then pc_parent pc else NULL), pc_parent pc) }
             else if child = NULL
             then do { pc \<leftarrow> rb_get_pc m node;
                       m \<leftarrow> rb_set_pc m tmp pc;
                       m \<leftarrow> rb_change_child m node tmp (pc_parent pc);
                       Some (m, NULL, pc_parent pc) }
             else rb_erase_augmented_two augment m node child) }"

lemma core_unlink:
  "rb_erase_augmented_core augment m node =
     do { (m, rebalance, tmp) \<leftarrow> rb_erase_unlink augment m node;
          m \<leftarrow> aug_propagate augment m tmp NULL;
          Some (m, rebalance) }"
  by (simp add: rb_erase_augmented_core_def rb_erase_unlink_def)

lemma unlink_no_left:
  assumes "rb_repr m (plug k (Nd Tip c n r))"
  shows "\<exists>m'. rb_erase_unlink cb m n = Some (m', if r = Tip \<and> c = BLACK then parent_of k else NULL, parent_of k) \<and>
    rb_becomes_aug (Some m') m (plug k (paint c r)) (rb_aug m)"
  using assms unfolding rb_repr_zip rb_becomes_aug_def
  by - (cases r; simp add: zip_simps; (simp add: Int_commute)?; (elim conjE)?;
      simp add: rb_erase_unlink_def rot_simps)

lemma unlink_no_right:
  assumes "rb_repr m (plug k (Nd (Nd x lc y z) c n Tip))"
  shows "\<exists>m'. rb_erase_unlink cb m n = Some (m', NULL, parent_of k) \<and>
    rb_becomes_aug (Some m') m (plug k (Nd x c y z)) (rb_aug m)"
  using assms unfolding rb_repr_zip rb_becomes_aug_def
  by - (simp add: zip_simps; (simp add: Int_commute)?; (elim conjE)?;
      simp add: rb_erase_unlink_def rot_simps)

text \<open>The callbacks of the template.\<close>

lemma max_callbacks [simp]:
  "aug_propagate (rb_declare_callbacks_max val) = rbcb_propagate (compute_max val)"
  "aug_copy (rb_declare_callbacks_max val) = rbcb_copy" "aug_rotate (rb_declare_callbacks_max val) = max_rotate val"
  by (simp_all add: rb_declare_callbacks_max_def rb_declare_callbacks_def)

lemma copy_known:
  "old \<noteq> NULL \<Longrightarrow> rb_nodes m old = Some a \<Longrightarrow> new \<noteq> NULL \<Longrightarrow> rb_nodes m new = Some b \<Longrightarrow>
   rbcb_copy m old new = Some (m\<lparr>rb_aug := (rb_aug m)(new := rb_aug m old)\<rparr>)"
  by (simp add: rbcb_copy_def aug_load_def aug_store_def mem_simps)

lemma unlink_near:
  assumes "rb_repr m (plug k (Nd (Nd x lc y z) c n (Nd Tip sc s r)))"
  shows "\<exists>m'. rb_erase_unlink (rb_declare_callbacks_max val) m n = Some (m', if r = Tip \<and> sc = BLACK then s else NULL, s) \<and>
    rb_becomes_aug (Some m') m (plug k (Nd (Nd x lc y z) c s (paint BLACK r))) ((rb_aug m)(s := rb_aug m n))"
  using assms unfolding rb_repr_zip rb_becomes_aug_def
  by - (cases r; simp add: zip_simps; (simp add: Int_commute)?; (elim conjE)?;
      simp add: rb_erase_unlink_def rb_erase_augmented_two_def mem_simps change_child_relink copy_known)

lemma unlink_child:
  assumes "rb_repr m (plug k (Nd (Nd x lc y z) c n (Nd (Nd Tip sc s r) pc p ps)))"
  shows "\<exists>m'. rb_erase_unlink (rb_declare_callbacks_max val) m n = Some (m', if r = Tip \<and> sc = BLACK then p else NULL, s) \<and>
    rb_becomes_aug (Some m') m (plug k (Nd (Nd x lc y z) c s (Nd (paint BLACK r) pc p ps)))
      (climb val ((rb_aug m)(s := rb_aug m n)) (root_of r) [FL pc p ps])"
proof -
  have "rb_succ_loop m p s = Some (p, s)"
    using assms succ_loop_left [of m p "[]" sc s r p] unfolding rb_repr_zip by simp
  with assms show ?thesis unfolding rb_repr_zip rb_becomes_aug_def
    by - (cases r; simp add: zip_simps; (simp add: Int_commute)?; (elim conjE)?;
      simp add: rb_erase_unlink_def rb_erase_augmented_two_def mem_simps change_child_relink copy_known
        propagate_seg [of _ "root_of r" "[FL pc p ps]" s val, simplified] Let_def)
qed

lemma seg_parent_append: "seg_parent (k @ k') par = seg_parent k (seg_parent k' par)"
  by (cases k rule: parent_of.cases) auto

lemma ctx_set_append: "ctx_set (k @ k') = ctx_set k \<union> ctx_set k'"
  by (induction k rule: ctx_set.induct) auto

lemma seg_append:
  "seg_at h hole (k @ k') par \<longleftrightarrow> seg_at h hole k (seg_parent k' par) \<and> seg_at h (seg_top k hole) k' par"
  by (induction k arbitrary: hole rule: ctx_set.induct) (auto simp: seg_parent_append)

lemma propagate_far:
  assumes "fr = FL pc p ps # kk @ [FL wc w ws]"
    and "node_addr p" "rb_nodes m p = Some \<lparr>rb_parent_color = mk_pc (seg_parent kk w) pc, rb_right = root_of ps, rb_left = hole\<rparr>"
    and "tree_at (rb_nodes m) p ps" "seg_at (rb_nodes m) p kk w"
    and "node_addr w" "rb_nodes m w = Some \<lparr>rb_parent_color = mk_pc s wc, rb_right = root_of ws, rb_left = seg_top kk p\<rparr>"
    and "tree_at (rb_nodes m) w ws" and "known (rb_nodes m) hole" "aligned s"
    and "s \<noteq> p" "s \<notin> set (inord ps)" "s \<notin> ctx_set kk" "s \<noteq> w" "s \<notin> set (inord ws)"
  shows "rbcb_propagate (compute_max val) m p s = Some (m\<lparr>rb_aug := climb val (rb_aug m) hole fr\<rparr>)"
  using propagate_seg [of m hole fr s val] assms by (simp add: seg_append seg_parent_append ctx_set_append)

lemma unlink_far:
  assumes "rb_repr m (plug k (Nd (Nd x lc y z) c n (Nd (plug kk (Nd (Nd Tip sc s r) pc p ps)) wc w ws)))"
    and "all_left kk"
  shows "\<exists>m'. rb_erase_unlink (rb_declare_callbacks_max val) m n = Some (m', if r = Tip \<and> sc = BLACK then p else NULL, s) \<and>
    rb_becomes_aug (Some m') m (plug k (Nd (Nd x lc y z) c s (Nd (plug kk (Nd (paint BLACK r) pc p ps)) wc w ws)))
      (climb val ((rb_aug m)(s := rb_aug m n)) (root_of r) (FL pc p ps # kk @ [FL wc w ws]))"
proof -
  have t: "tree_at (rb_nodes m) w (plug kk (Nd (Nd Tip sc s r) pc p ps))"
    using assms unfolding rb_repr_zip by simp
  have "rb_succ_loop m w (seg_top kk p) = Some (p, s)" "seg_top kk p \<noteq> NULL"
    using succ_loop_left [of m w "FL pc p ps # kk" sc s r w] root_of_eq_NULL [OF t] t assms(2)
    by (simp_all add: root_of_plug)
  moreover define fr where "fr = FL pc p ps # kk @ [FL wc w ws]"
  ultimately show ?thesis using assms unfolding rb_repr_zip rb_becomes_aug_def fr_def [symmetric]
    by - (cases r; simp add: zip_simps spine_simps; (simp add: Int_commute)?; (elim conjE)?;
      simp add: rb_erase_unlink_def rb_erase_augmented_two_def mem_simps change_child_relink copy_known
        propagate_far [OF fr_def])
qed

lemma unlink_two:
  assumes "rb_repr m (plug k (Nd (Nd x lc y z) c n (plug kk (Nd Tip sc s r))))" and "all_left kk"
  shows "\<exists>m'. rb_erase_unlink (rb_declare_callbacks_max val) m n =
      Some (m', if r = Tip \<and> sc = BLACK then parent_of (kk @ FR (Nd x lc y z) c s # k) else NULL, s) \<and>
    rb_becomes_aug (Some m') m (plug (kk @ FR (Nd x lc y z) c s # k) (paint BLACK r))
      (climb val ((rb_aug m)(s := rb_aug m n)) (root_of r) kk)"
proof (cases kk)
  case Nil
  with unlink_near [of m k x lc y z c n sc s r val] assms show ?thesis by (simp split del: if_split cong: if_cong)
next
  case (Cons f kk1)
  with assms obtain pc p ps where f: "f = FL pc p ps" by (cases f) auto
  show ?thesis
  proof (cases kk1 rule: rev_cases)
    case Nil
    with Cons f unlink_child [of m k x lc y z c n sc s r pc p ps val] assms show ?thesis
      by (simp split del: if_split cong: if_cong)
  next
    case (snoc kk2 g)
    with Cons f assms obtain wc w ws where g: "g = FL wc w ws" by (cases g) auto
    show ?thesis
      using Cons f snoc g unlink_far [of m k x lc y z c n kk2 sc s r pc p ps wc w ws val] assms
      by (simp add: plug_append split del: if_split cong: if_cong)
  qed
qed

text \<open>The last propagation makes all stored maxima right when only those on the path above \<open>k\<close> are wrong.\<close>

lemma core_finish:
  assumes "\<exists>m1. rb_erase_unlink (rb_declare_callbacks_max val) m n = Some (m1, reb, parent_of k) \<and> rb_becomes_aug (Some m1) m (plug k t) u"
    and "climbs val u k" and "maxed val u t"
  shows "\<exists>m'. rb_erase_augmented_core (rb_declare_callbacks_max val) m n = Some (m', reb) \<and> rb_keeps (maxed val) (Some m') m (plug k t)"
proof -
  obtain m1 where m1: "rb_erase_unlink (rb_declare_callbacks_max val) m n = Some (m1, reb, parent_of k)"
      "rb_repr m1 (plug k t)" "\<forall>a. a \<notin> set (inord (plug k t)) \<longrightarrow> rb_nodes m1 a = rb_nodes m a" "rb_aug m1 = u"
    using assms(1) by (auto simp: rb_becomes_aug_def)
  obtain v where v: "rbcb_propagate (compute_max val) m1 (parent_of k) NULL = Some (m1\<lparr>rb_aug := v\<rparr>)" "maxed val v (plug k t)"
    using propagate_root [OF m1(2)] assms(2,3) m1(4) by blast
  have "rb_becomes_aug (Some (m1\<lparr>rb_aug := v\<rparr>)) m (plug k t) v" using m1(2,3) by (simp add: rb_becomes_aug_def rb_repr_def)
  with m1(1) v show ?thesis by (auto simp: core_unlink intro: rb_keepsI)
qed

lemma max_no_left:
  assumes "rb_state (maxed val) m (plug k (Nd Tip c n r))"
  shows "\<exists>m'. rb_erase_augmented_core (rb_declare_callbacks_max val) m n =
      Some (m', if r = Tip \<and> c = BLACK then parent_of k else NULL) \<and> rb_keeps (maxed val) (Some m') m (plug k (paint c r))"
  using assms ctx_maxed_climbs by (intro core_finish [OF unlink_no_left]) (auto simp: rb_state_def maxed_plug)

lemma max_no_right:
  assumes "rb_state (maxed val) m (plug k (Nd (Nd x lc y z) c n Tip))"
  shows "\<exists>m'. rb_erase_augmented_core (rb_declare_callbacks_max val) m n = Some (m', NULL) \<and>
    rb_keeps (maxed val) (Some m') m (plug k (Nd x c y z))"
  using assms ctx_maxed_climbs by (intro core_finish [OF unlink_no_right]) (auto simp: rb_state_def maxed_plug)

lemma max_two:
  assumes "rb_state (maxed val) m (plug k (Nd (Nd x lc y z) c n (plug kk (Nd Tip sc s r))))" and "all_left kk"
  shows "\<exists>m'. rb_erase_augmented_core (rb_declare_callbacks_max val) m n =
      Some (m', if r = Tip \<and> sc = BLACK then parent_of (kk @ FR (Nd x lc y z) c s # k) else NULL) \<and>
    rb_keeps (maxed val) (Some m') m (plug (kk @ FR (Nd x lc y z) c s # k) (paint BLACK r))"
proof -
  let ?L = "Nd x lc y z" let ?u = "(rb_aug m)(s := rb_aug m n)" let ?v = "climb val ?u (root_of r) kk"
  have m: "rb_repr m (plug k (Nd ?L c n (plug kk (Nd Tip sc s r))))" "tree_ok (plug k (Nd ?L c n (plug kk (Nd Tip sc s r))))"
    and val: "maxed val (rb_aug m) ?L" "maxed val (rb_aug m) r" "ctx_maxed val (rb_aug m) s kk" "ctx_maxed val (rb_aug m) n k"
    using rb_state_parts [OF assms(1)] by (auto simp: maxed_plug)
  have neq: "n \<noteq> NULL" "s \<noteq> NULL" "s \<notin> ctx_set k" "s \<notin> ctx_set kk" "s \<notin> set (inord ?L)" "s \<notin> set (inord r)"
      "ctx_distinct kk" "set (inord r) \<inter> ctx_set kk = {}" "ctx_set k \<inter> ctx_set kk = {}" "set (inord ?L) \<inter> ctx_set kk = {}" "NULL \<notin> ctx_set kk"
    using m(2) by (auto simp: tree_ok_def distinct_inord_plug set_inord_plug)
  have other: "?v b = ?u b" if "b \<notin> ctx_set kk" for b using that by (rule climb_other)
  have root: "root_of r \<notin> ctx_set kk" using neq(8,11) root_of_inord [of r] by (cases r) auto
  have v: "maxed val ?v (plug kk (paint BLACK r))"
    using neq root val climbs_frame ctx_maxed_climbs [OF val(3)] by (simp add: maxed_plug climb_tree climb_maxed)
  have "ctx_maxed val ?v s k"
  proof (rule ctx_maxed_root [OF val(4)])
    show "?v s = rb_aug m n" using other [of s] neq by simp
    show "?v b = rb_aug m b" if "b \<in> ctx_set k" for b
    proof -
      have "b \<notin> ctx_set kk" "b \<noteq> s" using that neq(3,9) by blast+
      then show ?thesis using other by simp
    qed
  qed (use neq in simp_all)
  moreover have "maxed val ?v ?L = maxed val (rb_aug m) ?L"
  proof (rule maxed_cong)
    show "?v b = rb_aug m b" if "b \<in> set (inord ?L)" for b
    proof -
      have "b \<notin> ctx_set kk" "b \<noteq> s" using that neq(5,10) by blast+
      then show ?thesis using other by simp
    qed
  qed
  ultimately have c: "climbs val ?v (FR ?L c s # k)" using val(1) by simp
  have eq: "plug (FR ?L c s # k) (plug kk (paint BLACK r)) = plug (kk @ FR ?L c s # k) (paint BLACK r)"
    by (simp add: plug_append)
  show ?thesis
    using core_finish [of val m n _ "FR ?L c s # k" "plug kk (paint BLACK r)" ?v] unlink_two [OF m(1) assms(2), of val] c v
    unfolding eq by simp
qed

interpretation maxed: rb_erasure "max_rotate val" "maxed val" "rb_declare_callbacks_max val" for val
  by unfold_locales (simp_all only: max_callbacks max_no_left max_no_right max_two)

section \<open>Properties\<close>

text \<open>Every node stores the maximum over the nodes of its subtree.\<close>

fun subtree_max :: "(addr \<Rightarrow> 'v :: linorder) \<Rightarrow> (addr \<Rightarrow> 'v) \<Rightarrow> rtree \<Rightarrow> bool" where
  "subtree_max val u Tip \<longleftrightarrow> True"
| "subtree_max val u (Nd l c a r) \<longleftrightarrow>
     u a = Max (val ` set (inord (Nd l c a r))) \<and> subtree_max val u l \<and> subtree_max val u r"

lemma maxed_subtree_max: "tree_at h par t \<Longrightarrow> maxed val u t \<longleftrightarrow> subtree_max val u t"
proof (induction t arbitrary: par)
  case (Nd l c a r)
  have root: "root_of l = NULL \<longleftrightarrow> l = Tip" "root_of r = NULL \<longleftrightarrow> r = Tip"
    using Nd.prems by (auto dest: root_of_eq_NULL)
  have nodes: "inord t = [] \<longleftrightarrow> t = Tip" for t by (cases t) auto
  have top: "u (root_of t) = Max (val ` set (inord t))" if "subtree_max val u t" "t \<noteq> Tip" for t
    using that by (cases t) auto
  have "mx u (root_of l) (mx u (root_of r) (val a)) = Max (val ` set (inord (Nd l c a r)))"
    if "subtree_max val u l" "subtree_max val u r"
    using top [OF that(1)] top [OF that(2)] root
    by (cases "l = Tip"; cases "r = Tip") (simp_all add: mx_def image_Un Max_Un ac_simps nodes)
  then show ?case using Nd by auto
qed simp

lemma rb_state_max: "rb_state (maxed val) m t \<longleftrightarrow> rb_repr m t \<and> subtree_max val (rb_aug m) t"
  using maxed_subtree_max unfolding rb_state_def rb_repr_def by blast

lemma link_aug: "rb_link_node m n p l = Some m' \<Longrightarrow> rb_aug m' = rb_aug m"
  by (cases l) (auto simp: rb_link_node_def rb_set_pc_def rb_set_left_def rb_set_right_def bind_eq_Some_conv)

text \<open>Linking a new node and propagating from its parent.\<close>

lemma link_propagate:
  assumes "rb_state (maxed val) m (plug k Tip)" and "n \<notin> ctx_set k" and "node_addr n" and "rb_nodes m n = Some v" and "rb_aug m n = val n"
  shows "\<exists>m1 m2. rb_link_node m n (parent_of k) (link_of k) = Some m1 \<and>
    rbcb_propagate (compute_max val) m1 (parent_of k) NULL = Some m2 \<and> rb_state (maxed val) m2 (plug k (Nd Tip RED n Tip)) \<and>
    (\<forall>a. a \<notin> insert n (ctx_set k) \<longrightarrow> rb_nodes m2 a = rb_nodes m a)"
proof -
  have m: "rb_repr m (plug k Tip)" "climbs val (rb_aug m) k"
    using assms(1) ctx_maxed_climbs by (auto simp: rb_state_def maxed_plug)
  obtain m1 where m1: "rb_link_node m n (parent_of k) (link_of k) = Some m1" "rb_repr m1 (plug k (Nd Tip RED n Tip))"
      "\<forall>a. a \<notin> set (inord (plug k (Nd Tip RED n Tip))) \<longrightarrow> rb_nodes m1 a = rb_nodes m a"
    using link_node_plug [OF m(1) assms(2-4)] by (auto simp: rb_becomes_def)
  have aug: "rb_aug m1 = rb_aug m" using m1(1) by (rule link_aug)
  have "maxed val (rb_aug m1) (Nd Tip RED n Tip)" using assms(5) by (simp add: aug)
  from propagate_root [OF m1(2) _ this] m(2) obtain u where
    "rbcb_propagate (compute_max val) m1 (parent_of k) NULL = Some (m1\<lparr>rb_aug := u\<rparr>)" "maxed val u (plug k (Nd Tip RED n Tip))"
    by (auto simp: aug)
  with m1 show ?thesis by (auto simp: rb_state_def rb_repr_def set_inord_plug)
qed

text \<open>
  C32: Trees with maxima, insertion.  When every node of a red-black tree stores the maximum over its subtree and a new node stores its own value, then
  the descent of \<^verbatim>\<open>rb_add\<close>, \<^verbatim>\<open>rb_link_node\<close>, the propagation from the parent and \<^verbatim>\<open>rb_insert_augmented\<close>, with the callbacks that
  \<^verbatim>\<open>RB_DECLARE_CALLBACKS_MAX\<close> declares, end with a red-black tree that has the node in its place and in which every node again stores the
  maximum over its subtree.
\<close>

theorem rb_add_max:
  assumes "rb_repr m t" and "rb_inv t" and "subtree_max val (rb_aug m) t"
    and "n \<notin> set (inord t)" and "node_addr n" and "rb_nodes m n = Some v" and "rb_aug m n = val n"
    and "sorted_wrt (\<lambda>a b. cmp n a < 0 \<longrightarrow> cmp n b < 0) (inord t)"
  shows "\<exists>p l m1 m2 m3 t'. rb_add_loop cmp m n LRoot NULL = Some (p, l) \<and> rb_link_node m n p l = Some m1 \<and>
    aug_propagate (rb_declare_callbacks_max val) m1 p NULL = Some m2 \<and>
    rb_insert_augmented (rb_declare_callbacks_max val) m2 n = Some m3 \<and>
    rb_repr m3 t' \<and> rb_inv t' \<and> subtree_max val (rb_aug m3) t' \<and>
    inord t' = takeWhile (\<lambda>a. \<not> cmp n a < 0) (inord t) @ n # dropWhile (\<lambda>a. \<not> cmp n a < 0) (inord t)"
proof -
  let ?lt = "\<lambda>a. cmp n a < 0" let ?k = "descend ?lt t []" let ?n = "Nd Tip RED n Tip"
  have state: "rb_state (maxed val) m (plug ?k Tip)" and k: "n \<notin> ctx_set ?k" "root_black ?k"
    using assms(1-4) ctx_fits_root_black [of ?k 0] rb_inv_plug [of ?k Tip] by (simp_all add: rb_state_max plug_descend ctx_set_descend)
  obtain m1 m2 where m2: "rb_link_node m n (parent_of ?k) (link_of ?k) = Some m1"
      "rbcb_propagate (compute_max val) m1 (parent_of ?k) NULL = Some m2" "rb_state (maxed val) m2 (plug ?k ?n)"
    using link_propagate [OF state k(1) assms(5-7)] by blast
  obtain m3 where m3: "rb_insert_augmented (rb_declare_callbacks_max val) m2 n = Some m3" "rb_state (maxed val) m3 (ins_fix ?k ?n)"
    using maxed.insert_keeps [OF m2(3) k(2)] by (auto simp: rb_insert_augmented_def rb_keeps_def rb_becomes_aug_def rb_state_def)
  have "rb_inv (ins_fix ?k ?n)" using rb_inv_add_tree [OF assms(2), of ?lt n] by (simp add: add_tree_def)
  moreover have "inord (ins_fix ?k ?n) = takeWhile (\<lambda>a. \<not> ?lt a) (inord t) @ n # dropWhile (\<lambda>a. \<not> ?lt a) (inord t)"
    using inord_add_tree [OF assms(8), of n] by (simp add: add_tree_def)
  moreover have "rb_add_loop cmp m n LRoot NULL = Some (parent_of ?k, link_of ?k)"
    using add_loop_descend [of m "[]" t cmp n] assms(1) by simp
  ultimately show ?thesis using m2 m3 by (auto simp: rb_state_max)
qed

definition max_example_val :: "addr \<Rightarrow> nat" where
  "max_example_val a = (if a = 8 then 5 else if a = 16 then 9 else 7)"

definition max_example :: "(addr \<Rightarrow> nat) rb_mem" where
  "max_example = \<lparr>rb_nodes = rb_nodes rb_example, rb_root_node = 8, rb_aug = (\<lambda>a. if a = 24 then 7 else 9)\<rparr>"

lemma max_example_facts:
  "rb_repr max_example rb_example_tree" "subtree_max max_example_val (rb_aug max_example) rb_example_tree"
  "rb_nodes max_example 24 = Some \<lparr>rb_parent_color = 7, rb_right = 5, rb_left = 3\<rparr>" "rb_aug max_example 24 = max_example_val 24"
  using rb_example_repr(1) by (simp_all add: max_example_def rb_repr_def rb_example_def rb_example_tree_def max_example_val_def)

theorem rb_add_max_witness:
  "\<exists>p l m1 m2 m3 t'. rb_add_loop (\<lambda>a b. uint a - uint b) max_example 24 LRoot NULL = Some (p, l) \<and>
    rb_link_node max_example 24 p l = Some m1 \<and>
    aug_propagate (rb_declare_callbacks_max max_example_val) m1 p NULL = Some m2 \<and>
    rb_insert_augmented (rb_declare_callbacks_max max_example_val) m2 24 = Some m3 \<and>
    rb_repr m3 t' \<and> rb_inv t' \<and> subtree_max max_example_val (rb_aug m3) t' \<and> inord t' = [8, 16, 24]"
  using rb_add_max [OF max_example_facts(1) rb_example_repr(2) max_example_facts(2) _ rb_example_room(1) max_example_facts(3,4),
      of "\<lambda>a b. uint a - uint b"]
  by (simp add: rb_example_repr(3))

text \<open>
  C33: Trees with maxima, erasure.  \<^verbatim>\<open>rb_erase_augmented\<close> with these callbacks removes exactly the given node from a red-black tree in which every
  node stores the maximum over its subtree, and in the red-black tree that is left every node again stores the maximum over its subtree.
\<close>

theorem rb_erase_max:
  assumes "rb_repr m t" and "rb_inv t" and "subtree_max val (rb_aug m) t" and "n \<in> set (inord t)"
  shows "\<exists>m' t'. rb_erase_augmented (rb_declare_callbacks_max val) m n = Some m' \<and> rb_repr m' t' \<and> rb_inv t' \<and>
    inord t' = remove1 n (inord t) \<and> subtree_max val (rb_aug m') t' \<and> (\<forall>a. a \<notin> set (inord t') \<longrightarrow> rb_nodes m' a = rb_nodes m a)"
  using maxed.erase_augmented_result [of val m t n] assms by (auto simp: rb_state_max)

theorem rb_erase_max_witness:
  "\<exists>m' t'. rb_erase_augmented (rb_declare_callbacks_max max_example_val) max_example 16 = Some m' \<and> rb_repr m' t' \<and>
    inord t' = [8] \<and> subtree_max max_example_val (rb_aug m') t'"
  using rb_erase_max [OF max_example_facts(1) rb_example_repr(2) max_example_facts(2), of 16] by (auto simp: rb_example_repr(3))

end
