(* ===== verification/C_String.thy ===== *)
theory C_String
  imports Prelude "HOL-Library.List_Lexorder"
begin

text \<open>
  The parts of \<^verbatim>\<open>string.h\<close> the program uses, on byte lists.  A \<^verbatim>\<open>const char *\<close> argument is the list of its bytes
  up to the terminator; a \<^verbatim>\<open>char[n]\<close> buffer is a list of \<open>n\<close> bytes.  Reading one past the end of a string
  gives the terminator.
\<close>

type_synonym byte = "8 word"

definition hd0 :: "byte list \<Rightarrow> byte" where
  "hd0 xs = (case xs of [] \<Rightarrow> 0 | x # _ \<Rightarrow> x)"

lemma hd0_simps [simp]: "hd0 [] = 0" "hd0 (x # xs) = x"
  by (simp_all add: hd0_def)

fun strncmp :: "nat \<Rightarrow> byte list \<Rightarrow> byte list \<Rightarrow> int" where
  "strncmp 0 xs ys = 0"
| "strncmp (Suc n) xs ys =
     (if hd0 xs \<noteq> hd0 ys then uint (hd0 xs) - uint (hd0 ys)
      else if hd0 xs = 0 then 0
      else strncmp n (tl xs) (tl ys))"

text \<open>The first \<open>n\<close> bytes of \<open>src\<close>, padded with zeros, over the start of the destination.\<close>

definition strncpy :: "byte list \<Rightarrow> byte list \<Rightarrow> nat \<Rightarrow> byte list" where
  "strncpy dst src n = take n (takeWhile (\<lambda>b. b \<noteq> 0) src @ replicate n 0) @ drop n dst"

text \<open>What \<^verbatim>\<open>strncmp\<close> compares: the bytes before the terminator, at most \<open>n\<close> of them.\<close>

definition cstr :: "nat \<Rightarrow> byte list \<Rightarrow> byte list" where
  "cstr n xs = takeWhile (\<lambda>b. b \<noteq> 0) (take n xs)"

lemma cstr_simps [simp]: "cstr 0 xs = []" "cstr (Suc n) [] = []"
  "cstr (Suc n) (x # xs) = (if x = 0 then [] else x # cstr n xs)"
  by (simp_all add: cstr_def)

lemma uint_byte: "uint x = 0 \<longleftrightarrow> x = 0" "uint x = uint y \<longleftrightarrow> x = y" "0 < uint x \<longleftrightarrow> x \<noteq> 0" for x y :: byte
proof -
  show 0: "uint x = 0 \<longleftrightarrow> x = 0" by (rule unsigned_eq_0_iff)
  show "uint x = uint y \<longleftrightarrow> x = y" by (simp add: word_uint_eq_iff)
  show "0 < uint x \<longleftrightarrow> x \<noteq> 0" using 0 uint_ge_0 [of x] by linarith
qed

lemma strncmp_eq_0: "strncmp n xs ys = 0 \<longleftrightarrow> cstr n xs = cstr n ys"
  by (induction n xs ys rule: strncmp.induct) (auto simp: hd0_def uint_byte split: list.splits)

lemma strncmp_less_0: "strncmp n xs ys < 0 \<longleftrightarrow> cstr n xs < cstr n ys"
  by (induction n xs ys rule: strncmp.induct)
    (auto simp: hd0_def word_less_def uint_byte split: list.splits)

lemma cstr_plain: "0 \<notin> set xs \<Longrightarrow> cstr n xs = take n xs"
  by (auto simp: cstr_def takeWhile_eq_all_conv dest: in_set_takeD)

lemma length_strncpy [simp]: "n \<le> length dst \<Longrightarrow> length (strncpy dst src n) = length dst"
  by (simp add: strncpy_def)

lemma cstr_terminated: "0 \<notin> set src \<Longrightarrow> cstr k (src @ 0 # rest) = take k src"
proof (induction src arbitrary: k)
  case Nil
  show ?case by (cases k) simp_all
next
  case (Cons x src)
  then show ?case by (cases k) auto
qed

lemma strncpy_short:
  assumes "0 \<notin> set src" and "length src < n"
  shows "strncpy dst src n = src @ 0 # replicate (n - Suc (length src)) 0 @ drop n dst"
proof -
  have src: "takeWhile (\<lambda>b. b \<noteq> 0) src = src" using assms(1) by (auto simp: takeWhile_eq_all_conv)
  have "replicate (n - length src) (0 :: byte) = 0 # replicate (n - Suc (length src)) 0"
    using assms(2) by (metis Suc_diff_Suc replicate_Suc)
  then show ?thesis using assms(2) unfolding strncpy_def src by simp
qed

lemma cstr_strncpy: "0 \<notin> set src \<Longrightarrow> length src < n \<Longrightarrow> cstr k (strncpy dst src n) = take k src"
  by (simp add: strncpy_short cstr_terminated)

section \<open>Numbers as text\<close>

definition ascii :: "string \<Rightarrow> byte list" where
  "ascii s = map of_char s"

fun dec_nat :: "nat \<Rightarrow> byte list" where
  "dec_nat n = (if n < 10 then [of_nat (48 + n)] else dec_nat (n div 10) @ [of_nat (48 + n mod 10)])"

declare dec_nat.simps [simp del]

text \<open>\<^verbatim>\<open>printf\<close> of \<^verbatim>\<open>%d\<close>.\<close>

definition dec_int :: "int \<Rightarrow> byte list" where
  "dec_int i = (if i < 0 then ascii ''-'' @ dec_nat (nat (- i)) else dec_nat (nat i))"

lemma length_dec_nat: "length (dec_nat n) \<le> Suc n"
proof (induction n rule: dec_nat.induct)
  case (1 n)
  show ?case
  proof (cases "n < 10")
    case True
    then show ?thesis by (simp add: dec_nat.simps)
  next
    case False
    with 1 have "length (dec_nat (n div 10)) \<le> Suc (n div 10)" by simp
    with False show ?thesis by (subst dec_nat.simps) simp
  qed
qed

lemma length_dec_nat_power: "0 < j \<Longrightarrow> v < 10 ^ j \<Longrightarrow> length (dec_nat v) \<le> j"
proof (induction j arbitrary: v)
  case (Suc j)
  show ?case
  proof (cases "v < 10")
    case True
    then show ?thesis by (simp add: dec_nat.simps [of v])
  next
    case False
    have "v div 10 < 10 ^ j" using Suc.prems(2) by (simp add: less_mult_imp_div_less mult.commute)
    moreover from False Suc.prems(2) have "0 < j" by (cases j) auto
    ultimately show ?thesis using Suc.IH [of "v div 10"] False by (simp add: dec_nat.simps [of v])
  qed
qed simp

lemma digit_nonzero: "k < 10 \<Longrightarrow> (of_nat (48 + k) :: byte) \<noteq> 0"
proof -
  assume "k < 10"
  then have "unat (of_nat (48 + k) :: byte) = 48 + k" by (simp add: unsigned_of_nat take_bit_nat_eq_self del: of_nat_add)
  then show ?thesis by (metis add_is_0 unat_eq_zero zero_neq_numeral)
qed

lemma dec_nat_nonzero: "0 \<notin> set (dec_nat n)"
proof (induction n rule: dec_nat.induct)
  case (1 n)
  then show ?case using digit_nonzero [of n] digit_nonzero [of "n mod 10"]
    by (subst dec_nat.simps) (auto simp del: of_nat_add)
qed

fun digits_value :: "nat \<Rightarrow> byte list \<Rightarrow> nat" where
  "digits_value acc [] = acc"
| "digits_value acc (c # cs) = digits_value (acc * 10 + (unat c - 48)) cs"

definition is_digit :: "byte \<Rightarrow> bool" where
  "is_digit c \<longleftrightarrow> 48 \<le> c \<and> c \<le> 57"

definition is_space :: "byte \<Rightarrow> bool" where
  "is_space c \<longleftrightarrow> c = 32 \<or> 9 \<le> c \<and> c \<le> 13"

definition LONG_MAX :: int where
  "LONG_MAX = 2 ^ 63 - 1"

definition LONG_MIN :: int where
  "LONG_MIN = - (2 ^ 63)"

text \<open>
  \<^verbatim>\<open>strtol(s, &end, 10)\<close>: white space, an optional sign, digits; the value is limited to the range of \<^verbatim>\<open>long\<close>.  Without a digit
  the value is 0 and the whole string is left.
\<close>

definition strtol :: "byte list \<Rightarrow> int \<times> byte list" where
  "strtol s =
     (let t = dropWhile is_space s;
          neg = (t \<noteq> [] \<and> hd t = 45);
          u = (if t \<noteq> [] \<and> (hd t = 45 \<or> hd t = 43) then tl t else t);
          ds = takeWhile is_digit u;
          v = int (digits_value 0 ds)
      in if ds = [] then (0, s)
         else (if neg then max LONG_MIN (- v) else min LONG_MAX v, dropWhile is_digit u))"

lemma digit_value: "k < 10 \<Longrightarrow> unat (of_nat (48 + k) :: byte) - 48 = k"
  by (simp add: unsigned_of_nat take_bit_nat_eq_self del: of_nat_add)

lemma is_digit_nat: "k < 10 \<Longrightarrow> is_digit (of_nat (48 + k))"
proof -
  assume "k < 10"
  then have "unat (of_nat (48 + k) :: byte) = 48 + k" by (simp add: unsigned_of_nat take_bit_nat_eq_self del: of_nat_add)
  then show ?thesis using \<open>k < 10\<close> unfolding is_digit_def word_le_nat_alt by simp
qed

lemma digits_value_append: "digits_value acc (cs @ ds) = digits_value (digits_value acc cs) ds"
  by (induction cs arbitrary: acc) auto

lemma digits_value_snoc: "digits_value 0 (cs @ [c]) = digits_value 0 cs * 10 + (unat c - 48)"
  by (simp add: digits_value_append)

lemma digits_value_dec_nat: "digits_value 0 (dec_nat n) = n"
proof (induction n rule: dec_nat.induct)
  case (1 n)
  then show ?case using digit_value [of n] digit_value [of "n mod 10"]
    by (subst dec_nat.simps) (auto simp: digits_value_snoc simp del: of_nat_add)
qed

lemma dec_nat_digits: "\<forall>c \<in> set (dec_nat n). is_digit c"
proof (induction n rule: dec_nat.induct)
  case (1 n)
  then show ?case using is_digit_nat [of n] is_digit_nat [of "n mod 10"]
    by (subst dec_nat.simps) (auto simp del: of_nat_add)
qed

lemma dec_nat_not_Nil [simp]: "dec_nat n \<noteq> []"
  by (subst dec_nat.simps) simp

lemma digit_less: "is_digit c \<Longrightarrow> unat c - 48 < 10"
  unfolding is_digit_def word_le_nat_alt by auto

lemma digits_value_less: "\<forall>c \<in> set cs. is_digit c \<Longrightarrow> digits_value 0 cs < 10 ^ length cs"
proof (induction cs rule: rev_induct)
  case (snoc c cs)
  then have "unat c - 48 < 10" "digits_value 0 cs < 10 ^ length cs" by (auto simp: digit_less)
  then show ?case unfolding digits_value_snoc by simp
qed simp

lemma digit_not_space: "is_digit c \<Longrightarrow> \<not> is_space c \<and> c \<noteq> 45 \<and> c \<noteq> 43"
  unfolding is_digit_def is_space_def word_le_nat_alt word_unat_eq_iff by auto

lemma strtol_digits:
  assumes "\<forall>c \<in> set s. is_digit c"
  shows "strtol s = (min LONG_MAX (int (digits_value 0 s)), [])"
proof (cases s)
  case Nil
  then show ?thesis by (simp add: strtol_def LONG_MAX_def)
next
  case (Cons c cs)
  then have "takeWhile is_digit s = s" "dropWhile is_digit s = []" "dropWhile is_space s = s" "hd s \<noteq> 45" "hd s \<noteq> 43"
    using assms digit_not_space [of c] by (simp_all add: takeWhile_eq_all_conv)
  with Cons show ?thesis by (simp add: strtol_def Let_def)
qed

end
