(* ===== verification/C_Int.thy ===== *)
theory C_Int
  imports Prelude "HOL-Library.Signed_Division"
begin

text \<open>
  C integers that the program uses as numbers rather than as bit patterns: an \<^verbatim>\<open>int\<close> is an \<^typ>\<open>int\<close> together with
  an explicit check that the result of an operation is representable.  Signed overflow is undefined in C and is
  \<open>None\<close> here.  Division and remainder truncate towards zero, as in C.
\<close>

definition INT_MIN :: int where
  "INT_MIN = - (2 ^ 31)"

definition INT_MAX :: int where
  "INT_MAX = 2 ^ 31 - 1"

definition in_int :: "int \<Rightarrow> bool" where
  "in_int x \<longleftrightarrow> INT_MIN \<le> x \<and> x \<le> INT_MAX"

definition int_result :: "int \<Rightarrow> int option" where
  "int_result x = (if in_int x then Some x else None)"

lemmas int_limits = in_int_def INT_MIN_def INT_MAX_def

text \<open>An array access at a C index: negative and too large indices leave the block.\<close>

definition at_index :: "'a list \<Rightarrow> int \<Rightarrow> 'a option" where
  "at_index xs i = (if 0 \<le> i \<and> i < int (length xs) then Some (xs ! nat i) else None)"

definition put_index :: "'a list \<Rightarrow> int \<Rightarrow> 'a \<Rightarrow> 'a list option" where
  "put_index xs i v = (if 0 \<le> i \<and> i < int (length xs) then Some (xs[nat i := v]) else None)"

lemma at_index_nat [simp]: "i < length xs \<Longrightarrow> at_index xs (int i) = Some (xs ! i)"
  by (simp add: at_index_def)

lemma put_index_nat [simp]: "i < length xs \<Longrightarrow> put_index xs (int i) v = Some (xs[i := v])"
  by (simp add: put_index_def)

lemma at_index_negative [simp]: "i < 0 \<Longrightarrow> at_index xs i = None"
  by (simp add: at_index_def)

lemma put_index_negative [simp]: "i < 0 \<Longrightarrow> put_index xs i v = None"
  by (simp add: put_index_def)

lemma sdiv_nat [simp]: "0 < k \<Longrightarrow> int i sdiv int k = int (i div k)"
  by (cases "i = 0") (simp_all add: signed_divide_int_def sgn_if zdiv_int)

lemma smod_nat [simp]: "0 < k \<Longrightarrow> int i smod int k = int (i mod k)"
  by (cases "i = 0") (simp_all add: signed_modulo_int_def minus_div_mult_eq_mod zmod_int zdiv_int)

text \<open>Small numbers survive the conversion to a word.\<close>

lemma unat_of_nat32: "n < 2 ^ 32 \<Longrightarrow> unat (of_nat n :: 32 word) = n"
  by (simp add: unsigned_of_nat take_bit_nat_eq_self)

section \<open>Runs that may abort\<close>

text \<open>\<open>Aborted\<close> is \<^verbatim>\<open>abort\<close> or a failed \<^verbatim>\<open>assert\<close>.\<close>

datatype 'a run = Aborted | Done 'a

definition andthen :: "'a run option \<Rightarrow> ('a \<Rightarrow> 'b run option) \<Rightarrow> 'b run option" where
  "andthen m f = (case m of None \<Rightarrow> None | Some Aborted \<Rightarrow> Some Aborted | Some (Done x) \<Rightarrow> f x)"

lemma andthen_simps [simp]: "andthen None f = None" "andthen (Some Aborted) f = Some Aborted" "andthen (Some (Done x)) f = f x"
  by (simp_all add: andthen_def)

lemma andthen_Done: "andthen m f = Some (Done y) \<longleftrightarrow> (\<exists>x. m = Some (Done x) \<and> f x = Some (Done y))"
  by (auto simp: andthen_def split: option.splits run.splits)

end
