(* ===== verification/Fault_Inject.thy ===== *)
theory Fault_Inject
  imports C_String C_Int Rbtree_Walk
begin

text \<open>
  Fault injection (\<^verbatim>\<open>include/fault_inject.h\<close>, \<^verbatim>\<open>src/fault_inject.c\<close>): a registry of named faults, kept in a
  red-black tree ordered by name, and the decision whether a fault fires.

  A \<^verbatim>\<open>fault_inject_internal_t\<close> embeds the item, the callback and the tree node at fixed offsets, so all three
  are named by the address of the node; the tree part is the memory of \<open>Rbtree\<close>, the rest is \<open>ft_items\<close>.
  \<^verbatim>\<open>malloc\<close> is an argument: the address it returns (\<^verbatim>\<open>NULL\<close> when it fails) and the indeterminate contents of the
  block.  \<^verbatim>\<open>int32_t\<close> fields are 32-bit words read as signed; signed overflow is undefined, hence \<open>None\<close>.
\<close>

section \<open>State\<close>

definition FAULT_INJECT_NAME_SIZE :: nat where "FAULT_INJECT_NAME_SIZE = 64"

definition INT_MAX :: "32 word" where "INT_MAX = 0x7FFFFFFF"

type_synonym priv_cb = "64 word \<Rightarrow> 64 word \<Rightarrow> bool"

record fault_inject_t =
  fi_name :: "byte list"
  fi_enable :: bool
  fi_sleep_time :: "32 word"
  fi_after_times :: "32 word"
  fi_enable_times :: "32 word"
  fi_inject_err :: "32 word"
  fi_hit_times :: "32 word"
  fi_priv :: "64 word"

record fault_inject_internal_t =
  fi_item :: fault_inject_t
  fi_callback :: "priv_cb option"

record fault_gloabl_t =
  ft_tree :: "unit rb_mem"
  ft_items :: "addr \<rightharpoonup> fault_inject_internal_t"

definition int32_add :: "32 word \<Rightarrow> 32 word \<Rightarrow> 32 word option" where
  "int32_add a b = (let r = sint a + sint b in if - (2 ^ 31) \<le> r \<and> r < 2 ^ 31 then Some (word_of_int r) else None)"

definition int32_sub :: "32 word \<Rightarrow> 32 word \<Rightarrow> 32 word option" where
  "int32_sub a b = (let r = sint a - sint b in if - (2 ^ 31) \<le> r \<and> r < 2 ^ 31 then Some (word_of_int r) else None)"

section \<open>Operations\<close>

definition fi_name_at :: "fault_gloabl_t \<Rightarrow> addr \<Rightarrow> byte list" where
  "fi_name_at F a = (case ft_items F a of None \<Rightarrow> [] | Some i \<Rightarrow> fi_name (fi_item i))"

definition cmp_node :: "fault_gloabl_t \<Rightarrow> addr \<Rightarrow> addr \<Rightarrow> int" where
  "cmp_node F a b = strncmp FAULT_INJECT_NAME_SIZE (fi_name_at F a) (fi_name_at F b)"

definition cmp_key :: "fault_gloabl_t \<Rightarrow> byte list \<Rightarrow> addr \<Rightarrow> int" where
  "cmp_key F key a = strncmp FAULT_INJECT_NAME_SIZE key (fi_name_at F a)"

definition fault_inject_find :: "fault_gloabl_t \<Rightarrow> byte list \<Rightarrow> addr option" where
  "fault_inject_find F name = rb_find_first (cmp_key F name) (ft_tree F)"

definition fault_inject_del :: "fault_gloabl_t \<Rightarrow> byte list \<Rightarrow> (fault_gloabl_t \<times> addr) option" where
  "fault_inject_del F name =
     do { find \<leftarrow> rb_find_first (cmp_key F name) (ft_tree F);
          if find = NULL then Some (F, NULL)
          else do { t \<leftarrow> rb_erase (ft_tree F) find; Some (F\<lparr>ft_tree := t\<rparr>, find) } }"

definition fault_inject_reset :: "fault_inject_t \<Rightarrow> fault_inject_t" where
  "fault_inject_reset f =
     f\<lparr>fi_sleep_time := 0, fi_enable_times := INT_MAX, fi_after_times := 0, fi_enable := False,
       fi_inject_err := 0, fi_hit_times := 0\<rparr>"

definition fi_update :: "fault_gloabl_t \<Rightarrow> addr \<Rightarrow> (fault_inject_internal_t \<Rightarrow> fault_inject_internal_t) \<Rightarrow> fault_gloabl_t option" where
  "fi_update F a f = do { h \<leftarrow> store (ft_items F) a f; Some (F\<lparr>ft_items := h\<rparr>) }"

definition fi_on_item :: "(fault_inject_t \<Rightarrow> fault_inject_t) \<Rightarrow> fault_inject_internal_t \<Rightarrow> fault_inject_internal_t" where
  "fi_on_item g i = i\<lparr>fi_item := g (fi_item i)\<rparr>"

definition fault_inject_disable :: "fault_gloabl_t \<Rightarrow> byte list \<Rightarrow> fault_gloabl_t option" where
  "fault_inject_disable F name =
     do { fault \<leftarrow> fault_inject_find F name;
          if fault \<noteq> NULL then fi_update F fault (fi_on_item (\<lambda>f. f\<lparr>fi_enable := False\<rparr>)) else Some F }"

definition fault_inject_enable :: "fault_gloabl_t \<Rightarrow> byte list \<Rightarrow> fault_gloabl_t option" where
  "fault_inject_enable F name =
     do { fault \<leftarrow> fault_inject_find F name;
          if fault \<noteq> NULL then fi_update F fault (fi_on_item (\<lambda>f. f\<lparr>fi_enable := True\<rparr>)) else Some F }"

definition fault_inject_reinit :: "fault_gloabl_t \<Rightarrow> byte list \<Rightarrow> fault_gloabl_t option" where
  "fault_inject_reinit F name =
     do { fault \<leftarrow> fault_inject_find F name;
          if fault \<noteq> NULL then fi_update F fault (fi_on_item fault_inject_reset) else Some F }"

definition fi_assign :: "fault_inject_t \<Rightarrow> fault_inject_t \<Rightarrow> fault_inject_t" where
  "fi_assign new_fault f =
     f\<lparr>fi_sleep_time := fi_sleep_time new_fault, fi_enable_times := fi_enable_times new_fault,
       fi_after_times := fi_after_times new_fault, fi_enable := fi_enable new_fault,
       fi_inject_err := fi_inject_err new_fault, fi_hit_times := fi_hit_times new_fault\<rparr>"

definition fault_inject_init :: "fault_gloabl_t \<Rightarrow> byte list \<Rightarrow> fault_inject_t \<Rightarrow> fault_gloabl_t option" where
  "fault_inject_init F name new_fault =
     do { fault \<leftarrow> fault_inject_find F name;
          if fault \<noteq> NULL then fi_update F fault (fi_on_item (fi_assign new_fault)) else Some F }"

text \<open>The block \<^verbatim>\<open>malloc\<close> returned: an address and what the memory happens to hold.\<close>

record fi_block =
  blk_addr :: addr
  blk_node :: rb_node
  blk_internal :: fault_inject_internal_t

definition fi_malloc :: "fault_gloabl_t \<Rightarrow> fi_block \<Rightarrow> fault_gloabl_t" where
  "fi_malloc F b =
     (if blk_addr b = NULL then F
      else F\<lparr>ft_tree := (ft_tree F)\<lparr>rb_nodes := (rb_nodes (ft_tree F))(blk_addr b \<mapsto> blk_node b)\<rparr>,
             ft_items := (ft_items F)(blk_addr b \<mapsto> blk_internal b)\<rparr>)"

definition fault_inject_insert :: "fault_gloabl_t \<Rightarrow> fi_block \<Rightarrow> byte list \<Rightarrow> (fault_gloabl_t \<times> addr) option" where
  "fault_inject_insert F b name =
     do { let f = blk_addr b;
          let F = fi_malloc F b;
          F \<leftarrow> fi_update F f (fi_on_item (\<lambda>i. i\<lparr>fi_name := strncpy (fi_name i) name (FAULT_INJECT_NAME_SIZE - 1)\<rparr>));
          F \<leftarrow> fi_update F f (fi_callback_update (\<lambda>_. None));
          F \<leftarrow> fi_update F f (fi_on_item fault_inject_reset);
          t \<leftarrow> rb_add (cmp_node F) (ft_tree F) f;
          Some (F\<lparr>ft_tree := t\<rparr>, f) }"

definition fault_inject_register :: "fault_gloabl_t \<Rightarrow> fi_block \<Rightarrow> byte list \<Rightarrow> (fault_gloabl_t \<times> int) option" where
  "fault_inject_register F b name =
     do { fault \<leftarrow> fault_inject_find F name;
          F \<leftarrow> (if fault = NULL then map_option fst (fault_inject_insert F b name) else Some F);
          Some (F, 0) }"

definition fault_inject_register_priv ::
  "fault_gloabl_t \<Rightarrow> fi_block \<Rightarrow> byte list \<Rightarrow> priv_cb option \<Rightarrow> fault_gloabl_t option" where
  "fault_inject_register_priv F b name cb =
     do { fault \<leftarrow> fault_inject_find F name;
          if fault = NULL
          then do { (F, f) \<leftarrow> fault_inject_insert F b name;
                    fi_update F f (fi_callback_update (\<lambda>_. cb)) }
          else Some F }"

definition fi_free :: "fault_gloabl_t \<Rightarrow> addr \<Rightarrow> fault_gloabl_t option" where
  "fi_free F a =
     do { h \<leftarrow> release (rb_nodes (ft_tree F)) a;
          i \<leftarrow> release (ft_items F) a;
          Some (F\<lparr>ft_tree := (ft_tree F)\<lparr>rb_nodes := h\<rparr>, ft_items := i\<rparr>) }"

definition fault_inject_unregister :: "fault_gloabl_t \<Rightarrow> byte list \<Rightarrow> (fault_gloabl_t \<times> int) option" where
  "fault_inject_unregister F name =
     do { (F, internal) \<leftarrow> fault_inject_del F name;
          F \<leftarrow> (if internal \<noteq> NULL then fi_free F internal else Some F);
          Some (F, 0) }"

text \<open>
  The tests of \<^verbatim>\<open>fault_inject_cond_get\<close> on one fault: the new \<^verbatim>\<open>hit_times\<close> and whether the fault fires.
\<close>

definition fi_window :: "fault_inject_t \<Rightarrow> 32 word \<Rightarrow> bool option" where
  "fi_window f hits =
     (if sint hits \<le> sint (fi_after_times f) then Some False
      else do { d \<leftarrow> int32_sub hits (fi_after_times f);
                Some (\<not> sint d > sint (fi_enable_times f)) })"

text \<open>The result is the new state, the fault or \<^verbatim>\<open>NULL\<close>, and the argument of \<^verbatim>\<open>sleep\<close> (0 when it is not called).\<close>

definition fault_inject_cond_get ::
  "fault_gloabl_t \<Rightarrow> byte list \<Rightarrow> 64 word \<Rightarrow> (fault_gloabl_t \<times> addr \<times> int) option" where
  "fault_inject_cond_get F name priv_arg =
     do { fault \<leftarrow> fault_inject_find F name;
          if fault = NULL then Some (F, NULL, 0)
          else do {
            i \<leftarrow> load (ft_items F) fault;
            if fi_enable (fi_item i)
            then do {
              hits \<leftarrow> int32_add (fi_hit_times (fi_item i)) 1;
              F \<leftarrow> fi_update F fault (fi_on_item (\<lambda>f. f\<lparr>fi_hit_times := hits\<rparr>));
              w \<leftarrow> fi_window (fi_item i) hits;
              if \<not> w then Some (F, NULL, 0)
              else if (case fi_callback i of None \<Rightarrow> True | Some cb \<Rightarrow> cb priv_arg (fi_priv (fi_item i)))
              then Some (F, fault, if sint (fi_sleep_time (fi_item i)) > 0 then sint (fi_sleep_time (fi_item i)) else 0)
              else Some (F, NULL, 0) }
            else Some (F, NULL, 0) } }"


section \<open>The registry as a map\<close>

definition fi_key :: "fault_gloabl_t \<Rightarrow> addr \<Rightarrow> byte list" where
  "fi_key F a = cstr FAULT_INJECT_NAME_SIZE (fi_name_at F a)"

definition fi_wf :: "fault_gloabl_t \<Rightarrow> addr list \<Rightarrow> bool" where
  "fi_wf F xs \<longleftrightarrow> rb_idx (ft_tree F) xs \<and> (\<forall>a\<in>set xs. ft_items F a \<noteq> None) \<and>
     sorted (map (fi_key F) xs) \<and> distinct (map (fi_key F) xs)"

definition fi_map :: "fault_gloabl_t \<Rightarrow> addr list \<Rightarrow> byte list \<rightharpoonup> fault_inject_internal_t" where
  "fi_map F xs k = (case find (\<lambda>a. fi_key F a = k) xs of None \<Rightarrow> None | Some a \<Rightarrow> ft_items F a)"

text \<open>\<open>fi_rel F M\<close>: the tree and the items in memory hold the map \<open>M\<close> from names to faults.\<close>

definition fi_rel :: "fault_gloabl_t \<Rightarrow> (byte list \<rightharpoonup> fault_inject_internal_t) \<Rightarrow> bool" where
  "fi_rel F M \<longleftrightarrow> (\<exists>xs. fi_wf F xs \<and> M = fi_map F xs)"

lemma cmp_node_less: "cmp_node F a b < 0 \<longleftrightarrow> fi_key F a < fi_key F b"
  by (simp add: cmp_node_def fi_key_def strncmp_less_0)

lemma cmp_key_sign:
  "cmp_key F k a < 0 \<longleftrightarrow> cstr FAULT_INJECT_NAME_SIZE k < fi_key F a"
  "cmp_key F k a = 0 \<longleftrightarrow> cstr FAULT_INJECT_NAME_SIZE k = fi_key F a"
  by (simp_all add: cmp_key_def fi_key_def strncmp_less_0 strncmp_eq_0)

lemma find_SomeD: "find P xs = Some x \<Longrightarrow> x \<in> set xs \<and> P x"
  by (auto simp: find_Some_iff)

lemma find_distinct_key:
  "distinct (map key xs) \<Longrightarrow> find (\<lambda>a. key a = k) xs = Some a \<longleftrightarrow> a \<in> set xs \<and> key a = k"
  by (induction xs) (auto simp: image_iff)

lemma fi_find_wf:
  assumes "fi_wf F xs"
  shows "fault_inject_find F name =
    Some (case find (\<lambda>a. fi_key F a = cstr FAULT_INJECT_NAME_SIZE name) xs of None \<Rightarrow> NULL | Some a \<Rightarrow> a)"
  using assms unfolding fi_wf_def fault_inject_find_def
  by (intro rbi.search_law) (auto simp: cmp_key_sign)

lemma fi_wf_nodes: "fi_wf F xs \<Longrightarrow> a \<in> set xs \<Longrightarrow> a \<noteq> NULL \<and> (\<exists>i. ft_items F a = Some i)"
  using rbi.idx_distinct by (auto simp: fi_wf_def)

text \<open>The two outcomes of a search.\<close>

lemma fi_find_cases:
  assumes "fi_wf F xs"
  obtains "fault_inject_find F name = Some NULL" and "fi_map F xs (cstr FAULT_INJECT_NAME_SIZE name) = None"
      and "\<And>a. a \<in> set xs \<Longrightarrow> fi_key F a \<noteq> cstr FAULT_INJECT_NAME_SIZE name"
  | a i where "fault_inject_find F name = Some a" and "a \<in> set xs" and "a \<noteq> NULL" and "ft_items F a = Some i"
      and "fi_key F a = cstr FAULT_INJECT_NAME_SIZE name" and "fi_map F xs (cstr FAULT_INJECT_NAME_SIZE name) = Some i"
proof (cases "find (\<lambda>a. fi_key F a = cstr FAULT_INJECT_NAME_SIZE name) xs")
  case None
  with fi_find_wf [OF assms, of name] that(1) show thesis by (auto simp: fi_map_def find_None_iff)
next
  case (Some a)
  then have "a \<in> set xs" "fi_key F a = cstr FAULT_INJECT_NAME_SIZE name" by (auto simp: find_Some_iff)
  with Some fi_find_wf [OF assms, of name] fi_wf_nodes [OF assms] that(2) show thesis
    by (fastforce simp: fi_map_def)
qed

lemma fi_update_wf:
  assumes wf: "fi_wf F xs" and a: "a \<in> set xs" and i: "ft_items F a = Some i"
    and name: "fi_name (fi_item (f i)) = fi_name (fi_item i)"
  shows "\<exists>F'. fi_update F a f = Some F' \<and> fi_wf F' xs \<and> fi_map F' xs = (fi_map F xs)(fi_key F a \<mapsto> f i)"
proof -
  let ?F = "F\<lparr>ft_items := (ft_items F)(a \<mapsto> f i)\<rparr>"
  have key: "fi_key ?F = fi_key F" using i name by (auto simp: fi_key_def fi_name_at_def fun_eq_iff)
  have "fi_update F a f = Some ?F" using fi_wf_nodes [OF wf a] i by (simp add: fi_update_def mem_simps)
  moreover have "fi_wf ?F xs" using wf by (simp add: fi_wf_def key)
  moreover have "fi_map ?F xs = (fi_map F xs)(fi_key F a \<mapsto> f i)"
  proof
    fix k
    have d: "distinct (map (fi_key F) xs)" using wf by (simp add: fi_wf_def)
    show "fi_map ?F xs k = ((fi_map F xs)(fi_key F a \<mapsto> f i)) k"
    proof (cases "k = fi_key F a")
      case True
      then have "find (\<lambda>a. fi_key F a = k) xs = Some a" using find_distinct_key [OF d] a by simp
      with True show ?thesis by (simp add: fi_map_def key)
    next
      case False
      then show ?thesis by (cases "find (\<lambda>a. fi_key F a = k) xs") (auto simp: fi_map_def key dest: find_SomeD)
    qed
  qed
  ultimately show ?thesis by blast
qed

text \<open>Every operation that finds a fault and writes some of its fields.\<close>

definition fi_modify ::
  "(byte list \<rightharpoonup> fault_inject_internal_t) \<Rightarrow> byte list \<Rightarrow> (fault_inject_t \<Rightarrow> fault_inject_t) \<Rightarrow>
   byte list \<rightharpoonup> fault_inject_internal_t" where
  "fi_modify M k g = (case M k of None \<Rightarrow> M | Some i \<Rightarrow> M(k \<mapsto> fi_on_item g i))"

lemma fi_modify_refines:
  assumes "fi_rel F M" and "\<And>f. fi_name (g f) = fi_name f"
  shows "\<exists>F'. do { fault \<leftarrow> fault_inject_find F name;
                   if fault \<noteq> NULL then fi_update F fault (fi_on_item g) else Some F } = Some F' \<and>
    fi_rel F' (fi_modify M (cstr FAULT_INJECT_NAME_SIZE name) g)"
proof -
  obtain xs where wf: "fi_wf F xs" and M: "M = fi_map F xs" using assms(1) by (auto simp: fi_rel_def)
  from wf show ?thesis
  proof (cases rule: fi_find_cases [of F xs name])
    case 1
    then show ?thesis using assms(1) M by (simp add: fi_modify_def)
  next
    case (2 a i)
    obtain F' where "fi_update F a (fi_on_item g) = Some F'" "fi_wf F' xs"
        "fi_map F' xs = (fi_map F xs)(fi_key F a \<mapsto> fi_on_item g i)"
      using fi_update_wf [OF wf 2(2,4), of "fi_on_item g"] assms(2) by (auto simp: fi_on_item_def)
    with 2 M show ?thesis by (auto simp: fi_modify_def fi_rel_def)
  qed
qed


section \<open>Registration\<close>

definition fi_fresh :: "byte list \<Rightarrow> fi_block \<Rightarrow> priv_cb option \<Rightarrow> fault_inject_internal_t" where
  "fi_fresh name b cb =
     \<lparr>fi_item = fault_inject_reset (fi_item (blk_internal b))
        \<lparr>fi_name := strncpy (fi_name (fi_item (blk_internal b))) name (FAULT_INJECT_NAME_SIZE - 1)\<rparr>,
      fi_callback = cb\<rparr>"

text \<open>\<^verbatim>\<open>malloc\<close> succeeded: an aligned block that was not in use.\<close>

definition fi_block_ok :: "fault_gloabl_t \<Rightarrow> fi_block \<Rightarrow> bool" where
  "fi_block_ok F b \<longleftrightarrow> node_addr (blk_addr b) \<and> rb_nodes (ft_tree F) (blk_addr b) = None"

definition fi_good_name :: "byte list \<Rightarrow> bool" where
  "fi_good_name name \<longleftrightarrow> 0 \<notin> set name \<and> length name < FAULT_INJECT_NAME_SIZE - 1"

lemma distinct_place_after:
  "distinct (map key (place_after key n xs)) \<longleftrightarrow> distinct (map key xs) \<and> key n \<notin> key ` set xs"
  by (induction xs) auto

lemma find_remove1_key:
  "distinct (map key xs) \<Longrightarrow> a \<in> set xs \<Longrightarrow>
   find (\<lambda>x. key x = k) (remove1 a xs) = (if k = key a then None else find (\<lambda>x. key x = k) xs)"
  by (induction xs) (auto simp: find_None_iff image_iff)

lemma distinct_map_remove1: "distinct (map key xs) \<Longrightarrow> distinct (map key (remove1 a xs))"
  by (induction xs) (auto dest: in_set_remove1 [THEN iffD1, rotated] notin_set_remove1)

lemma rb_idx_frame: "rb_idx m xs \<Longrightarrow> a \<notin> set xs \<Longrightarrow> rb_idx (m\<lparr>rb_nodes := (rb_nodes m)(a := v)\<rparr>) xs"
  by (auto simp: rb_idx_def rb_repr_def)

lemma rb_idx_owned: "rb_idx m xs \<Longrightarrow> a \<in> set xs \<Longrightarrow> rb_nodes m a \<noteq> None"
  using tree_at_nodes by (fastforce simp: rb_idx_def rb_repr_def)

text \<open>The state after the new block is filled in, before it is linked.\<close>

definition fi_filled :: "fault_gloabl_t \<Rightarrow> fi_block \<Rightarrow> byte list \<Rightarrow> fault_gloabl_t" where
  "fi_filled F b name =
     F\<lparr>ft_tree := (ft_tree F)\<lparr>rb_nodes := (rb_nodes (ft_tree F))(blk_addr b \<mapsto> blk_node b)\<rparr>,
       ft_items := (ft_items F)(blk_addr b \<mapsto> fi_fresh name b None)\<rparr>"

lemma fi_insert_exec:
  assumes "blk_addr b \<noteq> NULL"
  shows "fault_inject_insert F b name =
    map_option (\<lambda>t. ((fi_filled F b name)\<lparr>ft_tree := t\<rparr>, blk_addr b))
      (rb_add (cmp_node (fi_filled F b name)) (ft_tree (fi_filled F b name)) (blk_addr b))"
proof -
  obtain it cb where "blk_internal b = \<lparr>fi_item = it, fi_callback = cb\<rparr>" by (cases "blk_internal b") auto
  then show ?thesis using assms
    by (cases it) (simp add: fault_inject_insert_def fi_malloc_def fi_update_def fi_on_item_def fi_fresh_def
      mem_simps fault_inject_reset_def fi_filled_def map_conv_bind_option Let_def o_def)
qed

text \<open>The name the comparison functions see once the block is filled in.\<close>

definition fi_stored_key :: "fi_block \<Rightarrow> byte list \<Rightarrow> byte list" where
  "fi_stored_key b name =
     cstr FAULT_INJECT_NAME_SIZE (strncpy (fi_name (fi_item (blk_internal b))) name (FAULT_INJECT_NAME_SIZE - 1))"

lemma fi_stored_key_good: "fi_good_name name \<Longrightarrow> fi_stored_key b name = name"
  using cstr_strncpy [of name "FAULT_INJECT_NAME_SIZE - 1" FAULT_INJECT_NAME_SIZE]
  by (auto simp: fi_stored_key_def fi_good_name_def)

lemma fi_key_filled: "fi_key (fi_filled F b name) x = (if x = blk_addr b then fi_stored_key b name else fi_key F x)"
  by (auto simp: fi_key_def fi_name_at_def fi_fresh_def fi_filled_def fi_stored_key_def)

lemma fi_key_tree [simp]: "fi_key (F\<lparr>ft_tree := t\<rparr>) = fi_key F"
  by (simp add: fi_key_def fi_name_at_def fun_eq_iff)

lemma fi_link_wf:
  assumes F: "rb_idx (ft_tree F) xs" "rb_room (ft_tree F) a" "a \<notin> set xs" "sorted (map (fi_key F) xs)"
    "distinct (map (fi_key F) xs)" "\<forall>x\<in>set xs. ft_items F x \<noteq> None" "ft_items F a \<noteq> None"
    and new: "\<And>x. x \<in> set xs \<Longrightarrow> fi_key F x \<noteq> fi_key F a"
  shows "\<exists>t xs'. rb_add (cmp_node F) (ft_tree F) a = Some t \<and> fi_wf (F\<lparr>ft_tree := t\<rparr>) xs' \<and> a \<in> set xs' \<and>
    fi_map (F\<lparr>ft_tree := t\<rparr>) xs' = (fi_map F xs)(fi_key F a := ft_items F a)"
proof -
  let ?xs = "place_after (fi_key F) a xs"
  obtain t where t: "rb_add (cmp_node F) (ft_tree F) a = Some t" "rb_idx t ?xs"
    using rbi.add_law [OF F(1-4), of "cmp_node F"] cmp_node_less by auto
  have "fi_key F a \<notin> fi_key F ` set xs" using new by (metis image_iff)
  then have "fi_wf (F\<lparr>ft_tree := t\<rparr>) ?xs"
    using t F(5-7) sorted_place_after [OF F(4), of a] by (simp add: fi_wf_def distinct_place_after)
  moreover have "fi_map (F\<lparr>ft_tree := t\<rparr>) ?xs = (fi_map F xs)(fi_key F a := ft_items F a)"
    using find_place_after [of xs "fi_key F" a] new by (auto simp: fi_map_def fun_eq_iff split: option.split)
  ultimately show ?thesis using t(1) by fastforce
qed

lemma fi_insert_wf:
  assumes wf: "fi_wf F xs" and b: "fi_block_ok F b"
    and new: "\<And>a. a \<in> set xs \<Longrightarrow> fi_key F a \<noteq> fi_stored_key b name"
  shows "\<exists>F' xs'. fault_inject_insert F b name = Some (F', blk_addr b) \<and> fi_wf F' xs' \<and> blk_addr b \<in> set xs' \<and>
    ft_items F' (blk_addr b) = Some (fi_fresh name b None) \<and> fi_key F' (blk_addr b) = fi_stored_key b name \<and>
    fi_map F' xs' = (fi_map F xs)(fi_stored_key b name \<mapsto> fi_fresh name b None)"
proof -
  define a where "a = blk_addr b"
  define F1 where "F1 = fi_filled F b name"
  have a: "a \<noteq> NULL" "node_addr a" "a \<notin> set xs"
    using b wf rb_idx_owned [of "ft_tree F" xs "blk_addr b"] by (auto simp: fi_block_ok_def fi_wf_def a_def)
  have F1: "ft_tree F1 = (ft_tree F)\<lparr>rb_nodes := (rb_nodes (ft_tree F))(a \<mapsto> blk_node b)\<rparr>"
    "ft_items F1 = (ft_items F)(a \<mapsto> fi_fresh name b None)"
    by (simp_all add: F1_def fi_filled_def a_def)
  have key: "fi_key F1 x = (if x = a then fi_stored_key b name else fi_key F x)" for x
    by (simp add: F1_def a_def fi_key_filled)
  have keys: "map (fi_key F1) xs = map (fi_key F) xs" using a(3) by (auto simp: key)
  have idx: "rb_idx (ft_tree F1) xs" "rb_room (ft_tree F1) a"
    using wf a rb_idx_frame [of "ft_tree F" xs a] by (auto simp: fi_wf_def rb_room_def F1)
  have nokey: "fi_key F1 x \<noteq> fi_key F1 a" if "x \<in> set xs" for x using new [OF that] that a(3) by (auto simp: key)
  have "\<exists>t xs'. rb_add (cmp_node F1) (ft_tree F1) a = Some t \<and> fi_wf (F1\<lparr>ft_tree := t\<rparr>) xs' \<and> a \<in> set xs' \<and>
      fi_map (F1\<lparr>ft_tree := t\<rparr>) xs' = (fi_map F1 xs)(fi_key F1 a := ft_items F1 a)"
    by (rule fi_link_wf [OF idx a(3)]) (use wf nokey in \<open>auto simp: keys fi_wf_def F1\<close>)
  then obtain t xs' where t: "rb_add (cmp_node F1) (ft_tree F1) a = Some t" "fi_wf (F1\<lparr>ft_tree := t\<rparr>) xs'" "a \<in> set xs'"
      "fi_map (F1\<lparr>ft_tree := t\<rparr>) xs' = (fi_map F1 xs)(fi_key F1 a := ft_items F1 a)" by blast
  moreover have "fi_map F1 xs = fi_map F xs"
  proof
    fix k
    have "find (\<lambda>x. fi_key F1 x = k) xs = find (\<lambda>x. fi_key F x = k) xs"
      using a(3) by (intro find_cong) (auto simp: key)
    then show "fi_map F1 xs k = fi_map F xs k"
      using a(3) by (auto simp: fi_map_def F1 dest: find_SomeD split: option.split)
  qed
  moreover have "fault_inject_insert F b name = Some (F1\<lparr>ft_tree := t\<rparr>, a)"
    using fi_insert_exec [of b F name] a(1) t(1) by (simp add: F1_def a_def)
  ultimately show ?thesis
    by (intro exI [of _ "F1\<lparr>ft_tree := t\<rparr>"] exI [of _ xs']) (simp add: key F1(2) flip: a_def)
qed

lemma fi_key_good [simp]: "fi_good_name name \<Longrightarrow> cstr FAULT_INJECT_NAME_SIZE name = name"
  by (auto simp: fi_good_name_def cstr_plain)

lemma fi_register_refines:
  assumes "fi_rel F M" and "fi_block_ok F b" and "fi_good_name name"
  shows "\<exists>F'. fault_inject_register F b name = Some (F', 0) \<and>
    fi_rel F' (if M name = None then M(name \<mapsto> fi_fresh name b None) else M)"
proof -
  obtain xs where wf: "fi_wf F xs" and M: "M = fi_map F xs" using assms(1) by (auto simp: fi_rel_def)
  from wf show ?thesis
  proof (cases rule: fi_find_cases [of F xs name])
    case 1
    then obtain F' xs' where "fault_inject_insert F b name = Some (F', blk_addr b)" "fi_wf F' xs'"
        "fi_map F' xs' = (fi_map F xs)(name \<mapsto> fi_fresh name b None)"
      using fi_insert_wf [OF wf assms(2), of name] assms(3) by (auto simp: fi_stored_key_good)
    with 1 M assms(3) show ?thesis by (auto simp: fault_inject_register_def fi_rel_def)
  next
    case (2 a i)
    with M assms show ?thesis by (auto simp: fault_inject_register_def)
  qed
qed

lemma fi_register_priv_refines:
  assumes "fi_rel F M" and "fi_block_ok F b" and "fi_good_name name"
  shows "\<exists>F'. fault_inject_register_priv F b name cb = Some F' \<and>
    fi_rel F' (if M name = None then M(name \<mapsto> fi_fresh name b cb) else M)"
proof -
  obtain xs where wf: "fi_wf F xs" and M: "M = fi_map F xs" using assms(1) by (auto simp: fi_rel_def)
  from wf show ?thesis
  proof (cases rule: fi_find_cases [of F xs name])
    case 1
    then obtain F' xs' where F': "fault_inject_insert F b name = Some (F', blk_addr b)" "fi_wf F' xs'"
        "blk_addr b \<in> set xs'" "ft_items F' (blk_addr b) = Some (fi_fresh name b None)" "fi_key F' (blk_addr b) = name"
        "fi_map F' xs' = (fi_map F xs)(name \<mapsto> fi_fresh name b None)"
      using fi_insert_wf [OF wf assms(2), of name] assms(3) by (auto simp: fi_stored_key_good)
    have fresh: "fi_callback_update (\<lambda>_. cb) (fi_fresh name b None) = fi_fresh name b cb"
      by (simp add: fi_fresh_def)
    have "fi_name (fi_item (fi_callback_update (\<lambda>_. cb) (fi_fresh name b None))) = fi_name (fi_item (fi_fresh name b None))"
      by simp
    from fi_update_wf [OF F'(2-4), where f = "fi_callback_update (\<lambda>_. cb)", OF this]
    obtain F'' where "fi_update F' (blk_addr b) (fi_callback_update (\<lambda>_. cb)) = Some F''" "fi_wf F'' xs'"
        "fi_map F'' xs' = M(name \<mapsto> fi_fresh name b cb)"
      unfolding F'(5,6) M fresh fun_upd_upd by blast
    moreover have "M name = None" using 1 M assms(3) by simp
    ultimately show ?thesis using 1(1) F'(1) unfolding fault_inject_register_priv_def fi_rel_def
      by (intro exI [of _ F'']) auto
  next
    case (2 a i)
    with M assms show ?thesis by (auto simp: fault_inject_register_priv_def)
  qed
qed

section \<open>Removal\<close>

lemma fi_unregister_refines:
  assumes "fi_rel F M"
  shows "\<exists>F'. fault_inject_unregister F name = Some (F', 0) \<and> fi_rel F' (M(cstr FAULT_INJECT_NAME_SIZE name := None))"
proof -
  obtain xs where wf: "fi_wf F xs" and M: "M = fi_map F xs" using assms by (auto simp: fi_rel_def)
  let ?k = "cstr FAULT_INJECT_NAME_SIZE name"
  from wf show ?thesis
  proof (cases rule: fi_find_cases [of F xs name])
    case 1
    then have "M(?k := None) = M" using M by (simp add: fun_upd_idem)
    with 1 assms show ?thesis
      by (auto simp: fault_inject_unregister_def fault_inject_del_def fault_inject_find_def)
  next
    case (2 a i)
    have idx: "rb_idx (ft_tree F) xs" "distinct xs" "distinct (map (fi_key F) xs)" "sorted (map (fi_key F) xs)"
      using wf rbi.idx_distinct by (auto simp: fi_wf_def)
    obtain t' where t': "rb_erase (ft_tree F) a = Some t'" "rb_idx t' (remove1 a xs)" "rb_room t' a"
      using rbi.erase_law [OF idx(1) 2(2)] by blast
    let ?F = "F\<lparr>ft_tree := t'\<lparr>rb_nodes := (rb_nodes t')(a := None)\<rparr>, ft_items := (ft_items F)(a := None)\<rparr>"
    have key: "fi_key ?F x = fi_key F x" if "x \<in> set (remove1 a xs)" for x
      using that idx(2) by (auto simp: fi_key_def fi_name_at_def)
    have keys: "map (fi_key ?F) (remove1 a xs) = map (fi_key F) (remove1 a xs)" using key by simp
    have "rb_idx (ft_tree ?F) (remove1 a xs)"
      using rb_idx_frame [OF t'(2), of a None] idx(2) by simp
    then have "fi_wf ?F (remove1 a xs)" unfolding fi_wf_def keys
      using idx wf distinct_map_remove1 [OF idx(3)] sorted_map_remove1 [OF idx(4)] by (auto simp: fi_wf_def)
    moreover have "fi_map ?F (remove1 a xs) = M(?k := None)"
    proof
      fix k
      have "find (\<lambda>x. fi_key ?F x = k) (remove1 a xs) = find (\<lambda>x. fi_key F x = k) (remove1 a xs)"
        using key by (intro find_cong) auto
      also have "\<dots> = (if k = ?k then None else find (\<lambda>x. fi_key F x = k) xs)"
        using find_remove1_key [OF idx(3) 2(2)] 2(5) by simp
      finally show "fi_map ?F (remove1 a xs) k = (M(?k := None)) k"
        unfolding M fi_map_def using 2(5) by (auto dest: find_SomeD split: option.split)
    qed
    moreover have "fault_inject_unregister F name = Some (?F, 0)"
      using 2 t' by (simp add: fault_inject_unregister_def fault_inject_del_def fault_inject_find_def fi_free_def
          mem_simps rb_room_def release_def)
    ultimately show ?thesis by (auto simp: fi_rel_def)
  qed
qed


section \<open>When a fault fires\<close>

lemma sint32_of_int: "- (2 ^ 31) \<le> r \<Longrightarrow> r < 2 ^ 31 \<Longrightarrow> sint (word_of_int r :: 32 word) = r"
  by (simp add: sint_sbintrunc' signed_take_bit_int_eq_self)

lemma sint32_range: "- (2 ^ 31) \<le> sint w" "sint w < 2 ^ 31" for w :: "32 word"
  using sint_greater_eq [of w] sint_less [of w] by simp_all

lemma int32_add_in_range:
  assumes "- (2 ^ 31) \<le> sint a + sint b" and "sint a + sint b < 2 ^ 31"
  shows "\<exists>w. int32_add a b = Some w \<and> sint w = sint a + sint b"
proof -
  have "int32_add a b = Some (word_of_int (sint a + sint b))"
    unfolding int32_add_def Let_def using assms by (simp only: simp_thms if_True)
  with sint32_of_int [OF assms] show ?thesis by blast
qed

lemma int32_sub_in_range:
  assumes "- (2 ^ 31) \<le> sint a - sint b" and "sint a - sint b < 2 ^ 31"
  shows "\<exists>w. int32_sub a b = Some w \<and> sint w = sint a - sint b"
proof -
  have "int32_sub a b = Some (word_of_int (sint a - sint b))"
    unfolding int32_sub_def Let_def using assms by (simp only: simp_thms if_True)
  with sint32_of_int [OF assms] show ?thesis by blast
qed

lemma int32_inc:
  assumes "sint h < 2 ^ 31 - 1"
  shows "\<exists>w. int32_add h 1 = Some w \<and> sint w = sint h + 1"
  using int32_add_in_range [of h 1] assms sint32_range(1) [of h] by simp

lemma fi_window_value:
  assumes "0 \<le> sint (fi_after_times f)" and "0 \<le> sint w"
  shows "fi_window f w = Some (sint (fi_after_times f) < sint w \<and> sint w - sint (fi_after_times f) \<le> sint (fi_enable_times f))"
proof -
  have "- (2 ^ 31) \<le> sint w - sint (fi_after_times f)" "sint w - sint (fi_after_times f) < 2 ^ 31"
    using assms sint32_range [of w] sint32_range [of "fi_after_times f"] by linarith+
  from int32_sub_in_range [OF this] obtain d where "int32_sub w (fi_after_times f) = Some d"
      "sint d = sint w - sint (fi_after_times f)" by blast
  then show ?thesis by (auto simp: fi_window_def)
qed

text \<open>The decision of one call, on the state of the fault before the call.\<close>

definition fi_fires :: "fault_inject_internal_t \<Rightarrow> 64 word \<Rightarrow> bool" where
  "fi_fires i arg \<longleftrightarrow>
     (let f = fi_item i; n = sint (fi_hit_times f) + 1 in
      fi_enable f \<and> sint (fi_after_times f) < n \<and> n - sint (fi_after_times f) \<le> sint (fi_enable_times f) \<and>
      (case fi_callback i of None \<Rightarrow> True | Some cb \<Rightarrow> cb arg (fi_priv f)))"

definition fi_hit :: "fault_inject_t \<Rightarrow> fault_inject_t" where
  "fi_hit f = (if fi_enable f then f\<lparr>fi_hit_times := word_of_int (sint (fi_hit_times f) + 1)\<rparr> else f)"

lemma fi_cond_get_refines:
  assumes rel: "fi_rel F M" and i: "M (cstr FAULT_INJECT_NAME_SIZE name) = Some i"
    and range: "0 \<le> sint (fi_after_times (fi_item i))" "0 \<le> sint (fi_hit_times (fi_item i))"
      "sint (fi_hit_times (fi_item i)) < 2 ^ 31 - 1"
  shows "\<exists>F' a s. fault_inject_cond_get F name arg = Some (F', a, s) \<and>
    fi_rel F' (M(cstr FAULT_INJECT_NAME_SIZE name \<mapsto> fi_on_item fi_hit i)) \<and> (a \<noteq> NULL \<longleftrightarrow> fi_fires i arg) \<and>
    s = (if fi_fires i arg then max 0 (sint (fi_sleep_time (fi_item i))) else 0)"
proof -
  obtain xs where wf: "fi_wf F xs" and M: "M = fi_map F xs" using rel by (auto simp: fi_rel_def)
  obtain a where a: "fault_inject_find F name = Some a" "a \<in> set xs" "a \<noteq> NULL" "ft_items F a = Some i"
      "fi_key F a = cstr FAULT_INJECT_NAME_SIZE name"
    using wf i M by (cases rule: fi_find_cases [of F xs name]) auto
  have ld: "load (ft_items F) a = Some i" using a by simp
  show ?thesis
  proof (cases "fi_enable (fi_item i)")
    case False
    have "fi_on_item fi_hit i = i" using False by (simp add: fi_on_item_def fi_hit_def)
    then have "M(cstr FAULT_INJECT_NAME_SIZE name \<mapsto> fi_on_item fi_hit i) = M" using i by (simp add: fun_upd_idem)
    with False a ld rel show ?thesis
      by (simp add: fault_inject_cond_get_def fi_fires_def Let_def mem_simps)
  next
    case True
    obtain w where w: "int32_add (fi_hit_times (fi_item i)) 1 = Some w" "sint w = sint (fi_hit_times (fi_item i)) + 1"
      using int32_inc [OF range(3)] by blast
    let ?g = "fi_on_item (\<lambda>f. f\<lparr>fi_hit_times := w\<rparr>)"
    have g: "?g i = fi_on_item fi_hit i" using True w(2) by (simp add: fi_on_item_def fi_hit_def flip: w(2))
    obtain F' where F': "fi_update F a ?g = Some F'" "fi_wf F' xs"
        "fi_map F' xs = M(cstr FAULT_INJECT_NAME_SIZE name \<mapsto> ?g i)"
      using fi_update_wf [OF wf a(2,4), of ?g] by (auto simp: fi_on_item_def M a(5))
    have win: "fi_window (fi_item i) w = Some (sint (fi_after_times (fi_item i)) < sint w \<and>
        sint w - sint (fi_after_times (fi_item i)) \<le> sint (fi_enable_times (fi_item i)))"
      using fi_window_value [OF range(1)] range(2) w(2) by simp
    show ?thesis using True a F' ld w win g
      by (cases "fi_callback i") (auto simp: fault_inject_cond_get_def fi_fires_def fi_rel_def Let_def max_def mem_simps)
  qed
qed

text \<open>A run of consecutive calls and which of them fired.\<close>

fun fi_poll :: "fault_gloabl_t \<Rightarrow> byte list \<Rightarrow> 64 word \<Rightarrow> nat \<Rightarrow> (fault_gloabl_t \<times> bool list) option" where
  "fi_poll F name arg 0 = Some (F, [])"
| "fi_poll F name arg (Suc n) =
     do { (F, a, s) \<leftarrow> fault_inject_cond_get F name arg;
          (F, rs) \<leftarrow> fi_poll F name arg n;
          Some (F, (a \<noteq> NULL) # rs) }"

lemma fi_poll_window:
  assumes "fi_rel F M" and "M (cstr FAULT_INJECT_NAME_SIZE name) = Some i" and "fi_enable (fi_item i)" and "fi_callback i = None"
    and "sint (fi_hit_times (fi_item i)) = int h" and "0 \<le> sint (fi_after_times (fi_item i))" and "h + n < 2 ^ 31"
  shows "\<exists>F'. fi_poll F name arg n = Some (F', map (\<lambda>j. sint (fi_after_times (fi_item i)) < int j \<and>
      int j - sint (fi_after_times (fi_item i)) \<le> sint (fi_enable_times (fi_item i))) [Suc h ..< Suc (h + n)])"
  using assms
proof (induction n arbitrary: F M i h)
  case 0
  then show ?case by simp
next
  case (Suc n)
  let ?k = "cstr FAULT_INJECT_NAME_SIZE name"
  have h: "sint (fi_hit_times (fi_item i)) < 2 ^ 31 - 1" using Suc.prems(5,7) by simp
  obtain F1 a s where F1: "fault_inject_cond_get F name arg = Some (F1, a, s)" "fi_rel F1 (M(?k \<mapsto> fi_on_item fi_hit i))"
      "a \<noteq> NULL \<longleftrightarrow> fi_fires i arg"
    using fi_cond_get_refines [OF Suc.prems(1,2,6) _ h, of arg] unfolding Suc.prems(5) by auto
  let ?i = "fi_on_item fi_hit i"
  have i: "fi_enable (fi_item ?i)" "fi_callback ?i = None" "sint (fi_hit_times (fi_item ?i)) = int (Suc h)"
      "fi_after_times (fi_item ?i) = fi_after_times (fi_item i)" "fi_enable_times (fi_item ?i) = fi_enable_times (fi_item i)"
    using Suc.prems(3-5,7) sint32_of_int [of "int h + 1"] by (simp_all add: fi_on_item_def fi_hit_def)
  obtain F' where "fi_poll F1 name arg n = Some (F', map (\<lambda>j. sint (fi_after_times (fi_item i)) < int j \<and>
      int j - sint (fi_after_times (fi_item i)) \<le> sint (fi_enable_times (fi_item i))) [Suc (Suc h) ..< Suc (Suc h + n)])"
    using Suc.IH [OF F1(2) _ i(1,2,3)] Suc.prems(6,7) i(4,5) by auto
  moreover have "[Suc h ..< Suc (h + Suc n)] = Suc h # [Suc (Suc h) ..< Suc (Suc h + n)]"
    by (simp add: upt_rec)
  ultimately show ?case using F1 Suc.prems(3-5) by (auto simp: fi_fires_def Let_def)
qed


section \<open>The macros around a call\<close>

text \<open>
  The code between \<^verbatim>\<open>FAULT_INJECT_BEGIN\<close> and \<^verbatim>\<open>FAULT_INJECT_END\<close> acts on a state \<open>s\<close> and the variable \<open>ret\<close>; it goes on behind the
  block with a value of \<open>ret\<close>, or the function around it returns.
\<close>

datatype fault_flow = Go int | Ret int

definition FAULT_STATEMENT_MOD_ERR :: "fault_inject_t \<Rightarrow> int \<Rightarrow> fault_flow run" where
  "FAULT_STATEMENT_MOD_ERR item ret = Done (Go (sint (fi_inject_err item)))"

definition FAULT_STATEMENT_RET_ERR :: "fault_inject_t \<Rightarrow> int \<Rightarrow> fault_flow run" where
  "FAULT_STATEMENT_RET_ERR item ret = Done (Ret (sint (fi_inject_err item)))"

definition FAULT_STATEMENT_ASSERT :: "fault_inject_t \<Rightarrow> int \<Rightarrow> fault_flow run" where
  "FAULT_STATEMENT_ASSERT item ret = Aborted"

definition FAULT_INJECT_BEGIN ::
  "byte list \<Rightarrow> (fault_inject_t \<Rightarrow> int \<Rightarrow> fault_flow run) \<Rightarrow> 64 word \<Rightarrow> ('s \<Rightarrow> int \<Rightarrow> (fault_flow \<times> 's) run option) \<Rightarrow>
   fault_gloabl_t \<Rightarrow> 's \<Rightarrow> int \<Rightarrow> (fault_flow \<times> fault_gloabl_t \<times> 's) run option" where
  "FAULT_INJECT_BEGIN name statement priv_arg body F s ret =
     do { (F, fault, _) \<leftarrow> fault_inject_cond_get F name priv_arg;
          if fault \<noteq> NULL
          then do { i \<leftarrow> load (ft_items F) fault;
                    andthen (Some (statement (fi_item i) ret)) (\<lambda>flow. Some (Done (flow, F, s))) }
          else andthen (body s ret) (\<lambda>(flow, s). Some (Done (flow, F, s))) }"

lemma fi_cond_get_item:
  assumes rel: "fi_rel F M" and i: "M (cstr FAULT_INJECT_NAME_SIZE name) = Some i"
    and get: "fault_inject_cond_get F name arg = Some (F', a, s)" "a \<noteq> NULL"
  shows "\<exists>i'. load (ft_items F') a = Some i' \<and> fi_inject_err (fi_item i') = fi_inject_err (fi_item i)"
proof -
  obtain xs where wf: "fi_wf F xs" and M: "M = fi_map F xs" using rel by (auto simp: fi_rel_def)
  obtain b where b: "fault_inject_find F name = Some b" "b \<noteq> NULL" "ft_items F b = Some i"
    using wf i M by (cases rule: fi_find_cases [of F xs name]) auto
  then show ?thesis using get
    by (auto simp: fault_inject_cond_get_def fi_update_def fi_on_item_def store_def bind_eq_Some_conv split: if_splits)
qed

text \<open>
  A registered fault replaces the code between the macros exactly when it fires: the code does not run, and the function goes on with, or
  returns, the error of the fault; otherwise the code runs as if the macros were not there.
\<close>

lemma FAULT_INJECT_BEGIN_spec:
  assumes "fi_rel F M" and "M (cstr FAULT_INJECT_NAME_SIZE name) = Some i"
    and "0 \<le> sint (fi_after_times (fi_item i))" and "0 \<le> sint (fi_hit_times (fi_item i))"
    and "sint (fi_hit_times (fi_item i)) < 2 ^ 31 - 1"
  shows "\<exists>F'. fi_rel F' (M(cstr FAULT_INJECT_NAME_SIZE name \<mapsto> fi_on_item fi_hit i)) \<and>
    FAULT_INJECT_BEGIN name FAULT_STATEMENT_MOD_ERR arg body F s ret =
      (if fi_fires i arg then Some (Done (Go (sint (fi_inject_err (fi_item i))), F', s))
       else andthen (body s ret) (\<lambda>(flow, s). Some (Done (flow, F', s)))) \<and>
    FAULT_INJECT_BEGIN name FAULT_STATEMENT_RET_ERR arg body F s ret =
      (if fi_fires i arg then Some (Done (Ret (sint (fi_inject_err (fi_item i))), F', s))
       else andthen (body s ret) (\<lambda>(flow, s). Some (Done (flow, F', s)))) \<and>
    FAULT_INJECT_BEGIN name FAULT_STATEMENT_ASSERT arg body F s ret =
      (if fi_fires i arg then Some Aborted else andthen (body s ret) (\<lambda>(flow, s). Some (Done (flow, F', s))))"
proof -
  obtain F' a t where F': "fault_inject_cond_get F name arg = Some (F', a, t)"
      "fi_rel F' (M(cstr FAULT_INJECT_NAME_SIZE name \<mapsto> fi_on_item fi_hit i))" "a \<noteq> NULL \<longleftrightarrow> fi_fires i arg"
    using fi_cond_get_refines [OF assms] by blast
  show ?thesis
  proof (cases "fi_fires i arg")
    case True
    then obtain i' where "load (ft_items F') a = Some i'" "fi_inject_err (fi_item i') = fi_inject_err (fi_item i)"
      using fi_cond_get_item [OF assms(1,2) F'(1)] F'(3) by blast
    then show ?thesis using True F'
      by (intro exI [of _ F']) (simp add: FAULT_INJECT_BEGIN_def FAULT_STATEMENT_MOD_ERR_def FAULT_STATEMENT_RET_ERR_def FAULT_STATEMENT_ASSERT_def mem_simps)
  next
    case False
    then show ?thesis using F' by (intro exI [of _ F']) (simp add: FAULT_INJECT_BEGIN_def)
  qed
qed

section \<open>Properties\<close>

definition fi_example :: fault_gloabl_t where
  "fi_example = \<lparr>ft_tree = \<lparr>rb_nodes = [8 \<mapsto> \<lparr>rb_parent_color = 1, rb_right = 0, rb_left = 0\<rparr>], rb_root_node = 8, rb_aug = ()\<rparr>,
     ft_items = [8 \<mapsto> \<lparr>fi_item = \<lparr>fi_name = 97 # replicate 63 0, fi_enable = True, fi_sleep_time = 0, fi_after_times = 1,
       fi_enable_times = 2, fi_inject_err = 5, fi_hit_times = 0, fi_priv = 0\<rparr>, fi_callback = None\<rparr>]\<rparr>"

definition fi_example_block :: fi_block where
  "fi_example_block = \<lparr>blk_addr = 16, blk_node = \<lparr>rb_parent_color = 7, rb_right = 7, rb_left = 7\<rparr>,
     blk_internal = \<lparr>fi_item = \<lparr>fi_name = replicate 64 1, fi_enable = True, fi_sleep_time = 9, fi_after_times = 9,
       fi_enable_times = 9, fi_inject_err = 9, fi_hit_times = 9, fi_priv = 9\<rparr>, fi_callback = None\<rparr>\<rparr>"

lemma fi_example_key: "fi_key fi_example 8 = [97]"
  by (simp add: fi_example_def fi_key_def fi_name_at_def FAULT_INJECT_NAME_SIZE_def cstr_def)

lemma fi_example_wf: "fi_wf fi_example [8]"
proof -
  have "rb_repr (ft_tree fi_example) (Nd Tip BLACK 8 Tip)"
    by (simp add: fi_example_def rb_repr_def node_addr_def aligned_def mk_pc_def RB_BLACK_def)
  then have "rb_idx (ft_tree fi_example) [8]"
    unfolding rb_idx_def by (intro exI [of _ "Nd Tip BLACK 8 Tip"]) (simp add: rb_inv_def)
  then show ?thesis by (simp add: fi_wf_def fi_example_def)
qed

definition fi_example_map :: "byte list \<rightharpoonup> fault_inject_internal_t" where
  "fi_example_map = [[97] \<mapsto> the (ft_items fi_example 8)]"

lemma fi_example_rel: "fi_rel fi_example fi_example_map"
proof -
  have "fi_map fi_example [8] = fi_example_map"
    by (auto simp: fi_map_def fi_example_map_def fi_example_key fun_eq_iff) (simp add: fi_example_def)
  with fi_example_wf show ?thesis unfolding fi_rel_def by metis
qed

lemma fi_example_block_ok: "fi_block_ok fi_example fi_example_block"
  by (simp add: fi_block_ok_def fi_example_block_def fi_example_def node_addr_def aligned_def)

text \<open>
  C3: The registry implements a finite map from names to faults.  A name of at most 62 bytes that is not yet
  registered is added with the state of \<^verbatim>\<open>fault_inject_reset\<close> and no callback; a registered one is left alone.
  The call always returns 0 and no other fault changes.
\<close>

theorem fault_inject_register_spec:
  assumes "fi_rel F M" and "fi_block_ok F b" and "fi_good_name name"
  shows "\<exists>F'. fault_inject_register F b name = Some (F', 0) \<and>
    fi_rel F' (if M name = None then M(name \<mapsto> fi_fresh name b None) else M)"
  using assms by (rule fi_register_refines)

theorem fault_inject_register_witness:
  "\<exists>F'. fault_inject_register fi_example fi_example_block [98] = Some (F', 0) \<and>
    fi_rel F' (fi_example_map([98] \<mapsto> fi_fresh [98] fi_example_block None))"
  using fault_inject_register_spec [OF fi_example_rel fi_example_block_ok, of "[98]"]
  by (simp add: fi_good_name_def FAULT_INJECT_NAME_SIZE_def fi_example_map_def)



text \<open>
  \<^verbatim>\<open>fault_inject_find\<close> looks the name up in the map: it returns the item of that name, or \<^verbatim>\<open>NULL\<close> when the map has
  none.
\<close>

lemma fault_inject_find_spec:
  assumes "fi_rel F M"
  shows "\<exists>a. fault_inject_find F name = Some a \<and> (a = NULL \<longleftrightarrow> M (cstr FAULT_INJECT_NAME_SIZE name) = None) \<and>
    (a \<noteq> NULL \<longrightarrow> ft_items F a = M (cstr FAULT_INJECT_NAME_SIZE name))"
proof -
  obtain xs where wf: "fi_wf F xs" and M: "M = fi_map F xs" using assms by (auto simp: fi_rel_def)
  from wf show ?thesis by (cases rule: fi_find_cases [of F xs name]) (auto simp: M)
qed

text \<open>
  \<^verbatim>\<open>fault_inject_enable\<close>, \<^verbatim>\<open>fault_inject_disable\<close>, \<^verbatim>\<open>fault_inject_reinit\<close> and \<^verbatim>\<open>fault_inject_init\<close> change exactly the fault
  of the given name, in exactly the fields they name, and do nothing when there is none; \<^verbatim>\<open>fault_inject_init\<close> keeps
  the name, the callback and the private word.
\<close>

lemma fault_inject_modify_spec:
  assumes "fi_rel F M"
  shows "(\<exists>F'. fault_inject_enable F name = Some F' \<and>
      fi_rel F' (fi_modify M (cstr FAULT_INJECT_NAME_SIZE name) (\<lambda>f. f\<lparr>fi_enable := True\<rparr>))) \<and>
    (\<exists>F'. fault_inject_disable F name = Some F' \<and>
      fi_rel F' (fi_modify M (cstr FAULT_INJECT_NAME_SIZE name) (\<lambda>f. f\<lparr>fi_enable := False\<rparr>))) \<and>
    (\<exists>F'. fault_inject_reinit F name = Some F' \<and>
      fi_rel F' (fi_modify M (cstr FAULT_INJECT_NAME_SIZE name) (\<lambda>f. \<lparr>fi_name = fi_name f, fi_enable = False,
        fi_sleep_time = 0, fi_after_times = 0, fi_enable_times = INT_MAX, fi_inject_err = 0, fi_hit_times = 0,
        fi_priv = fi_priv f\<rparr>))) \<and>
    (\<exists>F'. fault_inject_init F name new = Some F' \<and>
      fi_rel F' (fi_modify M (cstr FAULT_INJECT_NAME_SIZE name) (\<lambda>f. new\<lparr>fi_name := fi_name f, fi_priv := fi_priv f\<rparr>)))"
proof -
  have reset: "fault_inject_reset = (\<lambda>f. \<lparr>fi_name = fi_name f, fi_enable = False, fi_sleep_time = 0, fi_after_times = 0,
      fi_enable_times = INT_MAX, fi_inject_err = 0, fi_hit_times = 0, fi_priv = fi_priv f\<rparr>)"
    by (simp add: fault_inject_reset_def fun_eq_iff)
  have assign: "fi_assign new = (\<lambda>f. new\<lparr>fi_name := fi_name f, fi_priv := fi_priv f\<rparr>)"
    by (cases new) (simp add: fi_assign_def fun_eq_iff)
  show ?thesis
    unfolding fault_inject_enable_def fault_inject_disable_def fault_inject_reinit_def fault_inject_init_def
    using fi_modify_refines [OF assms, of "\<lambda>f. f\<lparr>fi_enable := True\<rparr>" name]
      fi_modify_refines [OF assms, of "\<lambda>f. f\<lparr>fi_enable := False\<rparr>" name]
      fi_modify_refines [OF assms, of fault_inject_reset name] fi_modify_refines [OF assms, of "fi_assign new" name]
    unfolding reset assign by simp
qed

text \<open>
  C4: An enabled fault without a callback fires in a window.  Of consecutive calls of \<^verbatim>\<open>fault_inject_cond_get\<close>, counted
  from 1 after a reset of the hit counter, exactly those numbered \<open>after_times + 1\<close> to \<open>after_times + enable_times\<close>
  return the fault; the others return \<^verbatim>\<open>NULL\<close>.  No call overflows the counters.
\<close>

theorem fault_inject_window:
  assumes "fi_rel F M" and "M (cstr FAULT_INJECT_NAME_SIZE name) = Some i" and "fi_enable (fi_item i)" and "fi_callback i = None"
    and "fi_hit_times (fi_item i) = 0" and "0 \<le> sint (fi_after_times (fi_item i))" and "n < 2 ^ 31"
  shows "\<exists>F'. fi_poll F name arg n = Some (F', map (\<lambda>j. sint (fi_after_times (fi_item i)) < int j \<and>
      int j \<le> sint (fi_after_times (fi_item i)) + sint (fi_enable_times (fi_item i))) [1 ..< Suc n])"
proof -
  have "sint (fi_hit_times (fi_item i)) = int 0" using assms(5) by simp
  from fi_poll_window [OF assms(1-4) this assms(6)] assms(7) show ?thesis
    by (simp add: algebra_simps del: upt_Suc)
qed

theorem fault_inject_window_witness:
  "\<exists>F'. fi_poll fi_example [97] 0 4 = Some (F', [False, True, True, False])"
proof -
  have "[1 ..< Suc 4] = [1, 2, 3, 4 :: nat]" by (simp add: upt_rec)
  with fault_inject_window [OF fi_example_rel, of "[97]" "the (ft_items fi_example 8)" 4 0] show ?thesis
    by (simp add: FAULT_INJECT_NAME_SIZE_def cstr_def fi_example_map_def fi_example_def del: upt_Suc)
qed

text \<open>
  One call of \<^verbatim>\<open>fault_inject_cond_get\<close> on a registered fault, with every guard of the source: the hit counter grows
  by one exactly when the fault is enabled, the result is the fault exactly when it is enabled, inside its window
  and accepted by its callback, and then and only then the call sleeps, for the time set and only if positive.
\<close>

lemma fault_inject_cond_get_spec:
  assumes "fi_rel F M" and "M (cstr FAULT_INJECT_NAME_SIZE name) = Some i"
    and "0 \<le> sint (fi_after_times (fi_item i))" and "0 \<le> sint (fi_hit_times (fi_item i))"
    and "sint (fi_hit_times (fi_item i)) < 2 ^ 31 - 1"
  shows "\<exists>F' a s. fault_inject_cond_get F name arg = Some (F', a, s) \<and>
    fi_rel F' (M(cstr FAULT_INJECT_NAME_SIZE name \<mapsto> fi_on_item fi_hit i)) \<and> (a \<noteq> NULL \<longleftrightarrow> fi_fires i arg) \<and>
    s = (if fi_fires i arg then max 0 (sint (fi_sleep_time (fi_item i))) else 0)"
  using assms by (rule fi_cond_get_refines)

text \<open>
  C36: A name of exactly 63 bytes is not registered faithfully: \<^verbatim>\<open>strncpy\<close> copies 63 bytes and the last byte of the
  buffer keeps whatever the fresh block held.  When that byte is not zero, registering the name succeeds and yet
  the name cannot be found afterwards (so that registering it again adds another fault).
\<close>

theorem fault_inject_long_name:
  assumes "fi_rel F M" and "fi_block_ok F b" and "0 \<notin> set name" and "length name = 63"
    and "fi_name (fi_item (blk_internal b)) = junk @ [c]" and "length junk = 63" and "c \<noteq> 0"
    and "M name = None" and "M (name @ [c]) = None"
  shows "\<exists>F'. fault_inject_register F b name = Some (F', 0) \<and> fault_inject_find F' name = Some NULL"
proof -
  obtain xs where wf: "fi_wf F xs" and M: "M = fi_map F xs" using assms(1) by (auto simp: fi_rel_def)
  have k: "cstr FAULT_INJECT_NAME_SIZE name = name" using assms(3,4) by (simp add: cstr_plain FAULT_INJECT_NAME_SIZE_def)
  have tw: "takeWhile (\<lambda>b. b \<noteq> 0) name = name" using assms(3) by (auto simp: takeWhile_eq_all_conv)
  have "strncpy (junk @ [c]) name 63 = name @ [c]" unfolding strncpy_def tw using assms(4,6) by simp
  then have stored: "fi_stored_key b name = name @ [c]"
    using cstr_plain [of "name @ [c]" 64] assms(3-5,7) by (simp add: fi_stored_key_def FAULT_INJECT_NAME_SIZE_def)
  have "fi_key F a \<noteq> fi_stored_key b name" if "a \<in> set xs" for a
    using that assms(9) fi_wf_nodes [OF wf that] find_distinct_key [of "fi_key F" xs "name @ [c]" a] wf
    by (auto simp: stored M fi_map_def fi_wf_def)
  then obtain F' xs' where F': "fault_inject_insert F b name = Some (F', blk_addr b)" "fi_wf F' xs'"
      "fi_map F' xs' = (fi_map F xs)(name @ [c] \<mapsto> fi_fresh name b None)"
    using fi_insert_wf [OF wf assms(2), of name] stored by auto
  have "fault_inject_find F name = Some NULL"
    using wf assms(8) by (cases rule: fi_find_cases [of F xs name]) (auto simp: M k)
  moreover have "fault_inject_find F' name = Some NULL"
    using F'(2) assms(8) F'(3) by (cases rule: fi_find_cases [of F' xs' name]) (auto simp: M k)
  ultimately show ?thesis using F'(1) by (simp add: fault_inject_register_def)
qed

theorem fault_inject_long_name_witness:
  "\<exists>F'. fault_inject_register fi_example fi_example_block (replicate 63 98) = Some (F', 0) \<and>
    fault_inject_find F' (replicate 63 98) = Some NULL"
proof -
  have junk: "fi_name (fi_item (blk_internal fi_example_block)) = replicate 63 1 @ [1]"
    using replicate_add [of 63 1 "1 :: byte"] by (simp add: fi_example_block_def)
  have "fi_example_map (replicate 63 98) = None" "fi_example_map (replicate 63 98 @ [1]) = None"
    by (simp_all add: fi_example_map_def numeral_eq_Suc)
  from fault_inject_long_name [OF fi_example_rel fi_example_block_ok _ _ junk _ _ this] show ?thesis by simp
qed

end
