(* ===== verification/Indexed_Store.thy ===== *)
theory Indexed_Store
  imports Prelude
begin

text \<open>
  The contract of a component that stores values under the indices \<open>0, 1, \<dots>\<close>: reading an index gives the
  element of the abstract list, writing updates the list at that index and nowhere else.  The bitmap and the two-level
  point array both promise it.
\<close>

fun write_all :: "('m \<Rightarrow> nat \<Rightarrow> 'v \<Rightarrow> 'm option) \<Rightarrow> 'm \<Rightarrow> (nat \<times> 'v) list \<Rightarrow> 'm option" where
  "write_all wr m [] = Some m"
| "write_all wr m ((i, v) # ws) = do { m \<leftarrow> wr m i v; write_all wr m ws }"

fun read_all :: "('m \<Rightarrow> nat \<Rightarrow> 'v option) \<Rightarrow> 'm \<Rightarrow> nat list \<Rightarrow> 'v list option" where
  "read_all rd m [] = Some []"
| "read_all rd m (i # is) = do { v \<leftarrow> rd m i; vs \<leftarrow> read_all rd m is; Some (v # vs) }"

text \<open>The abstract effect of a batch of writes, in order.\<close>

definition updates :: "'v list \<Rightarrow> (nat \<times> 'v) list \<Rightarrow> 'v list" where
  "updates = foldl (\<lambda>xs (i, v). xs[i := v])"

lemma updates_simps [simp]: "updates xs [] = xs" "updates xs ((i, v) # ws) = updates (xs[i := v]) ws"
  by (simp_all add: updates_def)

lemma length_updates [simp]: "length (updates xs ws) = length xs"
  by (induction ws arbitrary: xs) (auto simp: updates_def)

text \<open>After a batch of writes an index holds what was written to it last, or its old value.\<close>

lemma nth_updates:
  "i < length xs \<Longrightarrow> updates xs ws ! i = (case map_of (rev ws) i of None \<Rightarrow> xs ! i | Some v \<Rightarrow> v)"
  by (induction ws arbitrary: xs) (auto simp: map_add_def split: option.splits)

lemma updates_fill: "length vs = length xs \<Longrightarrow> updates xs (zip [0..<length xs] vs) = vs"
proof (rule nth_equalityI, simp)
  fix i assume len: "length vs = length xs" and "i < length (updates xs (zip [0..<length xs] vs))"
  then have i: "i < length xs" by simp
  have "map_of (rev (zip [0..<length xs] vs)) i = Some (vs ! i)"
    using i len by (intro map_of_is_SomeI) (auto simp: rev_map [symmetric] in_set_zip intro!: exI [of _ i])
  with i show "updates xs (zip [0..<length xs] vs) ! i = vs ! i" by (simp add: nth_updates)
qed

locale indexed_store =
  fixes holds :: "'m \<Rightarrow> 'v list \<Rightarrow> bool"
    and rd :: "'m \<Rightarrow> nat \<Rightarrow> 'v option"
    and wr :: "'m \<Rightarrow> nat \<Rightarrow> 'v \<Rightarrow> 'm option"
  assumes rd_law: "holds m xs \<Longrightarrow> i < length xs \<Longrightarrow> rd m i = Some (xs ! i)"
    and wr_law: "holds m xs \<Longrightarrow> i < length xs \<Longrightarrow> \<exists>m'. wr m i v = Some m' \<and> holds m' (xs[i := v])"
begin

lemma write_all_holds:
  "holds m xs \<Longrightarrow> \<forall>(i, v) \<in> set ws. i < length xs \<Longrightarrow>
   \<exists>m'. write_all wr m ws = Some m' \<and> holds m' (updates xs ws)"
proof (induction ws arbitrary: m xs)
  case Nil
  then show ?case by simp
next
  case (Cons w ws)
  obtain i v where w: "w = (i, v)" by (cases w)
  with Cons.prems wr_law [of m xs i v] obtain m' where m': "wr m i v = Some m'" "holds m' (xs[i := v])" by auto
  from Cons.IH [OF m'(2)] Cons.prems(2) obtain m'' where
    "write_all wr m' ws = Some m''" "holds m'' (updates (xs[i := v]) ws)" by auto
  with m' w show ?case by simp
qed

lemma read_all_holds: "holds m xs \<Longrightarrow> \<forall>i \<in> set is. i < length xs \<Longrightarrow> read_all rd m is = Some (map ((!) xs) is)"
  by (induction "is") (simp_all add: rd_law)

text \<open>What a read returns after a batch of writes.\<close>

lemma read_written:
  assumes "holds m xs" and "\<forall>(i, v) \<in> set ws. i < length xs" and "i < length xs"
  shows "(do { m \<leftarrow> write_all wr m ws; rd m i }) =
    Some (case map_of (rev ws) i of None \<Rightarrow> xs ! i | Some v \<Rightarrow> v)"
proof -
  from write_all_holds [OF assms(1,2)] obtain m' where
    "write_all wr m ws = Some m'" "holds m' (updates xs ws)" by blast
  with assms(3) show ?thesis by (simp add: rd_law nth_updates)
qed

text \<open>Writing a list to the indices from 0 on and reading it back.\<close>

lemma fill_holds:
  assumes "holds m xs" and "length vs = length xs"
  shows "\<exists>m'. write_all wr m (zip [0..<length xs] vs) = Some m' \<and> holds m' vs"
proof -
  have "\<forall>(i, v) \<in> set (zip [0..<length xs] vs). i < length xs" by (auto dest: set_zip_leftD)
  from write_all_holds [OF assms(1) this] show ?thesis using updates_fill [OF assms(2)] by auto
qed

lemma read_filled:
  assumes "holds m xs" and "length vs = length xs"
  shows "(do { m \<leftarrow> write_all wr m (zip [0..<length xs] vs); read_all rd m [0..<length xs] }) = Some vs"
proof -
  from fill_holds [OF assms] obtain m' where
    m': "write_all wr m (zip [0..<length xs] vs) = Some m'" "holds m' vs" by blast
  have "map ((!) vs) [0..<length xs] = vs" using assms(2) map_nth [of vs] by simp
  with m' assms(2) show ?thesis by (simp add: read_all_holds)
qed

end

end
