(* ===== verification/Bitmap.thy ===== *)
theory Bitmap
  imports C_Int C_String Indexed_Store
begin

text \<open>
  The bitmap of \<^verbatim>\<open>src/bitmap.c\<close>.  The heap holds \<^verbatim>\<open>bitmap\<close> structs and the byte blocks they point to; the results of the
  two calls of \<^verbatim>\<open>malloc\<close> are arguments of \<open>bitmap_alloc\<close>.  \<open>bm_repr M b xs\<close> says that the bitmap at \<open>b\<close> holds the bits
  \<open>xs\<close>; with it the bitmap is an \<open>indexed_store\<close>.  The terminal output of \<^verbatim>\<open>bitmap_print\<close> is a list of lines.
\<close>

section \<open>State\<close>

record bitmap =
  bm_data :: addr
  bm_len :: int

record bm_mem =
  bm_structs :: "addr \<rightharpoonup> bitmap"
  bm_blocks :: "addr \<rightharpoonup> byte list"

definition BIT_SUCCESS :: int where
  "BIT_SUCCESS = 1"

definition BIT_FAIL :: int where
  "BIT_FAIL = - 1"

section \<open>Operations\<close>

text \<open>\<^verbatim>\<open>ROUND_UP(len, 8) / 8\<close>, in \<^verbatim>\<open>int\<close> arithmetic.\<close>

definition ROUND_UP :: "int \<Rightarrow> int \<Rightarrow> int option" where
  "ROUND_UP val x = do { a \<leftarrow> int_result (val + x); a \<leftarrow> int_result (a - 1); Some (a sdiv x * x) }"

definition bitmap_bytes :: "int \<Rightarrow> int option" where
  "bitmap_bytes len = do { r \<leftarrow> ROUND_UP len 8; Some (r sdiv 8) }"

text \<open>
  \<open>p\<close> and \<open>q\<close> are what the two calls of \<^verbatim>\<open>malloc\<close> return, \<open>junk\<close> is what the memory of the struct happens to hold.
  The byte count is converted to \<^verbatim>\<open>size_t\<close>.
\<close>

definition bitmap_alloc :: "bm_mem \<Rightarrow> addr \<Rightarrow> bitmap \<Rightarrow> addr \<Rightarrow> int \<Rightarrow> (addr \<times> bm_mem) option" where
  "bitmap_alloc M p junk q len =
     (if p = NULL then Some (NULL, M)
      else do {
        let M = M\<lparr>bm_structs := (bm_structs M)(p \<mapsto> junk)\<rparr>;
        n \<leftarrow> bitmap_bytes len;
        if q = NULL then do {
          ss \<leftarrow> release (bm_structs M) p;
          Some (NULL, M\<lparr>bm_structs := ss\<rparr>) }
        else Some (p,
          M\<lparr>bm_structs := (bm_structs M)(p \<mapsto> \<lparr>bm_data = q, bm_len = len\<rparr>),
            bm_blocks := (bm_blocks M)(q \<mapsto> replicate (nat (n mod 2 ^ 64)) 0)\<rparr>) })"

definition bitmap_free :: "bm_mem \<Rightarrow> addr \<Rightarrow> bm_mem option" where
  "bitmap_free M b =
     (if b \<noteq> NULL then do {
        s \<leftarrow> load (bm_structs M) b;
        M \<leftarrow> (if bm_data s \<noteq> NULL then do {
                 bs \<leftarrow> release (bm_blocks M) (bm_data s);
                 ss \<leftarrow> store (bm_structs M) b (\<lambda>s. s\<lparr>bm_data := NULL\<rparr>);
                 Some (M\<lparr>bm_structs := ss, bm_blocks := bs\<rparr>) }
               else Some M);
        ss \<leftarrow> release (bm_structs M) b;
        Some (M\<lparr>bm_structs := ss\<rparr>) }
      else Some M)"

text \<open>\<^verbatim>\<open>0x01 << k\<close>: undefined for a negative shift.\<close>

definition bit_mask :: "int \<Rightarrow> 32 word option" where
  "bit_mask k = (if 0 \<le> k \<and> k < 31 then Some (push_bit (nat k) 1) else None)"

definition bitmap_set :: "bm_mem \<Rightarrow> addr \<Rightarrow> int \<Rightarrow> byte \<Rightarrow> (int \<times> bm_mem) option" where
  "bitmap_set M b offset value =
     (if value \<noteq> 0 \<and> value \<noteq> 1 then Some (BIT_FAIL, M)
      else do {
        s \<leftarrow> load (bm_structs M) b;
        if bm_len s \<le> offset then Some (BIT_FAIL, M)
        else do {
          data \<leftarrow> load (bm_blocks M) (bm_data s);
          mask \<leftarrow> bit_mask (offset smod 8);
          d \<leftarrow> at_index data (offset sdiv 8);
          data \<leftarrow> put_index data (offset sdiv 8)
            (if value = 0 then ucast (ucast d AND NOT mask) else ucast (ucast d OR mask));
          Some (BIT_SUCCESS, M\<lparr>bm_blocks := (bm_blocks M)(bm_data s \<mapsto> data)\<rparr>) } })"

definition bitmap_get :: "bm_mem \<Rightarrow> addr \<Rightarrow> int \<Rightarrow> int option" where
  "bitmap_get M b offset =
     do { s \<leftarrow> load (bm_structs M) b;
          if bm_len s \<le> offset then Some BIT_FAIL
          else do {
            data \<leftarrow> load (bm_blocks M) (bm_data s);
            mask \<leftarrow> bit_mask (offset smod 8);
            d \<leftarrow> at_index data (offset sdiv 8);
            Some (if 0 < sint (ucast d AND mask) then 1 else 0) } }"

text \<open>\<^verbatim>\<open>printf("%s\n", str)\<close> adds the bytes of \<^verbatim>\<open>str\<close> before the terminator as a line.\<close>

definition STR_MAX :: int where
  "STR_MAX = 64"

definition puts_line :: "byte list \<Rightarrow> byte list list \<Rightarrow> byte list list" where
  "puts_line str out = out @ [takeWhile (\<lambda>c. c \<noteq> 0) str]"

definition bitmap_put_char :: "bm_mem \<Rightarrow> addr \<Rightarrow> int \<Rightarrow> byte list \<Rightarrow> byte list option" where
  "bitmap_put_char M b i str =
     do { v \<leftarrow> bitmap_get M b i; put_index str (i smod STR_MAX) (if v \<noteq> 0 then 49 else 48) }"

definition bitmap_print_step :: "bm_mem \<Rightarrow> addr \<Rightarrow> int \<Rightarrow> int \<Rightarrow> byte list \<times> byte list list \<Rightarrow>
    (byte list \<times> byte list list) option" where
  "bitmap_print_step M b len i = (\<lambda>(str, out).
     do { (str, out) \<leftarrow>
            (if 0 < i \<and> i smod STR_MAX = 0 then Some (str, puts_line str out)
             else if i + 1 = len then do {
               str \<leftarrow> put_index str ((i + 1) smod STR_MAX) 0;
               Some (str, puts_line str out) }
             else Some (str, out));
          str \<leftarrow> bitmap_put_char M b i str;
          Some (str, out) })"

function bitmap_print_loop :: "bm_mem \<Rightarrow> addr \<Rightarrow> int \<Rightarrow> int \<Rightarrow> byte list \<times> byte list list \<Rightarrow>
    (byte list \<times> byte list list) option" where
  "bitmap_print_loop M b len i st =
     (if i < len then do {
        st \<leftarrow> bitmap_print_step M b len i st;
        bitmap_print_loop M b len (i + 1) st }
      else Some st)"
  by pat_completeness auto
termination by (relation "measure (\<lambda>(M, b, len, i, st). nat (len - i))") auto

definition bitmap_print :: "bm_mem \<Rightarrow> addr \<Rightarrow> byte list list option" where
  "bitmap_print M b =
     do { s \<leftarrow> load (bm_structs M) b;
          (str, out) \<leftarrow> bitmap_print_loop M b (bm_len s) 0 (replicate 65 0, []);
          Some (out @ [[]]) }"

declare bitmap_print_loop.simps [simp del]

section \<open>The bits a bitmap holds\<close>

definition bm_bit :: "byte list \<Rightarrow> nat \<Rightarrow> bool" where
  "bm_bit data i = bit (data ! (i div 8)) (i mod 8)"

definition bm_repr :: "bm_mem \<Rightarrow> addr \<Rightarrow> bool list \<Rightarrow> bool" where
  "bm_repr M b xs \<longleftrightarrow> b \<noteq> NULL \<and> (\<exists>s data. bm_structs M b = Some s \<and> bm_len s = int (length xs) \<and>
     bm_data s \<noteq> NULL \<and> bm_blocks M (bm_data s) = Some data \<and> length data = (length xs + 7) div 8 \<and>
     xs = map (bm_bit data) [0..<length xs])"

definition byte_of :: "bool \<Rightarrow> byte" where
  "byte_of v = (if v then 1 else 0)"

lemma byte_index: "i < n \<Longrightarrow> i div 8 < (n + 7) div 8" for i n :: nat
  by (simp add: less_eq_div_iff_mult_less_eq Suc_le_eq [symmetric])

lemma sindex8 [simp]: "int i sdiv 8 = int (i div 8)" "int i smod 8 = int (i mod 8)"
  using sdiv_nat [of 8 i] smod_nat [of 8 i] by simp_all

lemma sindex64 [simp]: "int i smod STR_MAX = int (i mod 64)"
  using smod_nat [of 64 i] by (simp add: STR_MAX_def)

lemma bit_mask_nat [simp]: "bit_mask (int (i mod 8)) = Some (push_bit (i mod 8) 1)"
  by (simp add: bit_mask_def)

lemma bit_after:
  fixes d :: byte
  assumes "k < 8" and "j < 8"
  shows "bit (ucast (ucast d OR push_bit k (1 :: 32 word)) :: byte) j \<longleftrightarrow> bit d j \<or> j = k"
    and "bit (ucast (ucast d AND NOT (push_bit k (1 :: 32 word))) :: byte) j \<longleftrightarrow> bit d j \<and> j \<noteq> k"
  using assms by (auto simp: bit_simps)

lemma bit_test:
  fixes d :: byte
  assumes "k < 8"
  shows "0 < sint (ucast d AND push_bit k (1 :: 32 word)) \<longleftrightarrow> bit d k"
proof -
  have m: "ucast d AND push_bit k (1 :: 32 word) = (if bit d k then push_bit k 1 else 0)"
    using assms by (intro bit_word_eqI) (auto simp: bit_simps)
  have "k = 0 \<or> k = 1 \<or> k = 2 \<or> k = 3 \<or> k = 4 \<or> k = 5 \<or> k = 6 \<or> k = 7" using assms by auto
  then have "0 < sint (push_bit k (1 :: 32 word))" by (auto simp: push_bit_eq_mult)
  then show ?thesis unfolding m by simp
qed

lemmas bit_rules = bit_after [unfolded push_bit_of_1] bit_test [unfolded push_bit_of_1]

lemma bm_bit_update:
  assumes "i < n" and "j < n" and "length data = (n + 7) div 8"
    and "\<And>k. k < 8 \<Longrightarrow> bit d k \<longleftrightarrow> (if k = i mod 8 then v else bit (data ! (i div 8)) k)"
  shows "bm_bit (data[i div 8 := d]) j = (if j = i then v else bm_bit data j)"
proof (cases "j div 8 = i div 8")
  case True
  then have "j mod 8 = i mod 8 \<longleftrightarrow> j = i" by (metis div_mult_mod_eq)
  with True assms(4) [of "j mod 8"] byte_index [OF assms(1)] assms(3) show ?thesis by (simp add: bm_bit_def)
next
  case False
  then show ?thesis by (auto simp: bm_bit_def)
qed

lemma bm_reprD:
  assumes "bm_repr M b xs" and "i < length xs"
  obtains s data where "b \<noteq> NULL" "bm_structs M b = Some s" "bm_len s = int (length xs)" "bm_data s \<noteq> NULL"
    "bm_blocks M (bm_data s) = Some data" "length data = (length xs + 7) div 8" "i div 8 < length data"
    "\<And>j. j < length xs \<Longrightarrow> xs ! j = bm_bit data j"
proof -
  from assms(1) obtain s data where *: "b \<noteq> NULL" "bm_structs M b = Some s" "bm_len s = int (length xs)"
    "bm_data s \<noteq> NULL" "bm_blocks M (bm_data s) = Some data" "length data = (length xs + 7) div 8"
    "xs = map (bm_bit data) [0..<length xs]" by (auto simp: bm_repr_def)
  have "xs ! j = bm_bit data j" if "j < length xs" for j
    using that by (subst *(7)) simp
  with * byte_index [OF assms(2)] show thesis by (intro that) auto
qed

lemma bitmap_get_inside:
  assumes "bm_repr M b xs" and "i < length xs"
  shows "bitmap_get M b (int i) = Some (if xs ! i then 1 else 0)"
  by (rule bm_reprD [OF assms]) (use assms(2) in \<open>simp add: bitmap_get_def mem_known bit_rules bm_bit_def\<close>)

lemma bitmap_set_inside:
  assumes "bm_repr M b xs" and "i < length xs"
  shows "\<exists>M'. bitmap_set M b (int i) (byte_of v) = Some (BIT_SUCCESS, M') \<and> bm_repr M' b (xs[i := v])"
proof -
  obtain s data where r: "b \<noteq> NULL" "bm_structs M b = Some s" "bm_len s = int (length xs)" "bm_data s \<noteq> NULL"
    "bm_blocks M (bm_data s) = Some data" "length data = (length xs + 7) div 8" "i div 8 < length data"
    "\<And>j. j < length xs \<Longrightarrow> xs ! j = bm_bit data j" by (rule bm_reprD [OF assms]) blast
  define m where "m = (push_bit (i mod 8) 1 :: 32 word)"
  define d where "d = (if v then ucast (ucast (data ! (i div 8)) OR m) else ucast (ucast (data ! (i div 8)) AND NOT m) :: byte)"
  define M' where "M' = M\<lparr>bm_blocks := (bm_blocks M)(bm_data s \<mapsto> data[i div 8 := d])\<rparr>"
  have bits: "bm_bit (data[i div 8 := d]) j = (if j = i then v else bm_bit data j)" if "j < length xs" for j
    using assms(2) that r(6) by (rule bm_bit_update) (auto simp: d_def m_def bit_rules)
  have "bitmap_set M b (int i) (byte_of v) = Some (BIT_SUCCESS, M')"
    using r assms(2) by (simp add: bitmap_set_def mem_known byte_of_def M'_def d_def m_def)
  moreover have "xs[i := v] = map (bm_bit (data[i div 8 := d])) [0..<length xs]"
    using r(8) bits assms(2) by (intro nth_equalityI) (auto simp: nth_list_update)
  then have "bm_repr M' b (xs[i := v])" using r by (simp add: bm_repr_def M'_def)
  ultimately show ?thesis by blast
qed

text \<open>Calls that are refused leave the memory alone.\<close>

lemma bitmap_outside:
  assumes "bm_repr M b xs" and "int (length xs) \<le> i"
  shows "bitmap_get M b i = Some BIT_FAIL" and "bitmap_set M b i v = Some (BIT_FAIL, M)"
  using assms by (auto simp: bm_repr_def bitmap_get_def bitmap_set_def mem_known)

lemma bitmap_value_rejected: "v \<noteq> 0 \<Longrightarrow> v \<noteq> 1 \<Longrightarrow> bitmap_set M b i v = Some (BIT_FAIL, M)"
  by (simp add: bitmap_set_def)

lemma negative_offset: "i < 0 \<Longrightarrow> bit_mask (i smod 8) = None \<or> i sdiv 8 < 0" for i :: int
proof -
  assume "i < 0"
  then obtain k where k: "i = - int k" "0 < k" by (metis negD of_nat_0_less_iff of_nat_Suc zero_less_Suc)
  have "i sdiv 8 = - int (k div 8)" "i smod 8 = - int (k mod 8)"
    using k sdiv_nat [of 8 k] smod_nat [of 8 k] by simp_all
  moreover have "k div 8 \<noteq> 0 \<or> k mod 8 \<noteq> 0" using k(2) by (metis div_mult_mod_eq add_0 mult_zero_left less_not_refl)
  ultimately show ?thesis by (auto simp: bit_mask_def)
qed

lemma bitmap_negative:
  assumes "i < 0" and "bm_repr M b xs"
  shows "bitmap_get M b i = None" and "bitmap_set M b i (byte_of v) = None"
  using negative_offset [OF assms(1)] assms
  by (auto simp: bm_repr_def bitmap_get_def bitmap_set_def mem_known byte_of_def)

definition bm_write :: "bm_mem \<times> addr \<Rightarrow> nat \<Rightarrow> bool \<Rightarrow> (bm_mem \<times> addr) option" where
  "bm_write = (\<lambda>(M, b) i v. do { (r, M) \<leftarrow> bitmap_set M b (int i) (byte_of v); if r = BIT_SUCCESS then Some (M, b) else None })"

definition bm_read :: "bm_mem \<times> addr \<Rightarrow> nat \<Rightarrow> bool option" where
  "bm_read = (\<lambda>(M, b) i. do { r \<leftarrow> bitmap_get M b (int i); if r = BIT_FAIL then None else Some (r = 1) })"

definition bm_holds :: "bm_mem \<times> addr \<Rightarrow> bool list \<Rightarrow> bool" where
  "bm_holds m xs = bm_repr (fst m) (snd m) xs"

interpretation bms: indexed_store bm_holds bm_read bm_write
proof
  fix m :: "bm_mem \<times> addr" and xs :: "bool list" and i
  assume h: "bm_holds m xs" and i: "i < length xs"
  show "bm_read m i = Some (xs ! i)"
    using h i by (cases m) (simp add: bm_holds_def bm_read_def bitmap_get_inside BIT_FAIL_def)
  fix v
  show "\<exists>m'. bm_write m i v = Some m' \<and> bm_holds m' (xs[i := v])"
    using h i bitmap_set_inside [of "fst m" "snd m" xs i v]
    by (cases m) (auto simp: bm_holds_def bm_write_def)
qed

section \<open>Allocation\<close>

lemma bitmap_bytes_nat: "int n + 8 \<le> INT_MAX \<Longrightarrow> bitmap_bytes (int n) = Some (int ((n + 7) div 8))"
proof -
  assume "int n + 8 \<le> INT_MAX"
  moreover have "(int n + 7) sdiv 8 * 8 sdiv 8 = int ((n + 7) div 8)"
    using sindex8(1) [of "n + 7"] sindex8(1) [of "(n + 7) div 8 * 8"] by simp
  ultimately show ?thesis
    by (simp add: bitmap_bytes_def ROUND_UP_def int_result_def int_limits add.commute)
qed

lemma bitmap_alloc_ok:
  assumes "p \<noteq> NULL" and "q \<noteq> NULL" and "int n + 8 \<le> INT_MAX"
  shows "bitmap_alloc M p junk q (int n) =
    Some (p, M\<lparr>bm_structs := (bm_structs M)(p \<mapsto> \<lparr>bm_data = q, bm_len = int n\<rparr>),
               bm_blocks := (bm_blocks M)(q \<mapsto> replicate ((n + 7) div 8) 0)\<rparr>)"
proof -
  have "int ((n + 7) div 8) < 2 ^ 64" using assms(3) by (simp add: int_limits zdiv_int)
  with assms show ?thesis by (simp add: bitmap_alloc_def bitmap_bytes_nat Let_def)
qed

lemma bm_bit_zero: "i < n \<Longrightarrow> \<not> bm_bit (replicate ((n + 7) div 8) 0) i"
  by (simp add: bm_bit_def byte_index)

lemma bm_repr_fresh:
  assumes "p \<noteq> NULL" and "q \<noteq> NULL"
  shows "bm_repr (M\<lparr>bm_structs := (bm_structs M)(p \<mapsto> \<lparr>bm_data = q, bm_len = int n\<rparr>),
               bm_blocks := (bm_blocks M)(q \<mapsto> replicate ((n + 7) div 8) 0)\<rparr>) p (replicate n False)"
  using assms by (auto simp: bm_repr_def bm_bit_zero intro!: nth_equalityI)

lemma bitmap_alloc_free:
  assumes "p \<noteq> NULL" and "q \<noteq> NULL" and "bm_structs M p = None" and "bm_blocks M q = None"
  shows "bitmap_free (M\<lparr>bm_structs := (bm_structs M)(p \<mapsto> \<lparr>bm_data = q, bm_len = len\<rparr>),
               bm_blocks := (bm_blocks M)(q \<mapsto> data)\<rparr>) p = Some M"
  using assms by (simp add: bitmap_free_def mem_simps fun_upd_idem)

section \<open>Printing\<close>

text \<open>
  The position \<open>j\<close> of the row buffer holds, before iteration \<open>i\<close>, the character of the last bit below \<open>i\<close> whose index
  is \<open>j\<close> modulo 64, and the terminator while there is none.
\<close>

definition bit_char :: "bool \<Rightarrow> byte" where
  "bit_char v = (if v then 49 else 48)"

lemma bit_char_nonzero [simp]: "bit_char v \<noteq> 0"
  by (simp add: bit_char_def)

definition row_buffer :: "bool list \<Rightarrow> nat \<Rightarrow> byte list" where
  "row_buffer xs i = map (\<lambda>j. if j < i then bit_char (xs ! (j + 64 * ((i - 1 - j) div 64))) else 0) [0..<64] @ [0]"

lemma length_row_buffer [simp]: "length (row_buffer xs i) = 65"
  by (simp add: row_buffer_def)

lemma row_index:
  assumes "j < 64" and "j < Suc i"
  shows "j + 64 * ((i - j) div 64) = (if j = i mod 64 then i else j + 64 * ((i - 1 - j) div 64))"
proof (cases "j = i mod 64")
  case True
  then show ?thesis by (simp add: minus_mod_eq_mult_div)
next
  case False
  with assms have "j < i" by (metis less_Suc_eq mod_less)
  then have "(i - j) mod 64 \<noteq> 0" using False assms
    by (metis le_add_diff_inverse less_imp_le mod_add_self2 mod_less mod_mod_trivial mod_0_imp_dvd mod_eq_dvd_iff_nat)
  then have "(i - j) div 64 = (i - j - 1) div 64" using \<open>j < i\<close> by (simp add: div_Suc Suc_diff_Suc [symmetric])
  with False show ?thesis by (simp add: diff_commute)
qed

lemma row_buffer_step: "(row_buffer xs i)[i mod 64 := bit_char (xs ! i)] = row_buffer xs (Suc i)"
  by (rule nth_equalityI) (auto simp: row_buffer_def nth_append nth_list_update row_index less_Suc_eq)

lemma row_buffer_start: "row_buffer xs 0 = replicate 65 0"
  by (rule nth_equalityI) (auto simp: row_buffer_def nth_append)

lemma row_buffer_nth: "j < 64 \<Longrightarrow> row_buffer xs i ! j = (if j < i then bit_char (xs ! (j + 64 * ((i - 1 - j) div 64))) else 0)"
  by (simp add: row_buffer_def nth_append)

lemma row_buffer_current: "r < 64 \<Longrightarrow> j < r \<Longrightarrow> row_buffer xs (64 * k + r) ! j = bit_char (xs ! (64 * k + j))"
proof -
  assume *: "r < 64" "j < r"
  then have "(64 * k + r - 1 - j) div 64 = k" by (intro div_nat_eqI) auto
  with * show ?thesis by (simp add: row_buffer_nth add.commute)
qed

lemma row_buffer_stale: "r \<le> j \<Longrightarrow> j < 64 \<Longrightarrow> row_buffer xs (64 * Suc k + r) ! j = bit_char (xs ! (64 * k + j))"
proof -
  assume *: "r \<le> j" "j < 64"
  then have "(64 * Suc k + r - 1 - j) div 64 = k" by (intro div_nat_eqI) auto
  with * show ?thesis by (simp add: row_buffer_nth add.commute)
qed

lemma row_buffer_last [simp]: "row_buffer xs i ! 64 = 0"
  by (simp add: row_buffer_def nth_append)

text \<open>The line printed at the start of a row, and the one printed in the last iteration.\<close>

lemma full_row:
  assumes "64 * Suc k \<le> length xs"
  shows "takeWhile (\<lambda>c. c \<noteq> 0) (row_buffer xs (64 * Suc k)) = map bit_char (take 64 (drop (64 * k) xs))"
proof -
  have len: "64 * k + 64 \<le> length xs" using assms by simp
  have e: "row_buffer xs (64 * Suc k) ! j = bit_char (xs ! (64 * k + j))" if "j < 64" for j
    using that row_buffer_stale [of 0 j xs k] by simp
  have "takeWhile (\<lambda>c. c \<noteq> 0) (row_buffer xs (64 * Suc k)) = take 64 (row_buffer xs (64 * Suc k))"
    by (rule takeWhile_eq_take_P_nth) (simp_all add: e del: mult_Suc_right)
  also have "\<dots> = map bit_char (take 64 (drop (64 * k) xs))"
    using len by (intro nth_equalityI) (auto simp add: e simp del: mult_Suc_right)
  finally show ?thesis .
qed

definition last_row :: "bool list \<Rightarrow> nat \<Rightarrow> nat \<Rightarrow> bool list" where
  "last_row xs k r = take r (drop (64 * k) xs) @ (if k = 0 then [] else [xs ! (64 * (k - 1) + r)])"

lemma final_row:
  assumes "Suc r < 64" and "64 * k + r < length xs"
  shows "takeWhile (\<lambda>c. c \<noteq> 0) ((row_buffer xs (64 * k + r))[Suc r := 0]) = map bit_char (last_row xs k r)"
proof -
  define str where "str = (row_buffer xs (64 * k + r))[Suc r := 0]"
  have len: "length str = 65" by (simp add: str_def)
  have cur: "str ! j = bit_char (xs ! (64 * k + j))" if "j < r" for j
    using that assms(1) row_buffer_current [of r j xs k] by (simp add: str_def)
  have at: "str ! r = (if k = 0 then 0 else bit_char (xs ! (64 * (k - 1) + r)))" "str ! Suc r = 0"
    using assms(1) row_buffer_stale [of r r xs "k - 1"] by (cases k, simp_all add: str_def row_buffer_nth)
  define n where "n = (if k = 0 then r else Suc r)"
  have "takeWhile (\<lambda>c. c \<noteq> 0) str = take n str"
    using cur at assms(1) len by (intro takeWhile_eq_take_P_nth) (auto simp: n_def less_Suc_eq split: if_splits)
  also have "\<dots> = map bit_char (last_row xs k r)"
    using cur at assms len by (intro nth_equalityI) (auto simp: n_def last_row_def nth_append less_Suc_eq)
  finally show ?thesis by (simp add: str_def)
qed

text \<open>The lines the code prints: the complete rows but the last, a last line, and an empty line.\<close>

definition full_rows :: "bool list \<Rightarrow> nat \<Rightarrow> bool list list" where
  "full_rows xs m = map (\<lambda>k. take 64 (drop (64 * k) xs)) [0..<m]"

definition last_lines :: "bool list \<Rightarrow> bool list list" where
  "last_lines xs =
     (let n = length xs in
      if n = 0 \<or> 1 < n \<and> n mod 64 = 1 then []
      else if n mod 64 = 0 then [[]]
      else [last_row xs (n div 64) (n mod 64 - 1)])"

definition bitmap_lines :: "bool list \<Rightarrow> bool list list" where
  "bitmap_lines xs = full_rows xs ((length xs - 1) div 64) @ last_lines xs @ [[]]"

definition printed_at :: "bool list \<Rightarrow> nat \<Rightarrow> byte list \<times> byte list list" where
  "printed_at xs i = (row_buffer xs i, map (map bit_char) (full_rows xs ((i - 1) div 64)))"

lemma full_rows_Suc: "full_rows xs (Suc k) = full_rows xs k @ [take 64 (drop (64 * k) xs)]"
  by (simp add: full_rows_def)

lemma row_start:
  assumes "0 < i" and "i mod 64 = 0" and "i \<le> length xs"
  shows "puts_line (row_buffer xs i) (map (map bit_char) (full_rows xs ((i - 1) div 64))) =
    map (map bit_char) (full_rows xs (i div 64))"
proof -
  from assms(1,2) obtain k where k: "i = 64 * Suc k" by (metis gr0_implies_Suc mod_0_imp_dvd dvdE mult_eq_0_iff neq0_conv)
  then have "(i - 1) div 64 = k" by (intro div_nat_eqI) auto
  with k assms(3) show ?thesis by (simp add: puts_line_def full_row full_rows_Suc del: mult_Suc_right)
qed

lemma put_bit:
  assumes "bm_repr M b xs" and "i < length xs" and "length str = 65"
  shows "bitmap_put_char M b (int i) str = Some (str[i mod 64 := bit_char (xs ! i)])"
proof -
  have "i mod 64 < length str" using assms(3) by (simp add: less_trans [of _ 64])
  then show ?thesis by (simp add: bitmap_put_char_def bitmap_get_inside [OF assms(1,2)] bit_char_def)
qed

lemma bitmap_print_step_mid:
  assumes "bm_repr M b xs" and "Suc i < length xs"
  shows "bitmap_print_step M b (int (length xs)) (int i) (printed_at xs i) = Some (printed_at xs (Suc i))"
proof (cases "0 < i \<and> i mod 64 = 0")
  case True
  then show ?thesis using assms row_start [of i xs] row_buffer_step [of xs i]
    by (simp add: bitmap_print_step_def printed_at_def put_bit [OF assms(1)])
next
  case False
  then have "i div 64 = (i - 1) div 64" by (cases i) (auto simp: div_Suc)
  then show ?thesis using assms False
    by (auto simp: bitmap_print_step_def printed_at_def put_bit [OF assms(1)] row_buffer_step)
qed

lemma bitmap_print_step_last:
  assumes "bm_repr M b xs" and "Suc i = length xs"
  shows "\<exists>str. bitmap_print_step M b (int (length xs)) (int i) (printed_at xs i) =
    Some (str, map (map bit_char) (full_rows xs ((length xs - 1) div 64) @ last_lines xs))"
proof (cases "0 < i \<and> i mod 64 = 0")
  case True
  moreover from True have "Suc i mod 64 = 1" by (simp add: mod_Suc)
  ultimately show ?thesis using assms(2) [symmetric] row_start [of i xs]
    by (simp add: bitmap_print_step_def printed_at_def put_bit [OF assms(1)] last_lines_def)
next
  case False
  define r where "r = i mod 64"
  have i: "i = 64 * (i div 64) + r" "r < 64" by (simp_all add: r_def)
  have dd: "i div 64 = (i - 1) div 64" using False by (cases i) (auto simp: div_Suc)
  define str where "str = (row_buffer xs i)[Suc i mod 64 := 0]"
  have "Suc i mod 64 < 65" by (simp add: less_trans [of _ 64])
  then have st: "put_index (row_buffer xs i) ((int i + 1) smod STR_MAX) 0 = Some str" "length str = 65"
    using sindex64 [of "Suc i"] put_index_nat [of "Suc i mod 64" "row_buffer xs i" 0] by (simp_all add: str_def add.commute)
  have line: "[takeWhile (\<lambda>c. c \<noteq> 0) str] = map (map bit_char) (last_lines xs)"
  proof (cases "Suc r = 64")
    case True
    then have "Suc i mod 64 = 0" by (simp add: r_def mod_Suc)
    with assms(2) [symmetric] show ?thesis by (cases "row_buffer xs i") (auto simp: str_def last_lines_def)
  next
    case r: False
    then have "Suc i mod 64 = Suc r" "Suc i div 64 = i div 64" by (simp_all add: r_def mod_Suc div_Suc)
    moreover have "\<not> (1 < Suc i \<and> Suc r = 1)" using False by (auto simp: r_def)
    ultimately show ?thesis
      using final_row [of r "i div 64" xs] i r assms(2) [symmetric] by (simp add: str_def last_lines_def)
  qed
  have "\<not> (0 < int i \<and> int i smod STR_MAX = 0)" "int i + 1 = int (length xs)" "i < length xs" using False assms(2) by auto
  then have "bitmap_print_step M b (int (length xs)) (int i) (printed_at xs i) =
      Some (str[i mod 64 := bit_char (xs ! i)],
        map (map bit_char) (full_rows xs ((i - 1) div 64)) @ [takeWhile (\<lambda>c. c \<noteq> 0) str])"
    unfolding bitmap_print_step_def printed_at_def using st by (simp add: put_bit [OF assms(1)] puts_line_def) auto
  then show ?thesis using line dd assms(2) [symmetric] by simp
qed

lemma bitmap_print_loop_lines:
  assumes "bm_repr M b xs" and "i < length xs"
  shows "\<exists>str. bitmap_print_loop M b (int (length xs)) (int i) (printed_at xs i) =
    Some (str, map (map bit_char) (full_rows xs ((length xs - 1) div 64) @ last_lines xs))"
  using assms(2)
proof (induction "length xs - i" arbitrary: i)
  case 0
  then show ?case by simp
next
  case (Suc d)
  have next_i: "int i + 1 = int (Suc i)" by simp
  show ?case
  proof (cases "Suc i = length xs")
    case True
    then show ?thesis using bitmap_print_step_last [OF assms(1) True] Suc.prems
      by (subst bitmap_print_loop.simps, subst next_i) (auto simp: bitmap_print_loop.simps)
  next
    case False
    then have "Suc i < length xs" using Suc.prems by simp
    then show ?thesis using bitmap_print_step_mid [OF assms(1)] Suc.hyps(1) [of "Suc i"] Suc.hyps(2)
      by (subst bitmap_print_loop.simps, subst next_i) simp
  qed
qed

lemma bitmap_print_lines: "bm_repr M b xs \<Longrightarrow> bitmap_print M b = Some (map (map bit_char) (bitmap_lines xs))"
proof -
  assume r: "bm_repr M b xs"
  then obtain s where s: "b \<noteq> NULL" "bm_structs M b = Some s" "bm_len s = int (length xs)" by (auto simp: bm_repr_def)
  show ?thesis
  proof (cases "xs = []")
    case True
    with s show ?thesis
      by (simp add: bitmap_print_def mem_known bitmap_print_loop.simps bitmap_lines_def full_rows_def last_lines_def)
  next
    case False
    then have "\<exists>str. bitmap_print_loop M b (int (length xs)) 0 (replicate 65 0, []) =
      Some (str, map (map bit_char) (full_rows xs ((length xs - 1) div 64) @ last_lines xs))"
      using bitmap_print_loop_lines [OF r, of 0] by (simp add: printed_at_def row_buffer_start full_rows_def)
    with s show ?thesis by (auto simp: bitmap_print_def mem_known bitmap_lines_def)
  qed
qed

section \<open>What one call may change\<close>

definition bm_with_block :: "bm_mem \<Rightarrow> addr \<Rightarrow> byte list \<Rightarrow> bm_mem" where
  "bm_with_block M q data = M\<lparr>bm_blocks := (bm_blocks M)(q \<mapsto> data)\<rparr>"

lemma bm_write_frame:
  assumes "bm_write (bm_with_block M q data, b) i v = Some m'" and "bm_structs M b = Some s" and "bm_data s = q"
  shows "\<exists>data'. m' = (bm_with_block M q data', b)"
  using assms by (auto simp: bm_write_def bitmap_set_def bm_with_block_def bind_eq_Some_conv BIT_FAIL_def BIT_SUCCESS_def
      split: if_splits)

lemma write_all_frame:
  assumes "bm_structs M b = Some s" and "bm_data s = q"
  shows "write_all bm_write (bm_with_block M q data, b) ws = Some m' \<Longrightarrow> \<exists>data'. m' = (bm_with_block M q data', b)"
proof (induction ws arbitrary: data)
  case Nil
  then show ?case by auto
next
  case (Cons w ws)
  obtain i v where "w = (i, v)" by (cases w)
  with Cons.prems obtain m1 where m1: "bm_write (bm_with_block M q data, b) i v = Some m1"
    "write_all bm_write m1 ws = Some m'" by (auto simp: bind_eq_Some_conv)
  from bm_write_frame [OF m1(1) assms] obtain d where "m1 = (bm_with_block M q d, b)" by blast
  with Cons.IH m1(2) show ?case by blast
qed

section \<open>Properties\<close>

text \<open>
  C16: A bitmap of \<open>n\<close> bits is an array of \<open>n\<close> booleans.  Allocation (both calls of \<^verbatim>\<open>malloc\<close> succeed, \<^verbatim>\<open>len + 8\<close> does not
  overflow) gives all zeros, and after any sequence of \<^verbatim>\<open>bitmap_set\<close> calls inside the bounds, all of which succeed,
  \<^verbatim>\<open>bitmap_get\<close> returns for each index what was set last, or 0.  Freeing the bitmap then gives back both blocks and
  leaves the rest of the memory as it was before the allocation.
\<close>

theorem bitmap_write_read:
  assumes "p \<noteq> NULL" and "q \<noteq> NULL" and "bm_structs M p = None" and "bm_blocks M q = None"
    and "int n + 8 \<le> INT_MAX" and "\<forall>(i, v) \<in> set ws. i < n"
  shows "\<exists>M0 M1. bitmap_alloc M p junk q (int n) = Some (p, M0) \<and>
      write_all bm_write (M0, p) ws = Some (M1, p) \<and>
      (\<forall>i < n. bitmap_get M1 p (int i) =
        Some (case map_of (rev ws) i of Some True \<Rightarrow> 1 | _ \<Rightarrow> 0)) \<and>
      bitmap_free M1 p = Some M"
proof -
  define S where "S = M\<lparr>bm_structs := (bm_structs M)(p \<mapsto> \<lparr>bm_data = q, bm_len = int n\<rparr>)\<rparr>"
  define M0 where "M0 = bm_with_block S q (replicate ((n + 7) div 8) 0)"
  have a: "bitmap_alloc M p junk q (int n) = Some (p, M0)"
    using assms by (simp add: bitmap_alloc_ok M0_def S_def bm_with_block_def)
  have "bm_holds (M0, p) (replicate n False)"
    using bm_repr_fresh [OF assms(1,2)] by (simp add: bm_holds_def M0_def S_def bm_with_block_def)
  from bms.write_all_holds [OF this, of ws] assms(6) obtain m1 where
    w: "write_all bm_write (M0, p) ws = Some m1" "bm_holds m1 (updates (replicate n False) ws)" by auto
  have "bm_structs S p = Some \<lparr>bm_data = q, bm_len = int n\<rparr>" by (simp add: S_def)
  from write_all_frame [OF this _ w(1) [unfolded M0_def]] obtain d where m1: "m1 = (bm_with_block S q d, p)" by auto
  have "bitmap_get (bm_with_block S q d) p (int i) = Some (case map_of (rev ws) i of Some True \<Rightarrow> 1 | _ \<Rightarrow> 0)"
    if "i < n" for i
    using bitmap_get_inside [of "bm_with_block S q d" p "updates (replicate n False) ws" i] w(2) m1 that
    by (auto simp: bm_holds_def nth_updates split: option.splits bool.splits)
  moreover have "bitmap_free (bm_with_block S q d) p = Some M"
    using assms(1-4) by (simp add: bm_with_block_def S_def bitmap_alloc_free)
  ultimately show ?thesis using a w(1) m1 by blast
qed

theorem bitmap_write_read_witness:
  "\<exists>M0 M1. bitmap_alloc \<lparr>bm_structs = Map.empty, bm_blocks = Map.empty\<rparr> 16 \<lparr>bm_data = 0, bm_len = 0\<rparr> 32 10 = Some (16, M0) \<and>
      write_all bm_write (M0, 16) [(9, True), (0, True), (0, False)] = Some (M1, 16) \<and>
      bitmap_get M1 16 9 = Some 1 \<and> bitmap_get M1 16 0 = Some 0"
proof -
  have e: "int 10 + 8 \<le> INT_MAX" by (simp add: INT_MAX_def)
  have b: "\<forall>(i, v) \<in> set [(9 :: nat, True), (0, True), (0, False)]. i < 10" by simp
  from bitmap_write_read [of 16 32 "\<lparr>bm_structs = Map.empty, bm_blocks = Map.empty\<rparr>" 10, OF _ _ _ _ e b]
  obtain M0 M1 where r: "bitmap_alloc \<lparr>bm_structs = Map.empty, bm_blocks = Map.empty\<rparr> 16 \<lparr>bm_data = 0, bm_len = 0\<rparr> 32 10 = Some (16, M0)"
    "write_all bm_write (M0, 16) [(9, True), (0, True), (0, False)] = Some (M1, 16)"
    "\<forall>i < 10. bitmap_get M1 16 (int i) = Some (case map_of (rev [(9, True), (0, True), (0, False)]) i of Some True \<Rightarrow> 1 | _ \<Rightarrow> 0)"
    by fastforce
  then show ?thesis using r(3) [rule_format, of 9] r(3) [rule_format, of 0] by fastforce
qed

text \<open>
  The guards of \<^verbatim>\<open>bitmap_set\<close> and \<^verbatim>\<open>bitmap_get\<close>: an offset at or beyond the length and a value other than 0 and 1
  are refused with \<^verbatim>\<open>BIT_FAIL\<close> and change nothing.  A negative offset, which the documented range \<^verbatim>\<open>0 ~ len-1\<close> excludes, is not
  refused: every such call shifts by a negative amount or reaches in front of the block.
\<close>

lemma bitmap_guards:
  assumes "bm_repr M b xs"
  shows "(int (length xs) \<le> i \<longrightarrow> bitmap_set M b i v = Some (BIT_FAIL, M) \<and> bitmap_get M b i = Some BIT_FAIL) \<and>
    (v \<noteq> 0 \<and> v \<noteq> 1 \<longrightarrow> bitmap_set M b i v = Some (BIT_FAIL, M)) \<and>
    (i < 0 \<longrightarrow> bitmap_get M b i = None \<and> (v = 0 \<or> v = 1 \<longrightarrow> bitmap_set M b i v = None))"
  using assms bitmap_outside [OF assms] bitmap_value_rejected bitmap_negative(1) [OF _ assms, of i]
    bitmap_negative(2) [OF _ assms, of i True] bitmap_negative(2) [OF _ assms, of i False] by (auto simp: byte_of_def)

definition bm_example :: bm_mem where
  "bm_example = \<lparr>bm_structs = [16 \<mapsto> \<lparr>bm_data = 32, bm_len = 3\<rparr>], bm_blocks = [32 \<mapsto> [5]]\<rparr>"

lemma bm_example_repr: "bm_repr bm_example 16 [True, False, True]"
  by (simp add: bm_repr_def bm_example_def bm_bit_def upt_rec bit_iff_odd)

text \<open>
  What \<^verbatim>\<open>bitmap_print\<close> prints.  Rows of 64 bits are printed when the next row starts, so the complete rows before the
  last bit come out.  The last line is printed before the last bit is put into the buffer: it ends with the bit 64
  positions earlier that the buffer still holds, or one character short in the first row, and is empty when the
  length is a multiple of 64.
\<close>

lemma bitmap_print_spec:
  assumes "bm_repr M b xs"
  shows "bitmap_print M b = Some (map (map bit_char) (bitmap_lines xs))"
  using assms by (rule bitmap_print_lines)

end
