(* ===== verification/Point_Array.thy ===== *)
theory Point_Array
  imports C_Int Indexed_Store
begin

text \<open>
  The two-level pointer array of \<^verbatim>\<open>src/point_array.c\<close>: a row table whose entries point to blocks of at most 1000 cells, so
  that no allocation exceeds \<^verbatim>\<open>MAX_LEN_LIMIT\<close> bytes.  The heap holds row tables and cell blocks; what \<^verbatim>\<open>malloc\<close> returns
  (\<open>p\<close> for the table, \<open>cols i\<close> for the block of row \<open>i\<close>) and the indeterminate contents of new blocks (\<open>junk\<close>) are
  arguments.  Sizes and indices are 32-bit words, as the code computes them.
\<close>

record pa_mem =
  pa_rows :: "addr \<rightharpoonup> addr list"
  pa_cells :: "addr \<rightharpoonup> 64 word list"

definition MAX_LEN_LIMIT :: nat where
  "MAX_LEN_LIMIT = 8000"

definition max_col_num :: "32 word" where
  "max_col_num = of_nat (MAX_LEN_LIMIT div 8)"

definition row_num :: "32 word \<Rightarrow> 32 word" where
  "row_num sz = (sz + max_col_num - 1) div max_col_num"

definition col_num :: "32 word \<Rightarrow> nat \<Rightarrow> 32 word" where
  "col_num sz i = (if of_nat i = row_num sz - 1 then sz - max_col_num * of_nat i else max_col_num)"

text \<open>The loop of \<^verbatim>\<open>create_point_array\<close>: allocate row \<open>i\<close> and store its address in the table.\<close>

function create_rows :: "pa_mem \<Rightarrow> addr \<Rightarrow> (nat \<Rightarrow> addr) \<Rightarrow> (nat \<Rightarrow> nat \<Rightarrow> 64 word) \<Rightarrow> 32 word \<Rightarrow> nat \<Rightarrow> pa_mem option" where
  "create_rows M p cols junk sz i =
     (if i < unat (row_num sz) then do {
        let M = (if cols i = NULL then M
                 else M\<lparr>pa_cells := (pa_cells M)(cols i \<mapsto> map (junk i) [0..<unat (col_num sz i)])\<rparr>);
        row_ptr \<leftarrow> load (pa_rows M) p;
        row_ptr \<leftarrow> put_index row_ptr (int i) (cols i);
        create_rows (M\<lparr>pa_rows := (pa_rows M)(p \<mapsto> row_ptr)\<rparr>) p cols junk sz (i + 1) }
      else Some M)"
  by pat_completeness auto
termination by (relation "measure (\<lambda>(M, p, cols, junk, sz, i). unat (row_num sz) - i)") auto

declare create_rows.simps [simp del]

definition create_point_array ::
  "pa_mem \<Rightarrow> addr \<Rightarrow> (nat \<Rightarrow> addr) \<Rightarrow> (nat \<Rightarrow> addr) \<Rightarrow> (nat \<Rightarrow> nat \<Rightarrow> 64 word) \<Rightarrow> 32 word \<Rightarrow> (addr \<times> pa_mem) option" where
  "create_point_array M p row_junk cols junk sz =
     do { let M = (if p = NULL then M
                   else M\<lparr>pa_rows := (pa_rows M)(p \<mapsto> map row_junk [0..<unat (row_num sz)])\<rparr>);
          M \<leftarrow> create_rows M p cols junk sz 0;
          Some (p, M) }"

function free_rows :: "pa_mem \<Rightarrow> addr \<Rightarrow> 32 word \<Rightarrow> nat \<Rightarrow> pa_mem option" where
  "free_rows M ptr sz i =
     (if i < unat (row_num sz) then do {
        row_ptr \<leftarrow> load (pa_rows M) ptr;
        c \<leftarrow> at_index row_ptr (int i);
        cells \<leftarrow> release (pa_cells M) c;
        free_rows (M\<lparr>pa_cells := cells\<rparr>) ptr sz (i + 1) }
      else Some M)"
  by pat_completeness auto
termination by (relation "measure (\<lambda>(M, ptr, sz, i). unat (row_num sz) - i)") auto

declare free_rows.simps [simp del]

definition free_point_array :: "pa_mem \<Rightarrow> addr \<Rightarrow> 32 word \<Rightarrow> pa_mem option" where
  "free_point_array M ptr sz =
     do { M \<leftarrow> free_rows M ptr sz 0;
          rows \<leftarrow> release (pa_rows M) ptr;
          Some (M\<lparr>pa_rows := rows\<rparr>) }"

definition set_point_value :: "pa_mem \<Rightarrow> addr \<Rightarrow> 32 word \<Rightarrow> 64 word \<Rightarrow> pa_mem option" where
  "set_point_value M row_ptr index value =
     do { rows \<leftarrow> load (pa_rows M) row_ptr;
          c \<leftarrow> at_index rows (int (unat (index div max_col_num)));
          col \<leftarrow> load (pa_cells M) c;
          col \<leftarrow> put_index col (int (unat (index mod max_col_num))) value;
          Some (M\<lparr>pa_cells := (pa_cells M)(c \<mapsto> col)\<rparr>) }"

definition get_point_value :: "pa_mem \<Rightarrow> addr \<Rightarrow> 32 word \<Rightarrow> 64 word option" where
  "get_point_value M row_ptr index =
     do { rows \<leftarrow> load (pa_rows M) row_ptr;
          c \<leftarrow> at_index rows (int (unat (index div max_col_num)));
          col \<leftarrow> load (pa_cells M) c;
          at_index col (int (unat (index mod max_col_num))) }"

section \<open>Row and column arithmetic\<close>

lemma max_col_num_1000 [simp]: "max_col_num = 1000"
  by (simp add: max_col_num_def MAX_LEN_LIMIT_def)

lemma index_split:
  assumes "j < 2 ^ 31"
  shows "unat ((of_nat j :: 32 word) div 1000) = j div 1000" and "unat ((of_nat j :: 32 word) mod 1000) = j mod 1000"
  using assms by (simp_all add: unat_div_distrib unat_mod_distrib unat_of_nat32)

lemma row_num_nat: "n < 2 ^ 31 \<Longrightarrow> unat (row_num (of_nat n)) = (n + 999) div 1000"
proof -
  assume "n < 2 ^ 31"
  moreover have "(of_nat n + 1000 - 1 :: 32 word) = of_nat (n + 999)" by simp
  ultimately show ?thesis unfolding row_num_def max_col_num_1000 by (simp add: unat_div_distrib unat_of_nat32 del: of_nat_add)
qed

lemma col_num_nat:
  assumes "n < 2 ^ 31" and "i < (n + 999) div 1000"
  shows "unat (col_num (of_nat n) i) = min 1000 (n - 1000 * i)"
proof -
  define r where "r = (n + 999) div 1000"
  have rn: "row_num (of_nat n) = of_nat r" using row_num_nat [OF assms(1)] by (metis r_def of_nat_unat ucast_id)
  have r: "0 < r" "r < 2 ^ 31" "1000 * (r - 1) < n" "n \<le> 1000 * r" using assms by (auto simp: r_def)
  have last_i: "of_nat i = row_num (of_nat n) - 1 \<longleftrightarrow> i = r - 1"
  proof -
    have "row_num (of_nat n) - 1 = (of_nat (r - 1) :: 32 word)" using r(1) rn by (simp add: of_nat_diff)
    moreover have "of_nat i = (of_nat (r - 1) :: 32 word) \<longleftrightarrow> i = r - 1"
      using r(2) assms(2) unat_of_nat32 [of i] unat_of_nat32 [of "r - 1"] by (auto simp: r_def)
    ultimately show ?thesis by (simp only:)
  qed
  have i: "1000 * i \<le> n" using r assms(2) r_def by simp
  then have "of_nat n - 1000 * of_nat i = (of_nat (n - 1000 * i) :: 32 word)" by (simp add: of_nat_diff)
  moreover have "n - 1000 * i < 2 ^ 32" using assms(1) by simp
  ultimately have sub: "unat (of_nat n - 1000 * of_nat i :: 32 word) = n - 1000 * i" by (simp only: unat_of_nat32)
  show ?thesis
  proof (cases "i = r - 1")
    case True
    then show ?thesis using last_i sub r by (simp add: col_num_def)
  next
    case False
    then have "1000 * Suc i \<le> 1000 * (r - 1)" using assms(2) r_def by simp
    with False show ?thesis using last_i r by (simp add: col_num_def)
  qed
qed

section \<open>Arrays in memory\<close>

text \<open>
  \<open>pa_repr M p xs\<close>: the array at \<open>p\<close> holds \<open>xs\<close>.  \<open>pa_owns M0 M p cs\<close>: compared with \<open>M0\<close>, the memory \<open>M\<close> has in addition the
  table at \<open>p\<close> and the blocks \<open>cs\<close> it lists, and is otherwise the same.
\<close>

definition pa_repr :: "pa_mem \<Rightarrow> addr \<Rightarrow> 64 word list \<Rightarrow> bool" where
  "pa_repr M p xs \<longleftrightarrow> p \<noteq> NULL \<and> length xs < 2 ^ 31 \<and> (\<exists>cs. pa_rows M p = Some cs \<and> distinct cs \<and> NULL \<notin> set cs \<and>
     length cs = (length xs + 999) div 1000 \<and>
     (\<forall>j < length xs. \<exists>col. pa_cells M (cs ! (j div 1000)) = Some col \<and> j mod 1000 < length col \<and>
        col ! (j mod 1000) = xs ! j))"

definition pa_owns :: "pa_mem \<Rightarrow> pa_mem \<Rightarrow> addr \<Rightarrow> addr list \<Rightarrow> bool" where
  "pa_owns M0 M p cs \<longleftrightarrow> pa_rows M = (pa_rows M0)(p \<mapsto> cs) \<and> (\<forall>a. a \<notin> set cs \<longrightarrow> pa_cells M a = pa_cells M0 a) \<and>
     set cs \<subseteq> dom (pa_cells M)"

lemma row_index_less: "j < n \<Longrightarrow> j div 1000 < (n + 999) div 1000" for j n :: nat
  by (simp add: less_eq_div_iff_mult_less_eq Suc_le_eq [symmetric])

lemma get_point_value_inside:
  assumes "pa_repr M p xs" and "j < length xs"
  shows "get_point_value M p (of_nat j) = Some (xs ! j)"
proof -
  from assms obtain cs col where r: "p \<noteq> NULL" "pa_rows M p = Some cs" "NULL \<notin> set cs" "length cs = (length xs + 999) div 1000"
    "pa_cells M (cs ! (j div 1000)) = Some col" "j mod 1000 < length col" "col ! (j mod 1000) = xs ! j" "length xs < 2 ^ 31"
    by (auto simp: pa_repr_def)
  have "j div 1000 < length cs" using row_index_less [OF assms(2)] r(4) by simp
  moreover from this have "cs ! (j div 1000) \<noteq> NULL" using r(3) by (metis nth_mem)
  ultimately show ?thesis using r assms(2) by (simp add: get_point_value_def mem_known index_split)
qed

lemma set_point_value_inside:
  assumes "pa_repr M p xs" and "j < length xs"
  shows "\<exists>c col'. set_point_value M p (of_nat j) v = Some (M\<lparr>pa_cells := (pa_cells M)(c \<mapsto> col')\<rparr>) \<and>
     (\<exists>cs. pa_rows M p = Some cs \<and> c \<in> set cs) \<and>
     pa_repr (M\<lparr>pa_cells := (pa_cells M)(c \<mapsto> col')\<rparr>) p (xs[j := v])"
proof -
  from assms obtain cs where r: "p \<noteq> NULL" "pa_rows M p = Some cs" "NULL \<notin> set cs" "length cs = (length xs + 999) div 1000"
    "distinct cs" "length xs < 2 ^ 31"
    "\<And>j. j < length xs \<Longrightarrow> \<exists>col. pa_cells M (cs ! (j div 1000)) = Some col \<and> j mod 1000 < length col \<and> col ! (j mod 1000) = xs ! j"
    by (auto simp: pa_repr_def)
  define c where "c = cs ! (j div 1000)"
  from r(7) [OF assms(2)] obtain col where col: "pa_cells M c = Some col" "j mod 1000 < length col" by (auto simp: c_def)
  define M' where "M' = M\<lparr>pa_cells := (pa_cells M)(c \<mapsto> col[j mod 1000 := v])\<rparr>"
  have jr: "i div 1000 < length cs" if "i < length xs" for i using row_index_less [OF that] r(4) by simp
  have c: "c \<in> set cs" "c \<noteq> NULL" using jr [OF assms(2)] r(3) by (auto simp: c_def dest: nth_mem)
  have "set_point_value M p (of_nat j) v = Some M'"
    using r col c jr [OF assms(2)] assms(2) by (simp add: set_point_value_def mem_known index_split M'_def c_def)
  moreover have "\<exists>col. pa_cells M' (cs ! (i div 1000)) = Some col \<and> i mod 1000 < length col \<and> col ! (i mod 1000) = xs[j := v] ! i"
    if i: "i < length xs" for i
  proof (cases "i div 1000 = j div 1000")
    case True
    then have "i mod 1000 = j mod 1000 \<longleftrightarrow> i = j" by (metis div_mult_mod_eq)
    with True r(7) [OF i] col i assms(2) show ?thesis by (auto simp: M'_def c_def nth_list_update)
  next
    case False
    then have "cs ! (i div 1000) \<noteq> c" using r(5) jr i assms(2) by (simp add: c_def nth_eq_iff_index_eq)
    with False r(7) [OF i] show ?thesis by (auto simp: M'_def)
  qed
  then have "pa_repr M' p (xs[j := v])" using r by (auto simp: pa_repr_def M'_def)
  ultimately show ?thesis using c r(2) unfolding M'_def by blast
qed

definition pa_write :: "pa_mem \<times> addr \<Rightarrow> nat \<Rightarrow> 64 word \<Rightarrow> (pa_mem \<times> addr) option" where
  "pa_write m j v = do { M \<leftarrow> set_point_value (fst m) (snd m) (of_nat j) v; Some (M, snd m) }"

definition pa_read :: "pa_mem \<times> addr \<Rightarrow> nat \<Rightarrow> 64 word option" where
  "pa_read m j = get_point_value (fst m) (snd m) (of_nat j)"

definition pa_holds :: "pa_mem \<times> addr \<Rightarrow> 64 word list \<Rightarrow> bool" where
  "pa_holds m xs = pa_repr (fst m) (snd m) xs"

interpretation pas: indexed_store pa_holds pa_read pa_write
proof
  fix m :: "pa_mem \<times> addr" and xs :: "64 word list" and i
  assume h: "pa_holds m xs" and i: "i < length xs"
  show "pa_read m i = Some (xs ! i)"
    using get_point_value_inside h i by (simp add: pa_read_def pa_holds_def)
  fix v
  show "\<exists>m'. pa_write m i v = Some m' \<and> pa_holds m' (xs[i := v])"
    using set_point_value_inside [of "fst m" "snd m" xs i v] h i by (auto simp: pa_write_def pa_holds_def)
qed

lemma pa_write_frame:
  assumes "pa_write (M, p) j v = Some m'" and "pa_owns M0 M p cs"
  shows "\<exists>M'. m' = (M', p) \<and> pa_owns M0 M' p cs"
proof -
  from assms(1) obtain rows i c col col' where *: "pa_rows M p = Some rows" "at_index rows i = Some c"
    "pa_cells M c = Some col" "m' = (M\<lparr>pa_cells := (pa_cells M)(c \<mapsto> col')\<rparr>, p)"
    by (auto simp: pa_write_def set_point_value_def bind_eq_Some_conv)
  have "c \<in> set cs" using * assms(2) by (auto simp: pa_owns_def at_index_def split: if_splits)
  then show ?thesis using * assms(2) by (auto simp: pa_owns_def)
qed

lemma write_all_owns:
  "write_all pa_write (M, p) ws = Some m' \<Longrightarrow> pa_owns M0 M p cs \<Longrightarrow> \<exists>M'. m' = (M', p) \<and> pa_owns M0 M' p cs"
proof (induction ws arbitrary: M)
  case Nil
  then show ?case by auto
next
  case (Cons w ws)
  then obtain m1 where m1: "pa_write (M, p) (fst w) (snd w) = Some m1" "write_all pa_write m1 ws = Some m'"
    by (cases w) (auto simp: bind_eq_Some_conv)
  from pa_write_frame [OF m1(1) Cons.prems(2)] obtain M1 where "m1 = (M1, p)" "pa_owns M0 M1 p cs" by blast
  with Cons.IH m1(2) show ?case by blast
qed

section \<open>Creation\<close>

definition pa_fill :: "(addr \<rightharpoonup> 64 word list) \<Rightarrow> (nat \<Rightarrow> addr) \<Rightarrow> (nat \<Rightarrow> nat \<Rightarrow> 64 word) \<Rightarrow> 32 word \<Rightarrow> nat \<Rightarrow> addr \<rightharpoonup> 64 word list" where
  "pa_fill h cols junk sz i = foldl (\<lambda>h k. h(cols k \<mapsto> map (junk k) [0..<unat (col_num sz k)])) h [0..<i]"

lemma pa_fill_Suc: "pa_fill h cols junk sz (Suc i) = (pa_fill h cols junk sz i)(cols i \<mapsto> map (junk i) [0..<unat (col_num sz i)])"
  by (simp add: pa_fill_def)

lemma pa_fill_outside: "a \<notin> cols ` {..<i} \<Longrightarrow> pa_fill h cols junk sz i a = h a"
  by (induction i) (simp_all add: pa_fill_Suc pa_fill_def [of _ _ _ _ 0] lessThan_Suc)

lemma pa_fill_inside: "inj_on cols {..<i} \<Longrightarrow> k < i \<Longrightarrow> pa_fill h cols junk sz i (cols k) = Some (map (junk k) [0..<unat (col_num sz k)])"
proof (induction i)
  case (Suc i)
  then have "inj_on cols {..<i}" "k \<noteq> i \<Longrightarrow> cols k \<noteq> cols i" by (auto simp: inj_on_def)
  with Suc show ?case by (cases "k = i") (simp_all add: pa_fill_Suc)
qed simp

definition pa_built :: "pa_mem \<Rightarrow> addr \<Rightarrow> (nat \<Rightarrow> addr) \<Rightarrow> (nat \<Rightarrow> addr) \<Rightarrow> (nat \<Rightarrow> nat \<Rightarrow> 64 word) \<Rightarrow> 32 word \<Rightarrow> nat \<Rightarrow> pa_mem" where
  "pa_built M p row_junk cols junk sz i =
     M\<lparr>pa_rows := (pa_rows M)(p \<mapsto> map cols [0..<i] @ map row_junk [i..<unat (row_num sz)]),
       pa_cells := pa_fill (pa_cells M) cols junk sz i\<rparr>"

lemma create_rows_built:
  assumes "p \<noteq> NULL" and "\<forall>k < unat (row_num sz). cols k \<noteq> NULL"
  shows "i \<le> unat (row_num sz) \<Longrightarrow>
    create_rows (pa_built M p row_junk cols junk sz i) p cols junk sz i =
    Some (pa_built M p row_junk cols junk sz (unat (row_num sz)))"
proof (induction "unat (row_num sz) - i" arbitrary: i)
  case 0
  then show ?case by (simp add: create_rows.simps)
next
  case (Suc d)
  then have i: "i < unat (row_num sz)" by simp
  then have up: "[i..<unat (row_num sz)] = i # [Suc i..<unat (row_num sz)]" by (simp add: upt_rec)
  have "put_index (map cols [0..<i] @ map row_junk [i..<unat (row_num sz)]) (int i) (cols i) =
      Some (map cols [0..<Suc i] @ map row_junk [Suc i..<unat (row_num sz)])"
    using i up by (simp add: list_update_append)
  then have "create_rows (pa_built M p row_junk cols junk sz i) p cols junk sz i =
      create_rows (pa_built M p row_junk cols junk sz (Suc i)) p cols junk sz (Suc i)"
    using i assms by (subst create_rows.simps, cases M) (simp add: mem_known pa_built_def pa_fill_Suc Let_def)
  then show ?case using Suc i by simp
qed

lemma create_built:
  assumes "p \<noteq> NULL" and "\<forall>k < unat (row_num sz). cols k \<noteq> NULL"
  shows "create_point_array M p row_junk cols junk sz = Some (p, pa_built M p row_junk cols junk sz (unat (row_num sz)))"
  using create_rows_built [OF assms, of 0 M row_junk junk] assms(1)
  by (simp add: create_point_array_def pa_built_def pa_fill_def Let_def)

lemma free_rows_owned:
  assumes "p \<noteq> NULL" and "pa_rows M p = Some cs" and "length cs = unat (row_num sz)" and "distinct cs" and "NULL \<notin> set cs"
  shows "set (drop i cs) \<subseteq> dom h \<Longrightarrow>
    free_rows (M\<lparr>pa_cells := h\<rparr>) p sz i = Some (M\<lparr>pa_cells := h |` (- set (drop i cs))\<rparr>)"
proof (induction "length cs - i" arbitrary: i h)
  case 0
  then show ?case using assms(3) by (subst free_rows.simps) (simp add: restrict_map_def)
next
  case (Suc d)
  then have i: "i < length cs" by simp
  then have dr: "drop i cs = cs ! i # drop (Suc i) cs" by (simp add: Cons_nth_drop_Suc)
  then have "cs ! i \<notin> set (drop (Suc i) cs)" using assms(4) by (metis distinct.simps(2) distinct_drop)
  then have sub: "set (drop (Suc i) cs) \<subseteq> dom (h(cs ! i := None))" using Suc.prems dr by auto
  have "cs ! i \<noteq> NULL" using i assms(5) by (metis nth_mem)
  moreover obtain col where "h (cs ! i) = Some col" using Suc.prems dr by auto
  ultimately have "free_rows (M\<lparr>pa_cells := h\<rparr>) p sz i = free_rows (M\<lparr>pa_cells := h(cs ! i := None)\<rparr>) p sz (Suc i)"
    using i assms by (subst free_rows.simps) (simp add: mem_simps)
  also have "\<dots> = Some (M\<lparr>pa_cells := (h(cs ! i := None)) |` (- set (drop (Suc i) cs))\<rparr>)"
    using Suc.hyps(1) [OF _ sub] Suc.hyps(2) by simp
  finally show ?case unfolding dr by (simp only: list.set restrict_drop(2))
qed

lemma free_point_array_owned:
  assumes "p \<noteq> NULL" and "pa_owns M0 M p cs" and "length cs = unat (row_num sz)" and "distinct cs" and "NULL \<notin> set cs"
    and "pa_rows M0 p = None" and "set cs \<inter> dom (pa_cells M0) = {}"
  shows "free_point_array M p sz = Some M0"
proof -
  have own: "pa_rows M = (pa_rows M0)(p \<mapsto> cs)" "\<And>a. a \<notin> set cs \<Longrightarrow> pa_cells M a = pa_cells M0 a"
    "set cs \<subseteq> dom (pa_cells M)" using assms(2) by (auto simp: pa_owns_def)
  have "pa_cells M |` (- set cs) = pa_cells M0"
    using own(2) assms(7) by (auto simp: restrict_map_def fun_eq_iff domIff disjoint_iff)
  then have "free_rows M p sz 0 = Some (M\<lparr>pa_cells := pa_cells M0\<rparr>)"
    using free_rows_owned [OF assms(1) _ assms(3-5), of M 0 "pa_cells M"] own by simp
  then show ?thesis using own assms(1,6) by (simp add: free_point_array_def release_owned fun_upd_idem)
qed

lemma pa_built_repr:
  assumes "n < 2 ^ 31" and "p \<noteq> NULL" and "inj_on cols {..<(n + 999) div 1000}" and "\<forall>k < (n + 999) div 1000. cols k \<noteq> NULL"
  shows "pa_repr (pa_built M p row_junk cols junk (of_nat n) ((n + 999) div 1000)) p (map (\<lambda>j. junk (j div 1000) (j mod 1000)) [0..<n])"
proof -
  define r where "r = (n + 999) div 1000"
  have rn: "unat (row_num (of_nat n)) = r" using row_num_nat [OF assms(1)] by (simp add: r_def)
  have "distinct (map cols [0..<r])" using assms(3) by (simp add: distinct_map r_def atLeast0LessThan)
  moreover have "NULL \<notin> set (map cols [0..<r])" using assms(4) by (auto simp: r_def)
  moreover have "\<exists>col. pa_fill (pa_cells M) cols junk (of_nat n) r (map cols [0..<r] ! (j div 1000)) = Some col \<and>
      j mod 1000 < length col \<and> col ! (j mod 1000) = junk (j div 1000) (j mod 1000)" if "j < n" for j
  proof -
    have k: "j div 1000 < r" using row_index_less [OF that] by (simp add: r_def)
    have "j mod 1000 < n - 1000 * (j div 1000)" using that by (metis add_diff_cancel_left' diff_less_mono le_add1 mult_div_mod_eq)
    then have "j mod 1000 < unat (col_num (of_nat n) (j div 1000))" using col_num_nat [OF assms(1)] k by (simp add: r_def)
    with k pa_fill_inside [OF assms(3), of "j div 1000"] show ?thesis by (simp add: r_def)
  qed
  ultimately show ?thesis using assms(1,2) rn by (simp add: pa_repr_def pa_built_def r_def)
qed

section \<open>Properties\<close>



text \<open>
  The size is computed in unsigned arithmetic without a check: a size between \<open>-999\<close> and \<open>0\<close> gives an array with no rows,
  on which every access leaves the row table.
\<close>

lemma point_array_negative_size:
  assumes "n < 1000" and "p \<noteq> NULL"
  shows "\<exists>M0. create_point_array M p row_junk cols junk (- of_nat n) = Some (p, M0) \<and> pa_rows M0 p = Some [] \<and>
    (\<forall>j. get_point_value M0 p j = None)"
proof -
  have "(- of_nat n + 1000 - 1 :: 32 word) = of_nat (999 - n)" using assms(1) by (simp add: of_nat_diff)
  then have "row_num (- of_nat n) = 0" using assms(1) unfolding row_num_def max_col_num_1000
    by (intro word_unat_eq_iff [THEN iffD2]) (simp add: unat_div_distrib unat_of_nat32 del: of_nat_diff)
  then show ?thesis using assms(2) create_built [OF assms(2), of "- of_nat n" cols]
    by (auto simp: pa_built_def get_point_value_def at_index_def mem_known)
qed

end
