(* ===== verification/Byte_Codec.thy ===== *)
theory Byte_Codec
  imports C_String C_Int
begin

text \<open>
  Memory seen as bytes: bounded writes into a buffer, little-endian words in a buffer, and the string that starts at an
  offset.  An access outside the buffer is \<open>None\<close>.  The byte order is the one of the targets the program is built for (x86-64).
\<close>

section \<open>Little-endian words\<close>

fun le_bytes :: "nat \<Rightarrow> 'a::len word \<Rightarrow> byte list" where
  "le_bytes 0 w = []"
| "le_bytes (Suc n) w = ucast w # le_bytes n (drop_bit 8 w)"

fun of_le :: "byte list \<Rightarrow> 'a::len word" where
  "of_le [] = 0"
| "of_le (b # bs) = ucast b OR push_bit 8 (of_le bs)"

lemma length_le_bytes [simp]: "length (le_bytes n w) = n"
  by (induction n arbitrary: w) auto

lemma of_le_bytes: "of_le (le_bytes n w) = take_bit (8 * n) w"
proof (induction n arbitrary: w)
  case (Suc n)
  have "ucast (ucast w :: byte) OR push_bit 8 (take_bit (8 * n) (drop_bit 8 w)) = take_bit (8 * Suc n) w"
    by (rule bit_word_eqI) (auto simp: bit_simps)
  then show ?case using Suc by simp
qed simp

lemma of_le_u32 [simp]: "of_le (le_bytes 4 w) = w" for w :: "32 word"
  by (simp add: of_le_bytes take_bit_word_eq_self)

lemma of_le_u64 [simp]: "of_le (le_bytes 8 w) = w" for w :: "64 word"
  by (simp add: of_le_bytes take_bit_word_eq_self)

abbreviation u32_bytes :: "32 word \<Rightarrow> byte list" where
  "u32_bytes \<equiv> le_bytes 4"

abbreviation u64_bytes :: "64 word \<Rightarrow> byte list" where
  "u64_bytes \<equiv> le_bytes 8"

lemma u32_bytes_small: "n < 256 \<Longrightarrow> u32_bytes (of_nat n) = [of_nat n, 0, 0, 0]"
proof -
  assume n: "n < 256"
  have e: "(of_nat n :: 32 word) = take_bit 8 (of_nat n)" using n by (simp add: take_bit_of_nat take_bit_nat_eq_self)
  have d: "drop_bit (8 + k) (of_nat n :: 32 word) = 0" for k
    by (subst e) (simp add: drop_bit_take_bit del: take_bit_of_nat)
  have u: "ucast (of_nat n :: 32 word) = (of_nat n :: byte)" by (rule bit_word_eqI) (auto simp: bit_simps)
  have four: "(4 :: nat) = Suc (Suc (Suc (Suc 0)))" by simp
  show ?thesis using d [of 0] d [of 8] d [of 16] by (simp add: four u)
qed

section \<open>Buffers\<close>

definition put_bytes :: "byte list \<Rightarrow> nat \<Rightarrow> byte list \<Rightarrow> byte list option" where
  "put_bytes buf off bs =
     (if off + length bs \<le> length buf then Some (take off buf @ bs @ drop (off + length bs) buf) else None)"

definition get_bytes :: "byte list \<Rightarrow> nat \<Rightarrow> nat \<Rightarrow> byte list option" where
  "get_bytes buf off n = (if off + n \<le> length buf then Some (take n (drop off buf)) else None)"

definition get_u32 :: "byte list \<Rightarrow> nat \<Rightarrow> 32 word option" where
  "get_u32 buf off = map_option of_le (get_bytes buf off 4)"

definition get_u64 :: "byte list \<Rightarrow> nat \<Rightarrow> 64 word option" where
  "get_u64 buf off = map_option of_le (get_bytes buf off 8)"

text \<open>The string at an offset: it must be terminated inside the buffer.\<close>

definition string_at :: "byte list \<Rightarrow> nat \<Rightarrow> byte list option" where
  "string_at buf off =
     (let s = takeWhile (\<lambda>b. b \<noteq> 0) (drop off buf) in if off + length s < length buf then Some s else None)"

lemma length_put_bytes: "put_bytes buf off bs = Some buf' \<Longrightarrow> length buf' = length buf"
  by (auto simp: put_bytes_def split: if_splits)

text \<open>Writing at the end of what has been written.\<close>

lemma put_bytes_at_end:
  "length (xs @ bs) \<le> length buf \<Longrightarrow>
   put_bytes (xs @ drop (length xs) buf) (length xs) bs = Some ((xs @ bs) @ drop (length (xs @ bs)) buf)"
  by (simp add: put_bytes_def add.commute)

lemma get_bytes_at: "get_bytes (xs @ bs @ ys) (length xs) (length bs) = Some bs"
  by (simp add: get_bytes_def)

lemma get_u32_at: "get_u32 (xs @ u32_bytes w @ ys) (length xs) = Some w"
  using get_bytes_at [of xs "u32_bytes w" ys] by (simp add: get_u32_def del: le_bytes.simps)

lemma get_u64_at: "get_u64 (xs @ u64_bytes w @ ys) (length xs) = Some w"
  using get_bytes_at [of xs "u64_bytes w" ys] by (simp add: get_u64_def del: le_bytes.simps)

lemma takeWhile_plain: "0 \<notin> set s \<Longrightarrow> takeWhile (\<lambda>b. b \<noteq> 0) (s @ 0 # ys) = s" for s :: "byte list"
  by (induction s) auto

lemma string_at_terminated: "0 \<notin> set s \<Longrightarrow> string_at (xs @ s @ 0 # ys) (length xs) = Some s"
  by (simp add: string_at_def takeWhile_plain)

end
