(* ===== verification/Sys_Io.thy ===== *)
theory Sys_Io
  imports Byte_Codec
begin

text \<open>
  The retry loops around \<^verbatim>\<open>read(2)\<close> and \<^verbatim>\<open>write(2)\<close> of \<^verbatim>\<open>src/cli/cli_server.c\<close>.  What the kernel does is an argument: a
  descriptor open for reading is the list of what arrives on it (chunks of bytes and failures, then end of file), and a
  descriptor open for writing is the list of how much each call accepts.  A call of \<^verbatim>\<open>read\<close> returns at most as many bytes as
  it asks for and leaves the others; a writer that runs out of answers blocks for ever, which is \<open>None\<close>.
\<close>

definition EINTR :: int where
  "EINTR = 4"

section \<open>Reading\<close>

datatype rd_event = Chunk "byte list" | Rd_Fail int

datatype rd_result = Rd_Data "byte list" | Rd_Eof | Rd_Error int

fun sys_read :: "rd_event list \<Rightarrow> nat \<Rightarrow> rd_result \<times> rd_event list" where
  "sys_read [] n = (Rd_Eof, [])"
| "sys_read (Chunk bs # es) n =
     (if bs = [] then sys_read es n
      else if length bs \<le> n then (Rd_Data bs, es)
      else (Rd_Data (take n bs), Chunk (drop n bs) # es))"
| "sys_read (Rd_Fail e # es) n = (Rd_Error e, es)"

fun ev_size :: "rd_event \<Rightarrow> nat" where
  "ev_size (Chunk bs) = Suc (length bs)"
| "ev_size (Rd_Fail e) = 1"

abbreviation evs_size :: "rd_event list \<Rightarrow> nat" where
  "evs_size es \<equiv> sum_list (map ev_size es)"

lemma sys_read_progress: "sys_read es n = (r, es') \<Longrightarrow> 0 < n \<Longrightarrow> r \<noteq> Rd_Eof \<Longrightarrow> evs_size es' < evs_size es"
  by (induction es n rule: sys_read.induct) (auto split: if_splits)

function safe_read :: "rd_event list \<Rightarrow> byte list \<Rightarrow> nat \<Rightarrow> nat \<Rightarrow> nat \<Rightarrow> (int \<times> byte list \<times> rd_event list) option" where
  "safe_read es buf pos count cnt =
     (if cnt < count then
        (case sys_read es (count - cnt) of
           (Rd_Eof, es) \<Rightarrow> Some (int cnt, buf, es)
         | (Rd_Error e, es) \<Rightarrow> if e = EINTR then safe_read es buf pos count cnt else Some (- e, buf, es)
         | (Rd_Data bs, es) \<Rightarrow>
             do { buf \<leftarrow> put_bytes buf (pos + cnt) bs;
                  safe_read es buf pos count (cnt + length bs) })
      else Some (int cnt, buf, es))"
  by pat_completeness auto
termination
proof (relation "measure (\<lambda>(es, buf, pos, count, cnt). evs_size es)", goal_cases)
  case (2 es buf pos count cnt x es' bs)
  then show ?case using sys_read_progress [of es "count - cnt" "Rd_Data bs" es'] by simp
next
  case (3 es buf pos count cnt x es' e)
  then show ?case using sys_read_progress [of es "count - cnt" "Rd_Error e" es'] by simp
qed simp

declare safe_read.simps [simp del]

text \<open>
  The bytes that arrive before the first failure other than an interrupted call, and what ends them: end of file
  (\<open>None\<close>) or the failure.
\<close>

fun arriving :: "rd_event list \<Rightarrow> byte list" where
  "arriving [] = []"
| "arriving (Chunk bs # es) = bs @ arriving es"
| "arriving (Rd_Fail e # es) = (if e = EINTR then arriving es else [])"

fun stream_end :: "rd_event list \<Rightarrow> int option" where
  "stream_end [] = None"
| "stream_end (Chunk bs # es) = stream_end es"
| "stream_end (Rd_Fail e # es) = (if e = EINTR then stream_end es else Some e)"

lemma sys_read_data:
  "sys_read es n = (Rd_Data bs, es') \<Longrightarrow> 0 < n \<Longrightarrow>
   bs \<noteq> [] \<and> length bs \<le> n \<and> arriving es = bs @ arriving es' \<and> stream_end es' = stream_end es"
  by (induction es n rule: sys_read.induct) (auto split: if_splits)

lemma sys_read_error:
  "sys_read es n = (Rd_Error e, es') \<Longrightarrow>
   arriving es = (if e = EINTR then arriving es' else []) \<and> stream_end es = (if e = EINTR then stream_end es' else Some e)"
  by (induction es n rule: sys_read.induct) (auto split: if_splits)

lemma sys_read_eof: "sys_read es n = (Rd_Eof, es') \<Longrightarrow> arriving es = [] \<and> stream_end es = None \<and> es' = []"
  by (induction es n rule: sys_read.induct) (auto split: if_splits)

text \<open>The value returned: the full count, the bytes before end of file, or the negated error.\<close>

definition safe_read_ret :: "rd_event list \<Rightarrow> nat \<Rightarrow> int" where
  "safe_read_ret es n =
     (if n \<le> length (arriving es) then int n
      else case stream_end es of None \<Rightarrow> int (length (arriving es)) | Some e \<Rightarrow> - e)"

definition overwrite :: "byte list \<Rightarrow> nat \<Rightarrow> byte list \<Rightarrow> byte list" where
  "overwrite buf off bs = take off buf @ bs @ drop (off + length bs) buf"

lemma put_bytes_overwrite: "off + length bs \<le> length buf \<Longrightarrow> put_bytes buf off bs = Some (overwrite buf off bs)"
  by (simp add: put_bytes_def overwrite_def)

lemma length_overwrite [simp]: "off + length bs \<le> length buf \<Longrightarrow> length (overwrite buf off bs) = length buf"
  by (simp add: overwrite_def)

lemma overwrite_nil [simp]: "overwrite buf off [] = buf"
  by (simp add: overwrite_def)

lemma overwrite_overwrite:
  "off + length bs + length cs \<le> length buf \<Longrightarrow>
   overwrite (overwrite buf off bs) (off + length bs) cs = overwrite buf off (bs @ cs)"
  by (simp add: overwrite_def ac_simps)

lemma safe_read_correct:
  assumes "pos + count \<le> length buf" and "cnt \<le> count"
  shows "\<exists>es'. safe_read es buf pos count cnt =
      Some (if count - cnt \<le> length (arriving es) then int count
            else case stream_end es of None \<Rightarrow> int (cnt + length (arriving es)) | Some e \<Rightarrow> - e,
            overwrite buf (pos + cnt) (take (count - cnt) (arriving es)), es') \<and>
      (count - cnt \<le> length (arriving es) \<longrightarrow>
         arriving es' = drop (count - cnt) (arriving es) \<and> stream_end es' = stream_end es)"
  using assms
proof (induction es buf pos count cnt rule: safe_read.induct)
  case (1 es buf pos count cnt)
  show ?case
  proof (cases "cnt < count")
    case False
    with 1 show ?thesis by (subst safe_read.simps) simp
  next
    case lt: True
    obtain r es1 where r: "sys_read es (count - cnt) = (r, es1)" by (cases "sys_read es (count - cnt)")
    show ?thesis
    proof (cases r)
      case Rd_Eof
      with r lt sys_read_eof [of es] show ?thesis by (subst safe_read.simps) simp
    next
      case (Rd_Error e)
      with r sys_read_error [of es "count - cnt" e es1] lt 1(2) [OF lt r [symmetric] Rd_Error] 1(3,4) r
      show ?thesis by (subst safe_read.simps) (auto split: option.splits)
    next
      case (Rd_Data bs)
      define m where "m = length bs"
      from sys_read_data [of es "count - cnt" bs es1] r Rd_Data lt
      have d: "bs \<noteq> []" "m \<le> count - cnt" "arriving es = bs @ arriving es1" "stream_end es1 = stream_end es"
        by (auto simp: m_def)
      define buf1 where "buf1 = overwrite buf (pos + cnt) bs"
      have p: "put_bytes buf (pos + cnt) bs = Some buf1" and l: "length buf1 = length buf"
        using d 1(3,4) lt by (simp_all add: buf1_def put_bytes_overwrite m_def)
      have c: "count - (cnt + m) = count - cnt - m" by simp
      have o: "overwrite buf1 (pos + (cnt + m)) (take (count - (cnt + m)) (arriving es1)) =
          overwrite buf (pos + cnt) (take (count - cnt) (arriving es))"
      proof -
        have "pos + cnt + length bs + length (take (count - cnt - m) (arriving es1)) \<le> length buf"
          using 1(3,4) d(2) by (auto simp: m_def min_def)
        from overwrite_overwrite [OF this] show ?thesis using d by (simp add: buf1_def m_def add.assoc)
      qed
      have pre: "pos + count \<le> length buf1" "cnt + length bs \<le> count" using l 1(3) d(2) lt by (simp_all add: m_def)
      from 1(1) [OF lt r [symmetric] Rd_Data p pre] obtain es2 where
        ih: "safe_read es1 buf1 pos count (cnt + m) =
          Some (if count - (cnt + m) \<le> length (arriving es1) then int count
            else case stream_end es1 of None \<Rightarrow> int (cnt + m + length (arriving es1)) | Some e \<Rightarrow> - e,
            overwrite buf1 (pos + (cnt + m)) (take (count - (cnt + m)) (arriving es1)), es2)"
        "count - (cnt + m) \<le> length (arriving es1) \<longrightarrow>
         arriving es2 = drop (count - (cnt + m)) (arriving es1) \<and> stream_end es2 = stream_end es1" unfolding m_def by blast
      have le: "count - (cnt + m) \<le> length (arriving es1) \<longleftrightarrow> count - cnt \<le> length (arriving es)"
        using d by (auto simp: m_def)
      show ?thesis using ih r Rd_Data p lt d le unfolding o
        by (subst safe_read.simps) (auto simp: m_def add.assoc split: option.splits)
    qed
  qed
qed

section \<open>Writing\<close>

datatype wr_event = Wrote nat | Wr_Fail int

definition wr_slice :: "byte list \<Rightarrow> int \<Rightarrow> int \<Rightarrow> byte list option" where
  "wr_slice buf b len =
     (if 0 \<le> b \<and> 0 \<le> len \<and> b + len \<le> int (length buf) then Some (take (nat len) (drop (nat b) buf)) else None)"

text \<open>
  \<open>b\<close> is the offset of the pointer in the buffer and \<open>out\<close> what has reached the other side.  When a call is interrupted,
  \<^verbatim>\<open>res\<close> is \<open>-1\<close> and is subtracted and added all the same.
\<close>

fun safe_write :: "wr_event list \<Rightarrow> byte list \<Rightarrow> int \<Rightarrow> int \<Rightarrow> byte list \<Rightarrow> (int \<times> byte list \<times> wr_event list) option" where
  "safe_write [] buf b len out = None"
| "safe_write (Wrote n # es) buf b len out =
     do { bs \<leftarrow> wr_slice buf b len;
          let res = min (int n) len;
          let out = out @ take n bs;
          if len - res \<le> 0 then Some (0, out, es)
          else safe_write es buf (b + res) (len - res) out }"
| "safe_write (Wr_Fail e # es) buf b len out =
     (if e \<noteq> EINTR then Some (e, out, es)
      else if len - (- 1) \<le> 0 then Some (0, out, es)
      else safe_write es buf (b + (- 1)) (len - (- 1)) out)"

fun wrote :: "wr_event \<Rightarrow> nat" where
  "wrote (Wrote n) = n"
| "wrote (Wr_Fail e) = 0"

definition uninterrupted :: "wr_event list \<Rightarrow> bool" where
  "uninterrupted es \<longleftrightarrow> (\<forall>e. Wr_Fail e \<notin> set es)"

lemma safe_write_correct:
  "uninterrupted es \<Longrightarrow> es \<noteq> [] \<Longrightarrow> m \<le> sum_list (map wrote es) \<Longrightarrow> k + m \<le> length buf \<Longrightarrow>
   \<exists>es'. safe_write es buf (int k) (int m) out = Some (0, out @ take m (drop k buf), es')"
proof (induction es arbitrary: k m out)
  case (Cons e es)
  then obtain n where e: "e = Wrote n" by (cases e) (auto simp: uninterrupted_def)
  have s: "wr_slice buf (int k) (int m) = Some (take m (drop k buf))" using Cons.prems(4) by (simp add: wr_slice_def)
  show ?case
  proof (cases "m \<le> n")
    case True
    then show ?thesis using s e by (simp add: min_def)
  next
    case False
    define r where "r = m - n"
    have r: "m = n + r" "0 < r" using False by (simp_all add: r_def)
    have es: "uninterrupted es" "es \<noteq> []" "r \<le> sum_list (map wrote es)" "k + n + r \<le> length buf"
      using Cons.prems e r by (auto simp: uninterrupted_def)
    from Cons.IH [OF es(1-3) es(4), of "out @ take n (drop k buf)"] obtain es' where
      "safe_write es buf (int (k + n)) (int r) (out @ take n (drop k buf)) =
        Some (0, (out @ take n (drop k buf)) @ take r (drop (k + n) buf), es')" by blast
    moreover have "take n (drop k buf) @ take r (drop (k + n) buf) = take m (drop k buf)"
      using r by (simp add: take_add add.commute)
    ultimately show ?thesis using s e r by (auto simp: min_def)
  qed
qed simp

lemma safe_write_interrupted:
  assumes "0 < k" and "k < m" and "m \<le> length buf" and "m - k < n"
  shows "safe_write [Wrote k, Wr_Fail EINTR, Wrote n] buf 0 (int m) [] =
    Some (0, take k buf @ take (Suc (m - k)) (drop (k - 1) buf), [])"
proof -
  have n: "n = Suc (m - k) \<or> Suc (m - k) < n" using assms(4) by linarith
  have "wr_slice buf 0 (int m) = Some (take m buf)" using assms by (simp add: wr_slice_def)
  moreover have "wr_slice buf (int k - 1) (int m - int k + 1) = Some (take (Suc (m - k)) (drop (k - 1) buf))"
    using assms by (simp add: wr_slice_def nat_diff_distrib nat_add_distrib of_nat_diff [symmetric] del: of_nat_diff)
  ultimately show ?thesis using assms n by (auto simp: min_def Let_def)
qed

section \<open>Properties\<close>

text \<open>
  C15: \<^verbatim>\<open>safe_read\<close> hides short reads and interrupted calls.  However the bytes are split into chunks and wherever a call is
  interrupted, it terminates and stores the first \<open>count\<close> bytes that arrive and returns \<open>count\<close>, leaving exactly the rest
  for the next call; at end of file it stores and returns what there was; another failure gives the negated error.
\<close>

theorem safe_read_spec:
  assumes "pos + count \<le> length buf"
  shows "\<exists>es'. safe_read es buf pos count 0 =
      Some (safe_read_ret es count, overwrite buf pos (take count (arriving es)), es') \<and>
      (count \<le> length (arriving es) \<longrightarrow> arriving es' = drop count (arriving es) \<and> stream_end es' = stream_end es)"
  using safe_read_correct [OF assms, of 0 es] by (cases "stream_end es") (auto simp: safe_read_ret_def)

theorem safe_read_witness:
  "\<exists>es'. safe_read [Chunk [7], Rd_Fail EINTR, Chunk [8, 9]] [0, 0, 0, 0] 1 2 0 = Some (2, [0, 7, 8, 0], es') \<and> arriving es' = [9]"
  using safe_read_spec [of 1 2 "[0, 0, 0, 0]" "[Chunk [7], Rd_Fail EINTR, Chunk [8, 9]]"]
  by (auto simp: safe_read_ret_def overwrite_def)

text \<open>
  \<^verbatim>\<open>safe_write\<close> hides short writes: if no call fails and the calls accept enough bytes in all, it returns 0 and exactly
  the buffer has been sent.
\<close>

lemma safe_write_spec:
  assumes "uninterrupted es" and "es \<noteq> []" and "length buf \<le> sum_list (map wrote es)"
  shows "\<exists>es'. safe_write es buf 0 (int (length buf)) [] = Some (0, buf, es')"
  using safe_write_correct [OF assms, of 0 buf "[]"] by simp

text \<open>
  C37: \<^verbatim>\<open>safe_write\<close> does not handle the interrupted call it says it handles: an \<^verbatim>\<open>EINTR\<close> after \<open>k\<close> bytes moves the pointer back, so
  byte \<open>k\<close> is sent twice, and an \<^verbatim>\<open>EINTR\<close> of the first call sends from in front of the buffer.
\<close>

theorem safe_write_eintr:
  assumes "k < m" and "m \<le> length buf" and "m - k < n"
  shows "safe_write ((if k = 0 then [] else [Wrote k]) @ [Wr_Fail EINTR, Wrote n]) buf 0 (int m) [] =
    (if k = 0 then None else Some (0, take k buf @ [buf ! (k - 1)] @ take (m - k) (drop k buf), []))"
proof (cases "k = 0")
  case True
  with assms show ?thesis by (simp add: wr_slice_def)
next
  case False
  with assms have "take (Suc (m - k)) (drop (k - 1) buf) = buf ! (k - 1) # take (m - k) (drop k buf)"
    by (metis Cons_nth_drop_Suc One_nat_def Suc_pred less_imp_diff_less less_le_trans neq0_conv take_Suc_Cons)
  with False assms show ?thesis using safe_write_interrupted [of k m buf n] by (simp del: safe_write.simps)
qed

theorem safe_write_eintr_witness:
  "safe_write [Wrote 1, Wr_Fail EINTR, Wrote 9] [1, 2, 3] 0 3 [] = Some (0, [1, 1, 2, 3], [])"
  using safe_write_eintr [of 1 3 "[1, 2, 3]" 9] by simp

end
