(* ===== verification/Cli_Msg.thy ===== *)
theory Cli_Msg
  imports Sys_Io
begin

text \<open>
  The request format of the command line interface: \<^verbatim>\<open>msg_encode\<close> and \<^verbatim>\<open>msg_decode\<close> of \<^verbatim>\<open>src/cli/cli_server.c\<close> on byte
  buffers.  Pointers into the buffer are offsets.  A failed \<^verbatim>\<open>assert\<close> ends the process, which is the result \<open>Aborted\<close>;
  an access outside a buffer or array is \<open>None\<close>.
\<close>

definition COMMAND_MAX_LEN :: nat where
  "COMMAND_MAX_LEN = 32"

definition COMMAND_MAX_ARGC :: nat where
  "COMMAND_MAX_ARGC = 32"

section \<open>Encoding\<close>

text \<open>
  A length-prefixed string at \<^verbatim>\<open>offset\<close>, as both \<^verbatim>\<open>sub_command\<close> and each \<^verbatim>\<open>argv[i]\<close> are written: \<^verbatim>\<open>strlen + 1\<close> as a
  32-bit word, then \<^verbatim>\<open>sprintf\<close> of the string with its terminator.
\<close>

definition put_string :: "byte list \<Rightarrow> nat \<Rightarrow> byte list \<Rightarrow> (nat \<times> byte list) option" where
  "put_string buf offset s =
     do { buf \<leftarrow> put_bytes buf offset (u32_bytes (of_nat (length s + 1)));
          buf \<leftarrow> put_bytes buf (offset + 4) (s @ [0]);
          Some (offset + 4 + (length s + 1), buf) }"

function msg_encode_args :: "byte list \<Rightarrow> nat \<Rightarrow> 32 word \<Rightarrow> byte list list \<Rightarrow> nat \<Rightarrow> (nat \<times> byte list) option" where
  "msg_encode_args buf offset argc argv i =
     (if i < unat argc then
        do { s \<leftarrow> at_index argv (int i);
             (offset, buf) \<leftarrow> put_string buf offset s;
             msg_encode_args buf offset argc argv (i + 1) }
      else Some (offset, buf))"
  by pat_completeness auto
termination by (relation "measure (\<lambda>(buf, offset, argc, argv, i). unat argc - i)") auto

declare msg_encode_args.simps [simp del]

definition msg_encode :: "byte list \<Rightarrow> byte list \<Rightarrow> 32 word \<Rightarrow> byte list list \<Rightarrow> (nat \<times> byte list) option" where
  "msg_encode buf sub_command argc argv =
     do { (offset, buf) \<leftarrow> put_string buf 0 sub_command;
          buf \<leftarrow> put_bytes buf offset (u32_bytes argc);
          (offset, buf) \<leftarrow> msg_encode_args buf (offset + 4) argc argv 0;
          buf \<leftarrow> put_bytes buf offset [13];
          buf \<leftarrow> put_bytes buf (offset + 1) [10];
          Some (offset + 2, buf) }"

section \<open>Decoding\<close>

text \<open>The entries of \<^verbatim>\<open>argv\<close> are offsets into the buffer; \<open>None\<close> is the \<^verbatim>\<open>NULL\<close> they start with.\<close>

function msg_decode_args :: "byte list \<Rightarrow> nat \<Rightarrow> 32 word \<Rightarrow> nat option list \<Rightarrow> nat \<Rightarrow> (nat \<times> nat option list) run option" where
  "msg_decode_args buf offset argc argv i =
     (if i < unat argc then
        do { arg_len \<leftarrow> get_u32 buf offset;
             if \<not> arg_len \<le> of_nat COMMAND_MAX_LEN then Some Aborted
             else do {
               argv \<leftarrow> put_index argv (int i) (Some (offset + 4));
               msg_decode_args buf (offset + 4 + unat arg_len) argc argv (i + 1) } }
      else Some (Done (offset, argv)))"
  by pat_completeness auto
termination by (relation "measure (\<lambda>(buf, offset, argc, argv, i). unat argc - i)") auto

declare msg_decode_args.simps [simp del]

text \<open>The result: the offset returned, \<^verbatim>\<open>*sub_command\<close>, \<^verbatim>\<open>*argc\<close> and the array \<^verbatim>\<open>argv\<close>.\<close>

definition msg_decode :: "byte list \<Rightarrow> nat option list \<Rightarrow> (nat \<times> nat \<times> 32 word \<times> nat option list) run option" where
  "msg_decode buf argv =
     do { subcommand_len \<leftarrow> get_u32 buf 0;
          if \<not> subcommand_len \<le> of_nat COMMAND_MAX_LEN then Some Aborted
          else do {
            let offset = 4 + unat subcommand_len;
            decode_argc \<leftarrow> get_u32 buf offset;
            if \<not> decode_argc \<le> of_nat COMMAND_MAX_LEN then Some Aborted
            else do {
              r \<leftarrow> msg_decode_args buf (offset + 4) decode_argc argv 0;
              case r of Aborted \<Rightarrow> Some Aborted
              | Done (offset, argv) \<Rightarrow> Some (Done (offset, 4, decode_argc, argv)) } } }"

section \<open>The format\<close>

definition frame :: "byte list \<Rightarrow> byte list" where
  "frame s = u32_bytes (of_nat (length s + 1)) @ s @ [0]"

definition frames :: "byte list list \<Rightarrow> byte list" where
  "frames ss = concat (map frame ss)"

definition message_body :: "byte list \<Rightarrow> byte list list \<Rightarrow> byte list" where
  "message_body sub args = frame sub @ u32_bytes (of_nat (length args)) @ frames args"

definition message :: "byte list \<Rightarrow> byte list list \<Rightarrow> byte list" where
  "message sub args = message_body sub args @ [13, 10]"

definition plain_arg :: "byte list \<Rightarrow> bool" where
  "plain_arg s \<longleftrightarrow> 0 \<notin> set s \<and> length s < COMMAND_MAX_LEN"

lemma frames_simps [simp]: "frames [] = []" "frames (s # ss) = frame s @ frames ss" "frames (ss @ ts) = frames ss @ frames ts"
  by (simp_all add: frames_def)

lemma length_frame [simp]: "length (frame s) = length s + 5"
  by (simp add: frame_def)

lemma put_string_frame:
  assumes "length (xs @ frame s) \<le> length buf"
  shows "put_string (xs @ drop (length xs) buf) (length xs) s =
    Some (length (xs @ frame s), (xs @ frame s) @ drop (length (xs @ frame s)) buf)"
proof -
  define u where "u = u32_bytes (of_nat (length s + 1))"
  have u: "length u = 4" "frame s = u @ s @ [0]" by (simp_all add: u_def frame_def)
  have "put_bytes (xs @ drop (length xs) buf) (length xs) u = Some ((xs @ u) @ drop (length (xs @ u)) buf)"
    using assms by (intro put_bytes_at_end) (simp add: u(1))
  moreover have "put_bytes ((xs @ u) @ drop (length (xs @ u)) buf) (length (xs @ u)) (s @ [0]) =
      Some (((xs @ u) @ s @ [0]) @ drop (length ((xs @ u) @ s @ [0])) buf)"
    using assms by (intro put_bytes_at_end) (simp add: u(1))
  ultimately show ?thesis
    unfolding put_string_def u_def [symmetric] by (simp add: u ac_simps)
qed

lemma msg_encode_args_frames:
  assumes "unat argc = length argv"
  shows "i \<le> length argv \<Longrightarrow> length (xs @ frames (drop i argv)) \<le> length buf \<Longrightarrow>
    msg_encode_args (xs @ drop (length xs) buf) (length xs) argc argv i =
    Some (length (xs @ frames (drop i argv)),
      (xs @ frames (drop i argv)) @ drop (length (xs @ frames (drop i argv))) buf)"
proof (induction "length argv - i" arbitrary: i xs)
  case 0
  then show ?case using assms by (subst msg_encode_args.simps) simp
next
  case (Suc d)
  then have i: "i < length argv" by simp
  then have dr: "drop i argv = argv ! i # drop (Suc i) argv" by (simp add: Cons_nth_drop_Suc)
  have le: "length ((xs @ frame (argv ! i)) @ frames (drop (Suc i) argv)) \<le> length buf" using Suc.prems(2) dr by simp
  have "put_string (xs @ drop (length xs) buf) (length xs) (argv ! i) =
      Some (length (xs @ frame (argv ! i)), (xs @ frame (argv ! i)) @ drop (length (xs @ frame (argv ! i))) buf)"
    using le by (intro put_string_frame) simp
  moreover have "msg_encode_args ((xs @ frame (argv ! i)) @ drop (length (xs @ frame (argv ! i))) buf)
      (length (xs @ frame (argv ! i))) argc argv (Suc i) =
    Some (length ((xs @ frame (argv ! i)) @ frames (drop (Suc i) argv)),
      ((xs @ frame (argv ! i)) @ frames (drop (Suc i) argv)) @ drop (length ((xs @ frame (argv ! i)) @ frames (drop (Suc i) argv))) buf)"
    using Suc.hyps(2) i by (intro Suc.hyps(1) le) auto
  ultimately show ?case using i assms dr by (subst msg_encode_args.simps) (simp del: append_assoc length_append add: append_assoc [symmetric])
qed

lemma msg_encode_message:
  assumes "length args < 2 ^ 32" and "length (message sub args) \<le> length buf"
  shows "msg_encode buf sub (of_nat (length args)) args =
    Some (length (message sub args), message sub args @ drop (length (message sub args)) buf)"
proof -
  define u where "u = u32_bytes (of_nat (length args))"
  define h where "h = frame sub @ u"
  have u: "length u = 4" by (simp add: u_def)
  have m: "message sub args = (h @ frames args) @ [13, 10]" by (simp add: message_def message_body_def h_def u_def)
  have n: "unat (of_nat (length args) :: 32 word) = length args" using assms(1) by (rule unat_of_nat32)
  have le: "length h + length (frames args) + 2 \<le> length buf" using assms(2) by (simp add: m)
  have s1: "put_string buf 0 sub = Some (length (frame sub), frame sub @ drop (length (frame sub)) buf)"
    using put_string_frame [of "[]" sub buf] le by (simp add: h_def u)
  have s2: "put_bytes (frame sub @ drop (length (frame sub)) buf) (length (frame sub)) u = Some (h @ drop (length h) buf)"
    using put_bytes_at_end [of "frame sub" u buf] le by (simp add: h_def)
  have s3: "msg_encode_args (h @ drop (length h) buf) (length h) (of_nat (length args)) args 0 =
      Some (length (h @ frames args), (h @ frames args) @ drop (length (h @ frames args)) buf)"
    using msg_encode_args_frames [OF n, of 0 h buf] le by simp
  have s4: "put_bytes ((h @ frames args) @ drop (length (h @ frames args)) buf) (length (h @ frames args)) [13] =
      Some (((h @ frames args) @ [13]) @ drop (length ((h @ frames args) @ [13])) buf)"
    using le by (intro put_bytes_at_end) simp
  have s5: "put_bytes (((h @ frames args) @ [13]) @ drop (length ((h @ frames args) @ [13])) buf) (length ((h @ frames args) @ [13])) [10] =
      Some ((((h @ frames args) @ [13]) @ [10]) @ drop (length (((h @ frames args) @ [13]) @ [10])) buf)"
    using le by (intro put_bytes_at_end) simp
  have l: "length (frame sub) + 4 = length h" "length (h @ frames args) + 1 = length ((h @ frames args) @ [13])"
    "length (h @ frames args) + 2 = length (message sub args)" by (simp_all add: h_def u m)
  have m2: "((h @ frames args) @ [13]) @ [10] = message sub args" by (simp add: m)
  show ?thesis unfolding msg_encode_def u_def [symmetric] s1
    by (simp only: bind.simps case_prod_conv s2 l(1) s3 s4 l(2) s5 l(3) m2 Option.bind.bind_lunit)
qed

text \<open>Conversely, an encoding that succeeds was long enough.\<close>

lemma put_string_length: "put_string buf off s = Some (off', buf') \<Longrightarrow> off' = off + length (frame s) \<and> length buf' = length buf"
  by (auto simp: put_string_def bind_eq_Some_conv length_put_bytes)

lemma msg_encode_args_length:
  assumes "unat argc = length argv"
  shows "i \<le> length argv \<Longrightarrow> msg_encode_args buf off argc argv i = Some (off', buf') \<Longrightarrow>
    off' = off + length (frames (drop i argv)) \<and> length buf' = length buf"
proof (induction "length argv - i" arbitrary: i buf off)
  case 0
  then show ?case using assms by (subst (asm) msg_encode_args.simps) simp
next
  case (Suc d)
  then have i: "i < length argv" by simp
  with Suc.prems assms obtain o1 b1 where s: "put_string buf off (argv ! i) = Some (o1, b1)"
    "msg_encode_args b1 o1 argc argv (Suc i) = Some (off', buf')"
    by (subst (asm) msg_encode_args.simps) (auto simp: bind_eq_Some_conv)
  have "drop i argv = argv ! i # drop (Suc i) argv" using i by (simp add: Cons_nth_drop_Suc)
  with Suc.hyps(1) [OF _ _ s(2)] Suc.hyps(2) i put_string_length [OF s(1)] show ?case by simp
qed

lemma msg_encode_too_long:
  assumes "length args < 2 ^ 32" and "length buf < length (message sub args)"
  shows "msg_encode buf sub (of_nat (length args)) args = None"
proof (rule ccontr)
  assume "\<not> ?thesis"
  then obtain off buf' where "msg_encode buf sub (of_nat (length args)) args = Some (off, buf')" by auto
  then obtain o1 b1 b2 o3 b3 b4 b5 where e: "put_string buf 0 sub = Some (o1, b1)"
    "put_bytes b1 o1 (u32_bytes (of_nat (length args))) = Some b2"
    "msg_encode_args b2 (o1 + 4) (of_nat (length args)) args 0 = Some (o3, b3)"
    "put_bytes b3 o3 [13] = Some b4" "put_bytes b4 (o3 + 1) [10] = Some b5"
    unfolding msg_encode_def bind_eq_Some_conv by (elim exE conjE, simp split: prod.splits add: bind_eq_Some_conv) blast
  have "o3 = length (message sub args) - 2" "length b3 = length buf"
    using put_string_length [OF e(1)] length_put_bytes [OF e(2)] msg_encode_args_length [OF unat_of_nat32 [OF assms(1)] _ e(3)]
    by (simp_all add: message_def message_body_def)
  moreover have "o3 + 2 \<le> length b4" "length b4 = length b3" using e(5) length_put_bytes [OF e(4)] by (simp_all add: put_bytes_def split: if_splits)
  ultimately show False using assms(2) by simp
qed

section \<open>Decoding what was encoded\<close>

fun arg_offsets :: "nat \<Rightarrow> byte list list \<Rightarrow> nat list" where
  "arg_offsets off [] = []"
| "arg_offsets off (s # ss) = (off + 4) # arg_offsets (off + length s + 5) ss"

lemma length_arg_offsets [simp]: "length (arg_offsets off ss) = length ss"
  by (induction ss arbitrary: off) auto

lemma frame_length_word:
  assumes "plain_arg s"
  shows "(of_nat (length s + 1) :: 32 word) \<le> of_nat COMMAND_MAX_LEN"
    and "unat (of_nat (length s + 1) :: 32 word) = length s + 1"
proof -
  show u: "unat (of_nat (length s + 1) :: 32 word) = length s + 1"
    using assms by (intro unat_of_nat32) (simp add: plain_arg_def COMMAND_MAX_LEN_def)
  then show "(of_nat (length s + 1) :: 32 word) \<le> of_nat COMMAND_MAX_LEN"
    using assms unfolding word_le_nat_alt u by (simp add: plain_arg_def COMMAND_MAX_LEN_def)
qed

lemma get_u32_frame: "get_u32 (xs @ frame s @ ys) (length xs) = Some (of_nat (length s + 1))"
  using get_u32_at [of xs _ "s @ [0] @ ys"] by (simp add: frame_def)

lemma string_at_frame: "0 \<notin> set s \<Longrightarrow> string_at (xs @ frame s @ ys) (length xs + 4) = Some s"
  using string_at_terminated [of s "xs @ u32_bytes (of_nat (length s + 1))" ys] by (simp add: frame_def)

lemma strings_at_offsets:
  "\<forall>s \<in> set ss. 0 \<notin> set s \<Longrightarrow> map (string_at (xs @ frames ss @ ys)) (arg_offsets (length xs) ss) = map Some ss"
proof (induction ss arbitrary: xs)
  case (Cons s ss)
  from Cons.IH [of "xs @ frame s"] Cons.prems
  have "map (string_at ((xs @ frame s) @ frames ss @ ys)) (arg_offsets (length (xs @ frame s)) ss) = map Some ss" by simp
  then show ?case using Cons.prems string_at_frame [of s xs "frames ss @ ys"] by (simp add: add.assoc)
qed simp

lemma msg_decode_args_frames:
  assumes "unat argc = length args" and "\<forall>s \<in> set args. plain_arg s" and "length args \<le> length argv"
  shows "i \<le> length args \<Longrightarrow>
    msg_decode_args (xs @ frames (drop i args) @ rest) (length xs) argc argv i =
    Some (Done (length (xs @ frames (drop i args)),
      take i argv @ map Some (arg_offsets (length xs) (drop i args)) @ drop (length args) argv))"
  using assms(3)
proof (induction "length args - i" arbitrary: i xs argv)
  case 0
  then show ?case using assms(1) by (subst msg_decode_args.simps) simp
next
  case (Suc d)
  then have i: "i < length args" by simp
  define s where "s = args ! i"
  have dr: "drop i args = s # drop (Suc i) args" using i by (simp add: Cons_nth_drop_Suc s_def)
  have s: "plain_arg s" using assms(2) i by (simp add: s_def)
  define argv1 where "argv1 = argv[i := Some (length xs + 4)]"
  have a1: "length args \<le> length argv1" using Suc.prems(2) by (simp add: argv1_def)
  have "msg_decode_args ((xs @ frame s) @ frames (drop (Suc i) args) @ rest) (length (xs @ frame s)) argc argv1 (Suc i) =
    Some (Done (length ((xs @ frame s) @ frames (drop (Suc i) args)),
      take (Suc i) argv1 @ map Some (arg_offsets (length (xs @ frame s)) (drop (Suc i) args)) @ drop (length args) argv1))"
    using Suc.hyps(2) i by (intro Suc.hyps(1) a1) auto
  moreover have "take (Suc i) argv1 = take i argv @ [Some (length xs + 4)]"
    using i Suc.prems(2) by (simp add: argv1_def take_Suc_conv_app_nth)
  moreover have "drop (length args) argv1 = drop (length args) argv" using i by (simp add: argv1_def drop_update_cancel)
  moreover have "put_index argv (int i) (Some (length xs + 4)) = Some argv1" using i Suc.prems(2) by (simp add: argv1_def)
  ultimately show ?case
    using i assms(1) dr get_u32_frame [of xs s "frames (drop (Suc i) args) @ rest"] frame_length_word [OF s]
    by (subst msg_decode_args.simps) (simp add: ac_simps)
qed

lemma msg_decode_message:
  assumes "plain_arg sub" and "\<forall>s \<in> set args. plain_arg s" and "length args \<le> COMMAND_MAX_ARGC" and "length argv = COMMAND_MAX_ARGC"
  shows "msg_decode (message_body sub args @ rest) argv =
    Some (Done (length (message_body sub args), 4, of_nat (length args),
      map Some (arg_offsets (length sub + 9) args) @ drop (length args) argv))"
proof -
  have n: "unat (of_nat (length args) :: 32 word) = length args"
    using assms(3) by (intro unat_of_nat32) (simp add: COMMAND_MAX_ARGC_def)
  have le: "(of_nat (length args) :: 32 word) \<le> of_nat COMMAND_MAX_LEN"
    using assms(3) unfolding word_le_nat_alt n by (simp add: COMMAND_MAX_LEN_def COMMAND_MAX_ARGC_def)
  define h where "h = frame sub @ u32_bytes (of_nat (length args))"
  have b: "message_body sub args @ rest = h @ frames args @ rest" by (simp add: message_body_def h_def)
  have g1: "get_u32 (h @ frames args @ rest) 0 = Some (of_nat (length sub + 1))"
    using get_u32_frame [of "[]" sub] by (simp add: h_def)
  have g2: "get_u32 (h @ frames args @ rest) (length sub + 5) = Some (of_nat (length args))"
    using get_u32_at [of "frame sub"] by (simp add: h_def)
  have g3: "msg_decode_args (h @ frames args @ rest) (length sub + 9) (of_nat (length args)) argv 0 =
    Some (Done (length (h @ frames args), map Some (arg_offsets (length sub + 9) args) @ drop (length args) argv))"
    using msg_decode_args_frames [OF n assms(2), of argv 0 h rest] assms(3,4) by (simp add: h_def add.commute)
  show ?thesis using g1 g2 g3 frame_length_word [OF assms(1)] le unfolding b msg_decode_def
    by (simp add: message_body_def h_def add.commute)
qed

section \<open>The terminator\<close>

text \<open>The receiver stops at the first carriage return followed by a line feed.\<close>

fun has_crlf :: "byte list \<Rightarrow> bool" where
  "has_crlf (a # b # xs) = (a = 13 \<and> b = 10 \<or> has_crlf (b # xs))"
| "has_crlf xs = False"

lemma ex_nat_split: "(\<exists>i. P i) \<longleftrightarrow> P 0 \<or> (\<exists>i. P (Suc i))"
  by (metis not0_implies_Suc)

lemma has_crlf_iff: "has_crlf xs \<longleftrightarrow> (\<exists>i. Suc i < length xs \<and> xs ! i = 13 \<and> xs ! Suc i = 10)"
proof (induction xs rule: has_crlf.induct)
  case (1 a b xs)
  have "(\<exists>i. Suc i < length (a # b # xs) \<and> (a # b # xs) ! i = 13 \<and> (a # b # xs) ! Suc i = 10) \<longleftrightarrow>
    a = 13 \<and> b = 10 \<or> (\<exists>i. Suc i < length (b # xs) \<and> (b # xs) ! i = 13 \<and> (b # xs) ! Suc i = 10)"
    by (subst ex_nat_split) auto
  with 1 show ?case by simp
qed auto

lemma has_crlf_zero [simp]: "has_crlf (0 # xs) = has_crlf xs"
  by (cases xs) auto

lemma has_crlf_small [simp]: "has_crlf (a # 0 # xs) = has_crlf xs"
  by simp

lemma has_crlf_append_zero [simp]: "has_crlf (xs @ 0 # ys) \<longleftrightarrow> has_crlf xs \<or> has_crlf ys"
  by (induction xs rule: has_crlf.induct) auto

lemma has_crlf_frame [simp]: "plain_arg s \<Longrightarrow> has_crlf (frame s @ ys) \<longleftrightarrow> has_crlf s \<or> has_crlf ys"
  using u32_bytes_small [of "length s + 1"]
  by (simp add: frame_def plain_arg_def COMMAND_MAX_LEN_def del: le_bytes.simps of_nat_add of_nat_Suc)

lemma has_crlf_frames:
  "\<forall>s \<in> set ss. plain_arg s \<Longrightarrow> has_crlf (frames ss @ ys) \<longleftrightarrow> (\<exists>s \<in> set ss. has_crlf s) \<or> has_crlf ys"
  by (induction ss) auto

lemma has_crlf_message_body:
  assumes "plain_arg sub" and "\<forall>s \<in> set args. plain_arg s" and "length args \<le> COMMAND_MAX_ARGC"
  shows "has_crlf (message_body sub args @ ys) \<longleftrightarrow> has_crlf sub \<or> (\<exists>s \<in> set args. has_crlf s) \<or> has_crlf ys"
proof -
  have "u32_bytes (of_nat (length args)) = [of_nat (length args), 0, 0, 0]"
    using assms(3) by (intro u32_bytes_small) (simp add: COMMAND_MAX_ARGC_def)
  then show ?thesis using assms by (simp add: message_body_def has_crlf_frames del: le_bytes.simps)
qed

section \<open>Properties\<close>

text \<open>
  C10: A request survives the trip.  For a subcommand and at most 32 arguments of at most 31 non-zero bytes each, and a
  buffer the message fits in, \<^verbatim>\<open>msg_encode\<close> stays inside the buffer and returns the length of the message, and \<^verbatim>\<open>msg_decode\<close>
  of that buffer passes its assertions and yields pointers at which the same subcommand and the same arguments are read, in
  order, with the same count.
\<close>

theorem msg_roundtrip:
  assumes "plain_arg sub" and "\<forall>s \<in> set args. plain_arg s" and "length args \<le> COMMAND_MAX_ARGC"
    and "length (message sub args) \<le> length buf"
  shows "\<exists>buf' offs. msg_encode buf sub (of_nat (length args)) args = Some (length (message sub args), buf') \<and>
    length buf' = length buf \<and>
    msg_decode buf' (replicate COMMAND_MAX_ARGC None) =
      Some (Done (length (message sub args) - 2, 4, of_nat (length args),
        map Some offs @ replicate (COMMAND_MAX_ARGC - length args) None)) \<and>
    string_at buf' 4 = Some sub \<and> map (string_at buf') offs = map Some args"
proof -
  define rest where "rest = [13, 10] @ drop (length (message sub args)) buf"
  define buf' where "buf' = message_body sub args @ rest"
  define offs where "offs = arg_offsets (length sub + 9) args"
  have n: "length args < 2 ^ 32" using assms(3) by (simp add: COMMAND_MAX_ARGC_def)
  have e: "msg_encode buf sub (of_nat (length args)) args = Some (length (message sub args), buf')"
    using msg_encode_message [OF n assms(4)] by (simp add: buf'_def rest_def message_def)
  have l: "length buf' = length buf" using assms(4) by (simp add: buf'_def rest_def message_def)
  have d: "msg_decode buf' (replicate COMMAND_MAX_ARGC None) =
      Some (Done (length (message sub args) - 2, 4, of_nat (length args), map Some offs @ replicate (COMMAND_MAX_ARGC - length args) None))"
    using msg_decode_message [OF assms(1-3), of "replicate COMMAND_MAX_ARGC None" rest]
    by (simp add: buf'_def offs_def message_def)
  have s: "string_at buf' 4 = Some sub"
    using string_at_frame [of sub "[]"] assms(1) by (simp add: buf'_def message_body_def plain_arg_def)
  have "map (string_at buf') offs = map Some args"
    using strings_at_offsets [of args "frame sub @ u32_bytes (of_nat (length args))" rest] assms(2)
    by (simp add: buf'_def message_body_def offs_def plain_arg_def add.commute)
  with e l d s show ?thesis by blast
qed

theorem msg_roundtrip_witness:
  "\<exists>buf' offs. msg_encode (replicate 64 0) [104, 105] (of_nat (length [[97 :: byte]])) [[97]] =
      Some (length (message [104, 105] [[97]]), buf') \<and>
    string_at buf' 4 = Some [104, 105] \<and> map (string_at buf') offs = map Some [[97]]"
proof -
  have "plain_arg [104, 105]" "\<forall>s \<in> set [[97]]. plain_arg s" "length [[97 :: byte]] \<le> COMMAND_MAX_ARGC"
    "length (message [104, 105] [[97]]) \<le> length (replicate 64 (0 :: byte))"
    by (simp_all add: plain_arg_def COMMAND_MAX_LEN_def COMMAND_MAX_ARGC_def message_def message_body_def)
  from msg_roundtrip [OF this] show ?thesis by blast
qed

end
