(* ===== verification/Cli_Print.thy ===== *)
theory Cli_Print
  imports Byte_Codec
begin

text \<open>
  The output buffer of a command, \<^verbatim>\<open>cmdprint_t\<close> of \<^verbatim>\<open>src/cli/cli_server.c\<close>.  The block behind \<^verbatim>\<open>buf\<close> is \<open>Null\<close>, \<open>Freed\<close> or a
  block of bytes.  \<open>alloc n\<close> is what the allocator answers when \<open>n\<close> new bytes are needed: their indeterminate contents or
  \<open>None\<close>.  The text that \<^verbatim>\<open>vsnprintf\<close> would produce without a size limit is the argument of \<open>cdp_print\<close>.  The mutex is only
  ever taken and released within one call and is not represented.
\<close>

datatype cbuf = Null | Freed | Block "byte list"

record cmdprint_t =
  cdp_buf :: cbuf
  cdp_buf_size :: int
  cdp_pos :: int

type_synonym allocator = "nat \<Rightarrow> byte list option"

definition malloc_block :: "allocator \<Rightarrow> nat \<Rightarrow> cbuf" where
  "malloc_block alloc n = (case alloc n of None \<Rightarrow> Null | Some bs \<Rightarrow> Block bs)"

definition cdp_init :: "allocator \<Rightarrow> cmdprint_t" where
  "cdp_init alloc = \<lparr>cdp_buf = malloc_block alloc 4096, cdp_buf_size = 4096, cdp_pos = 0\<rparr>"

definition free_block :: "cbuf \<Rightarrow> unit option" where
  "free_block b = (if b = Freed then None else Some ())"

definition cdp_reinit :: "allocator \<Rightarrow> cmdprint_t \<Rightarrow> cmdprint_t option" where
  "cdp_reinit alloc cdp =
     (if cdp_buf cdp = Null then Some cdp
      else do {
        cdp \<leftarrow> (if 10240 < cdp_buf_size cdp then do {
                   _ \<leftarrow> free_block (cdp_buf cdp);
                   Some (cdp\<lparr>cdp_buf := malloc_block alloc 4096, cdp_buf_size := 4096\<rparr>) }
                 else Some cdp);
        Some (cdp\<lparr>cdp_pos := 0\<rparr>) })"

definition cdp_destroy :: "cmdprint_t \<Rightarrow> cmdprint_t option" where
  "cdp_destroy cdp =
     do { cdp \<leftarrow> (if cdp_buf cdp \<noteq> Null then do { _ \<leftarrow> free_block (cdp_buf cdp); Some (cdp\<lparr>cdp_buf := Freed\<rparr>) }
                  else Some cdp);
          Some (cdp\<lparr>cdp_pos := 0, cdp_buf_size := 0\<rparr>) }"

text \<open>The string that \<^verbatim>\<open>cdp_output\<close> returns a pointer to.\<close>

definition cdp_output :: "cmdprint_t \<Rightarrow> byte list option" where
  "cdp_output cdp =
     (if 0 < cdp_pos cdp then (case cdp_buf cdp of Block bs \<Rightarrow> string_at bs 0 | _ \<Rightarrow> None)
      else Some (ascii ''success''))"

text \<open>
  \<^verbatim>\<open>cdp_print\<close>: a text of 1024 bytes or added, or none at all, is dropped.  Otherwise the block doubles when the text and its
  terminator do not fit, and the text is copied behind the earlier ones.
\<close>

definition cdp_grow :: "allocator \<Rightarrow> cmdprint_t \<Rightarrow> cmdprint_t option" where
  "cdp_grow alloc cdp =
     do { n \<leftarrow> int_result (cdp_buf_size cdp * 2);
          case cdp_buf cdp of
            Block bs \<Rightarrow> Some (cdp\<lparr>cdp_buf := (case alloc (nat n - length bs) of None \<Rightarrow> Null | Some added \<Rightarrow> Block (bs @ added)),
                                  cdp_buf_size := n\<rparr>)
          | _ \<Rightarrow> None }"

definition cdp_print :: "allocator \<Rightarrow> cmdprint_t \<Rightarrow> byte list \<Rightarrow> cmdprint_t option" where
  "cdp_print alloc cdp txt =
     (let off = int (length txt) in
      if off \<le> 0 \<or> 1024 < off + 1 then Some cdp
      else do {
        need \<leftarrow> int_result (off + cdp_pos cdp);
        cdp \<leftarrow> (if cdp_buf_size cdp \<le> need then cdp_grow alloc cdp else Some cdp);
        case cdp_buf cdp of
          Block bs \<Rightarrow> do {
            bs \<leftarrow> put_bytes bs (nat (cdp_pos cdp)) txt;
            bs \<leftarrow> put_index bs (cdp_pos cdp + off) 0;
            Some (cdp\<lparr>cdp_buf := Block bs, cdp_pos := cdp_pos cdp + off\<rparr>) }
        | _ \<Rightarrow> None })"

fun cdp_prints :: "allocator \<Rightarrow> cmdprint_t \<Rightarrow> byte list list \<Rightarrow> cmdprint_t option" where
  "cdp_prints alloc cdp [] = Some cdp"
| "cdp_prints alloc cdp (t # ts) = do { cdp \<leftarrow> cdp_print alloc cdp t; cdp_prints alloc cdp ts }"

section \<open>The text in the buffer\<close>

text \<open>
  The invariant ties the size to the text: only a text of at least half the size makes a buffer larger than 10240 bytes, so
  the size cannot overflow before the text is a gigabyte long.
\<close>

definition cdp_holds :: "cmdprint_t \<Rightarrow> byte list \<Rightarrow> bool" where
  "cdp_holds cdp t \<longleftrightarrow> (\<exists>bs. cdp_buf cdp = Block bs \<and> cdp_buf_size cdp = int (length bs) \<and> cdp_pos cdp = int (length t) \<and>
     4096 \<le> length bs \<and> length t < length bs \<and> length bs \<le> max 10240 (2 * length t) \<and>
     take (length t) bs = t \<and> (t \<noteq> [] \<longrightarrow> bs ! length t = 0))"

definition alloc_ok :: "allocator \<Rightarrow> bool" where
  "alloc_ok alloc \<longleftrightarrow> (\<forall>n. \<exists>bs. alloc n = Some bs \<and> length bs = n)"

definition printable :: "byte list \<Rightarrow> bool" where
  "printable t \<longleftrightarrow> t \<noteq> [] \<and> length t < 1024"

lemma alloc_okD: "alloc_ok alloc \<Longrightarrow> \<exists>bs. alloc n = Some bs \<and> length bs = n"
  by (simp add: alloc_ok_def)

lemma cdp_init_holds: "alloc_ok alloc \<Longrightarrow> cdp_holds (cdp_init alloc) []"
  using alloc_okD [of alloc 4096] by (auto simp: cdp_holds_def cdp_init_def malloc_block_def)

lemma cdp_reinit_holds: "alloc_ok alloc \<Longrightarrow> cdp_holds cdp t \<Longrightarrow> \<exists>cdp'. cdp_reinit alloc cdp = Some cdp' \<and> cdp_holds cdp' []"
  using alloc_okD [of alloc 4096] by (auto simp: cdp_holds_def cdp_reinit_def malloc_block_def free_block_def)

lemma cdp_dropped: "\<not> printable t \<Longrightarrow> cdp_print alloc cdp t = Some cdp"
  by (auto simp: cdp_print_def printable_def Let_def)

text \<open>Copying a text that fits, terminator included.\<close>

lemma put_text:
  assumes "take (length t) bs = t" and "length t + length u < length bs"
  shows "\<exists>bs'. (do { b \<leftarrow> put_bytes bs (length t) u; put_index b (int (length t + length u)) 0 }) = Some bs' \<and>
    length bs' = length bs \<and> take (length (t @ u)) bs' = t @ u \<and> bs' ! length (t @ u) = 0"
proof -
  have "put_bytes bs (length t) u = Some (t @ u @ drop (length t + length u) bs)"
    using assms by (simp add: put_bytes_def)
  moreover have "length (t @ u @ drop (length t + length u) bs) = length bs" using assms(2) by simp
  ultimately show ?thesis using assms(2)
    put_index_nat [of "length t + length u" "t @ u @ drop (length t + length u) bs" 0] by (simp add: nth_append)
qed

lemma cdp_print_holds:
  assumes "alloc_ok alloc" and "cdp_holds cdp t" and "printable u" and "length (t @ u) < 2 ^ 30"
  shows "\<exists>cdp'. cdp_print alloc cdp u = Some cdp' \<and> cdp_holds cdp' (t @ u)"
proof -
  from assms(2) obtain bs where b: "cdp_buf cdp = Block bs" "cdp_buf_size cdp = int (length bs)" "cdp_pos cdp = int (length t)"
    "4096 \<le> length bs" "length t < length bs" "length bs \<le> max 10240 (2 * length t)" "take (length t) bs = t"
    by (auto simp: cdp_holds_def)
  have u: "0 < length u" "length u < 1024" "u \<noteq> []" using assms(3) by (auto simp: printable_def)
  define grow where "grow \<longleftrightarrow> length bs \<le> length u + length t"
  obtain added where added: "alloc (length bs) = Some added" "length added = length bs" using alloc_okD [OF assms(1)] by blast
  define bs1 where "bs1 = (if grow then bs @ added else bs)"
  define cdp1 where "cdp1 = cdp\<lparr>cdp_buf := Block bs1, cdp_buf_size := int (length bs1)\<rparr>"
  have g: "(if cdp_buf_size cdp \<le> int (length u) + cdp_pos cdp then cdp_grow alloc cdp else Some cdp) = Some cdp1"
    using b added assms(4) by (auto simp: cdp_grow_def cdp1_def bs1_def grow_def int_result_def int_limits nat_mult_distrib)
  have l1: "length t + length u < length bs1" "take (length t) bs1 = t" "4096 \<le> length bs1"
    "length bs1 \<le> max 10240 (2 * length (t @ u))"
    using b u added by (auto simp: bs1_def grow_def)
  from put_text [OF l1(2,1)] obtain b1 bs' where p: "put_bytes bs1 (length t) u = Some b1"
    "put_index b1 (int (length t + length u)) 0 = Some bs'"
    "length bs' = length bs1" "take (length (t @ u)) bs' = t @ u" "bs' ! length (t @ u) = 0"
    by (auto simp: bind_eq_Some_conv)
  have "int_result (int (length u) + cdp_pos cdp) = Some (int (length u) + cdp_pos cdp)"
    using b assms(4) by (simp add: int_result_def int_limits)
  moreover have "cdp_pos cdp1 = int (length t)" "cdp_buf cdp1 = Block bs1" by (simp_all add: cdp1_def b)
  ultimately have "cdp_print alloc cdp u = Some (cdp1\<lparr>cdp_buf := Block bs', cdp_pos := int (length t + length u)\<rparr>)"
    using u g p by (simp add: cdp_print_def Let_def)
  moreover have "cdp_holds (cdp1\<lparr>cdp_buf := Block bs', cdp_pos := int (length t + length u)\<rparr>) (t @ u)"
    using p l1 by (simp add: cdp_holds_def cdp1_def)
  ultimately show ?thesis by blast
qed

lemma cdp_output_holds:
  assumes "cdp_holds cdp t" and "0 \<notin> set t"
  shows "cdp_output cdp = Some (if t = [] then ascii ''success'' else t)"
proof (cases "t = []")
  case False
  from assms False obtain bs where b: "cdp_buf cdp = Block bs" "cdp_pos cdp = int (length t)" "length t < length bs"
    "take (length t) bs = t" "bs ! length t = 0" by (auto simp: cdp_holds_def)
  then have "bs = t @ 0 # drop (Suc (length t)) bs" by (metis id_take_nth_drop)
  then have "string_at bs 0 = Some t" using string_at_terminated [OF assms(2), of "[]"] by (metis append_Nil list.size(3))
  with b False show ?thesis by (simp add: cdp_output_def)
qed (use assms in \<open>auto simp: cdp_holds_def cdp_output_def\<close>)

lemma cdp_prints_holds:
  assumes "alloc_ok alloc"
  shows "cdp_holds cdp t \<Longrightarrow> length t + length (concat ts) < 2 ^ 30 \<Longrightarrow>
    \<exists>cdp'. cdp_prints alloc cdp ts = Some cdp' \<and> cdp_holds cdp' (t @ concat (filter printable ts))"
proof (induction ts arbitrary: cdp t)
  case (Cons u ts)
  show ?case
  proof (cases "printable u")
    case True
    with Cons.prems cdp_print_holds [OF assms Cons.prems(1) True] obtain c where
      c: "cdp_print alloc cdp u = Some c" "cdp_holds c (t @ u)" by auto
    from Cons.IH [OF c(2)] Cons.prems(2) c(1) True show ?thesis by (auto simp: add.assoc)
  next
    case False
    with Cons show ?thesis by (simp add: cdp_dropped)
  qed
qed simp

section \<open>Properties\<close>

text \<open>
  C14: The output of a command is what it printed.  From a fresh buffer, or one that \<^verbatim>\<open>cdp_reinit\<close> has reset, any sequence of
  prints with less than a gigabyte of text stays inside the block (which grows by doubling), and \<^verbatim>\<open>cdp_output\<close> is the
  concatenation of the texts of 1 to 1023 bytes in order, or \<^verbatim>\<open>success\<close> when there is none.
\<close>

theorem cdp_prints_spec:
  assumes "alloc_ok alloc" and "length (concat ts) < 2 ^ 30" and "0 \<notin> set (concat ts)"
    and "cdp = cdp_init alloc \<or> (\<exists>c t. cdp_holds c t \<and> cdp_reinit alloc c = Some cdp)"
  shows "\<exists>cdp'. cdp_prints alloc cdp ts = Some cdp' \<and>
    cdp_output cdp' = Some (let t = concat (filter printable ts) in if t = [] then ascii ''success'' else t)"
proof -
  have "cdp_holds cdp []" using assms(1,4) cdp_init_holds cdp_reinit_holds by (metis option.inject)
  from cdp_prints_holds [OF assms(1) this] assms(2) obtain cdp' where
    c: "cdp_prints alloc cdp ts = Some cdp'" "cdp_holds cdp' (concat (filter printable ts))" by auto
  moreover have "0 \<notin> set (concat (filter printable ts))" using assms(3) by auto
  ultimately show ?thesis using cdp_output_holds [OF c(2)] by (auto simp: Let_def)
qed

theorem cdp_prints_witness:
  "\<exists>cdp'. cdp_prints (\<lambda>n. Some (replicate n 0)) (cdp_init (\<lambda>n. Some (replicate n 0))) [[104], [], [105]] = Some cdp' \<and>
    cdp_output cdp' = Some [104, 105]"
proof -
  have "alloc_ok (\<lambda>n. Some (replicate n 0))" by (simp add: alloc_ok_def)
  from cdp_prints_spec [OF this, of "[[104], [], [105]]"] show ?thesis by (simp add: printable_def)
qed

end
