(* ===== verification/Cli_Socket.thy ===== *)
theory Cli_Socket
  imports C_String
begin

text \<open>
  The socket file of a server, from \<^verbatim>\<open>src/cli/cli_server.c\<close>: the path, \<^verbatim>\<open>bind_and_listen\<close> and the removal of the file.  What the system
  calls answer is an argument; the state is the set of open descriptors.
\<close>

definition SOCKET_PATH_LEN :: nat where
  "SOCKET_PATH_LEN = 108"

definition EADDRINUSE :: int where
  "EADDRINUSE = 98"

definition EINVAL :: int where
  "EINVAL = 22"

text \<open>\<^verbatim>\<open>sprintf\<close> with the format \<^verbatim>\<open>DF_SOCKET_DIR\<close> into an array of \<open>n\<close> bytes.\<close>

definition socket_path :: "byte list \<Rightarrow> int \<Rightarrow> byte list" where
  "socket_path name pid = ascii ''/var/tmp/'' @ name @ ascii ''.'' @ dec_int pid"

definition sprint_path :: "nat \<Rightarrow> byte list \<Rightarrow> int \<Rightarrow> byte list option" where
  "sprint_path n name pid = (if length (socket_path name pid) < n then Some (socket_path name pid) else None)"

text \<open>
  \<^verbatim>\<open>socket\<close> returns a descriptor or fails with an error number; \<^verbatim>\<open>bind\<close> and \<^verbatim>\<open>listen\<close> succeed (\<open>None\<close>) or fail.
\<close>

record bind_answers =
  ba_socket :: "int + int"
  ba_bind :: "int option"
  ba_bind_again :: "int option"
  ba_listen :: "int option"

record os_state =
  open_fds :: "int set"
  socket_files :: "byte list set"

definition close_fd :: "'a os_state_scheme \<Rightarrow> int \<Rightarrow> 'a os_state_scheme" where
  "close_fd st fd = st\<lparr>open_fds := open_fds st - {fd}\<rparr>"

text \<open>\<open>ret\<close> after the attempts to bind; the second one follows without anything in between.\<close>

definition bind_ret :: "bind_answers \<Rightarrow> int" where
  "bind_ret ans =
     (case ba_bind ans of
        None \<Rightarrow> 0
      | Some ret \<Rightarrow>
          if ret = EADDRINUSE then (case ba_bind_again ans of None \<Rightarrow> 0 | Some ret \<Rightarrow> ret)
          else ret)"

text \<open>The value returned, what is stored through \<^verbatim>\<open>fd\<close> if anything, and the new state.\<close>

definition bind_and_listen :: "bind_answers \<Rightarrow> 'a os_state_scheme \<Rightarrow> byte list \<Rightarrow> int \<times> int option \<times> 'a os_state_scheme" where
  "bind_and_listen ans st path =
     (if SOCKET_PATH_LEN - 1 < length path then (- EINVAL, None, st)
      else case ba_socket ans of
        Inl ret \<Rightarrow> (ret, None, st)
      | Inr socket_fd \<Rightarrow>
          let st = st\<lparr>open_fds := insert socket_fd (open_fds st)\<rparr> in
          if bind_ret ans \<noteq> 0 then (bind_ret ans, None, close_fd st socket_fd)
          else let st = st\<lparr>socket_files := insert path (socket_files st)\<rparr> in
            (case ba_listen ans of
               Some ret \<Rightarrow> (ret, None, close_fd st socket_fd)
             | None \<Rightarrow> (0, Some socket_fd, st)))"

text \<open>\<^verbatim>\<open>unlink\<close>\<close>

definition unlink_file :: "'a os_state_scheme \<Rightarrow> byte list \<Rightarrow> 'a os_state_scheme" where
  "unlink_file st path = st\<lparr>socket_files := socket_files st - {path}\<rparr>"

section \<open>Lemmas\<close>

text \<open>The path of a name of at most 31 bytes fits both arrays it is printed to.\<close>

definition valid_pid :: "int \<Rightarrow> bool" where
  "valid_pid pid \<longleftrightarrow> 0 < pid \<and> pid < 2 ^ 31"

lemma length_socket_path:
  assumes "length name < 32" and "valid_pid pid"
  shows "length (socket_path name pid) < 64"
proof -
  have "length (dec_nat (nat pid)) \<le> 10" using assms(2) by (intro length_dec_nat_power) (auto simp: valid_pid_def)
  with assms show ?thesis by (simp add: socket_path_def ascii_def dec_int_def valid_pid_def)
qed

lemma sprint_path_fits:
  assumes "length name < 32" and "valid_pid pid"
  shows "sprint_path 64 name pid = Some (socket_path name pid)" "sprint_path SOCKET_PATH_LEN name pid = Some (socket_path name pid)"
  using length_socket_path [OF assms] by (simp_all add: sprint_path_def SOCKET_PATH_LEN_def)

text \<open>Error numbers are positive.  \<open>bound\<close> is the descriptor of the socket when everything works.\<close>

definition errnos_positive :: "bind_answers \<Rightarrow> bool" where
  "errnos_positive ans \<longleftrightarrow> (\<forall>e. ba_socket ans = Inl e \<longrightarrow> 0 < e) \<and>
     (\<forall>e. ba_bind ans = Some e \<or> ba_bind_again ans = Some e \<or> ba_listen ans = Some e \<longrightarrow> 0 < e)"

definition bound :: "bind_answers \<Rightarrow> int option" where
  "bound ans = (case ba_socket ans of Inl e \<Rightarrow> None | Inr s \<Rightarrow> if bind_ret ans = 0 \<and> ba_listen ans = None then Some s else None)"

lemma bind_and_listen_bound:
  "bound ans = Some s \<Longrightarrow> length path < SOCKET_PATH_LEN \<Longrightarrow>
   bind_and_listen ans st path = (0, Some s, st\<lparr>open_fds := insert s (open_fds st), socket_files := insert path (socket_files st)\<rparr>)"
  by (auto simp: bound_def bind_and_listen_def split: sum.splits if_splits)

lemma bind_and_listen_failed:
  assumes "bound ans = None" and "errnos_positive ans" and "length path < SOCKET_PATH_LEN" and "bind_and_listen ans st path = (ret, fd, st')"
  shows "0 < ret \<and> fd = None \<and> open_fds st' \<subseteq> open_fds st"
  using assms
  by (auto simp: bound_def bind_and_listen_def Let_def close_fd_def bind_ret_def errnos_positive_def split: sum.splits if_splits option.splits)

text \<open>
  \<^verbatim>\<open>bind\<close> refuses a path whose file is still there each time it is asked; since the file is not unlinked in between, the second attempt does not help.
\<close>

lemma bind_again_same:
  assumes "ba_bind ans = Some EADDRINUSE" and "ba_bind_again ans = ba_bind ans"
  shows "bound ans = None"
  using assms by (auto simp: bound_def bind_ret_def EADDRINUSE_def split: sum.splits)

end
