(* ===== verification/Cli_Server.thy ===== *)
theory Cli_Server
  imports Cli_Msg Cli_Print Cli_Socket
begin

text \<open>
  The server side of the command line interface, \<^verbatim>\<open>src/cli/cli_server.c\<close>: the table of commands, the built-in commands, one
  accepted connection from the first byte read to the answer, the polling loop, and creation and destruction of the handler.

  Function pointers are addresses, and what calling one does is the argument \<open>code\<close>.  A connection is the list of what
  arrives on it and the list of what the peer accepts.  Messages logged to the terminal are not represented.
\<close>

section \<open>State\<close>

datatype cli_phase = CLI_INIT | CLI_DOWN | CLI_FINI

record cli_handler_t =
  h_name :: "byte list"
  socket_fd :: int
  cdp :: cmdprint_t
  pipe_rd :: int
  pipe_wr :: int
  h_state :: cli_phase

record command_t =
  subcommand :: "byte list option"
  help_text :: "byte list option"
  execute :: addr

record cli_state = os_state +
  commands :: "command_t list"
  regcnt :: int
  cmd_handler :: "cli_handler_t option"
  exit_hooks :: nat

definition NO_COMMAND :: command_t where
  "NO_COMMAND = \<lparr>subcommand = None, help_text = None, execute = NULL\<rparr>"

definition COMMANDS_SIZE :: nat where
  "COMMANDS_SIZE = 1024"

definition cli_initial :: cli_state where
  "cli_initial = \<lparr>open_fds = {}, socket_files = {}, commands = replicate COMMANDS_SIZE NO_COMMAND, regcnt = 0, cmd_handler = None, exit_hooks = 0\<rparr>"

definition ENOSPC :: int where
  "ENOSPC = 28"

section \<open>The table of commands\<close>

text \<open>The loop of \<^verbatim>\<open>cli_register\<close>: the first entry without a function is filled.\<close>

fun fill_free :: "command_t list \<Rightarrow> command_t \<Rightarrow> command_t list" where
  "fill_free [] c = []"
| "fill_free (d # ds) c = (if execute d = NULL then c # ds else d # fill_free ds c)"

text \<open>The value returned is \<open>None\<close> when the function ends without a \<^verbatim>\<open>return\<close>.\<close>

definition cli_register :: "cli_state \<Rightarrow> byte list \<Rightarrow> byte list \<Rightarrow> addr \<Rightarrow> (int option \<times> cli_state) option" where
  "cli_register st sub_command hlp exec =
     (if int COMMANDS_SIZE - 1 \<le> regcnt st then Some (Some (- ENOSPC), st)
      else if cmd_handler st = None then None
      else Some (None, st\<lparr>commands := fill_free (commands st) \<lparr>subcommand = Some sub_command, help_text = Some hlp, execute = exec\<rparr>,
                          regcnt := regcnt st + 1\<rparr>))"

text \<open>\<^verbatim>\<open>command_find\<close> returns the index of the entry; \<open>key\<close> is the memory its argument points to.\<close>

fun command_find :: "command_t list \<Rightarrow> byte list \<Rightarrow> nat option" where
  "command_find [] key = None"
| "command_find (c # cs) key =
     (case subcommand c of
        None \<Rightarrow> None
      | Some name \<Rightarrow> if strncmp COMMAND_MAX_LEN name key = 0 then Some 0 else map_option Suc (command_find cs key))"

type_synonym cmd_code = "addr \<Rightarrow> command_t list \<Rightarrow> cmdprint_t \<Rightarrow> byte list \<Rightarrow> 32 word \<Rightarrow> nat option list \<Rightarrow> cmdprint_t option"

definition command_execute ::
  "cmd_code \<Rightarrow> command_t list \<Rightarrow> cmdprint_t \<Rightarrow> byte list \<Rightarrow> nat \<Rightarrow> 32 word \<Rightarrow> nat option list \<Rightarrow> cmdprint_t option" where
  "command_execute code cmds out cmd sub argc argv =
     (case command_find cmds (drop sub cmd) of
        None \<Rightarrow> Some out
      | Some i \<Rightarrow> code (execute (cmds ! i)) cmds out cmd argc argv)"

section \<open>The built-in commands\<close>

definition CMD_PRINTLN :: "allocator \<Rightarrow> cmdprint_t \<Rightarrow> byte list \<Rightarrow> cmdprint_t option" where
  "CMD_PRINTLN alloc out txt = cdp_print alloc out (txt @ [10])"

function cmd_test_loop :: "allocator \<Rightarrow> cmdprint_t \<Rightarrow> byte list \<Rightarrow> 32 word \<Rightarrow> nat option list \<Rightarrow> int \<Rightarrow> cmdprint_t option" where
  "cmd_test_loop alloc out cmd argc argv i =
     (if i < sint argc then
        do { p \<leftarrow> at_index argv i;
             off \<leftarrow> p;
             s \<leftarrow> string_at cmd off;
             out \<leftarrow> CMD_PRINTLN alloc out (ascii ''argv['' @ dec_int i @ ascii ''] = '' @ s);
             cmd_test_loop alloc out cmd argc argv (i + 1) }
      else Some out)"
  by pat_completeness auto
termination by (relation "measure (\<lambda>(alloc, out, cmd, argc, argv, i). nat (sint argc - i))") auto

declare cmd_test_loop.simps [simp del]

definition cmd_test :: "allocator \<Rightarrow> cmdprint_t \<Rightarrow> byte list \<Rightarrow> 32 word \<Rightarrow> nat option list \<Rightarrow> cmdprint_t option" where
  "cmd_test alloc out cmd argc argv =
     do { out \<leftarrow> CMD_PRINTLN alloc out (ascii ''argc: '' @ dec_int (sint argc));
          cmd_test_loop alloc out cmd argc argv 0 }"

fun cmd_help_loop :: "allocator \<Rightarrow> cmdprint_t \<Rightarrow> command_t list \<Rightarrow> cmdprint_t option" where
  "cmd_help_loop alloc out [] = Some out"
| "cmd_help_loop alloc out (c # cs) =
     do { out \<leftarrow> (if execute c \<noteq> NULL then
                     do { s \<leftarrow> subcommand c; h \<leftarrow> help_text c;
                          CMD_PRINTLN alloc out (ascii ''  '' @ s @ [9] @ h) }
                   else Some out);
          cmd_help_loop alloc out cs }"

definition cmd_help :: "allocator \<Rightarrow> cmdprint_t \<Rightarrow> command_t list \<Rightarrow> cmdprint_t option" where
  "cmd_help alloc out cmds =
     do { out \<leftarrow> CMD_PRINTLN alloc out (ascii ''register subcomand:'');
          cmd_help_loop alloc out cmds }"

section \<open>One connection\<close>

datatype accept_result = Conn_Closed | Too_Long | Request "byte list"

definition CMD_SIZE :: nat where
  "CMD_SIZE = 1024"

text \<open>The reading loop of \<^verbatim>\<open>do_accept\<close>, one byte at a time.\<close>

function accept_loop :: "rd_event list \<Rightarrow> byte list \<Rightarrow> nat \<Rightarrow> accept_result option" where
  "accept_loop es cmd pos =
     do { (ret, cmd, es) \<leftarrow> safe_read es cmd pos 1 0;
          if ret \<le> 0 then Some Conn_Closed
          else if 0 < pos \<and> cmd ! pos = 10 \<and> cmd ! (pos - 1) = 13 then Some (Request cmd)
          else if CMD_SIZE \<le> pos + 1 then Some Too_Long
          else accept_loop es cmd (pos + 1) }"
  by pat_completeness auto
termination by (relation "measure (\<lambda>(es, cmd, pos). CMD_SIZE - pos)") auto

declare accept_loop.simps [simp del]

datatype connection = Accept_Fail | Conn "rd_event list" "wr_event list"

definition command_output :: "cmdprint_t \<Rightarrow> byte list option" where
  "command_output out = cdp_output out"

text \<open>
  \<open>junk\<close> is what the array \<^verbatim>\<open>cmd\<close> holds before it is read into.  The result is the handler and what was sent.
\<close>

definition do_accept ::
  "allocator \<Rightarrow> cmd_code \<Rightarrow> byte list \<Rightarrow> command_t list \<Rightarrow> cli_handler_t \<Rightarrow> connection \<Rightarrow> (cli_handler_t \<times> byte list) run option" where
  "do_accept alloc code junk cmds h conn =
     (case conn of
        Accept_Fail \<Rightarrow> Some (Done (h, []))
      | Conn rd wr \<Rightarrow>
          do { r \<leftarrow> accept_loop rd junk 0;
               case r of
                 Conn_Closed \<Rightarrow> Some (Done (h, []))
               | Too_Long \<Rightarrow> Some (Done (h, []))
               | Request cmd \<Rightarrow>
                   do { d \<leftarrow> msg_decode cmd (replicate COMMAND_MAX_ARGC None);
                        case d of
                          Aborted \<Rightarrow> Some Aborted
                        | Done (_, sub, argc, argv) \<Rightarrow>
                            do { out \<leftarrow> command_execute code cmds (cdp h) cmd sub argc argv;
                                 output \<leftarrow> command_output out;
                                 (ret, sent, wr) \<leftarrow> safe_write wr (output @ [0]) 0 (int (length output)) [];
                                 out \<leftarrow> cdp_reinit alloc out;
                                 Some (Done (h\<lparr>cdp := out\<rparr>, sent)) } } })"

section \<open>The polling loop\<close>

text \<open>
  Each call of \<^verbatim>\<open>poll\<close> is answered by its return value, the state the handler has by then (another thread may have set it),
  and the connection that is waiting, if the socket is readable.  Without a further answer the thread is still waiting.
\<close>

datatype poll_end = Waiting | Returned

record poll_answer =
  poll_ret :: int
  poll_state :: cli_phase
  poll_conn :: "connection option"

fun msg_poll ::
  "allocator \<Rightarrow> cmd_code \<Rightarrow> byte list \<Rightarrow> command_t list \<Rightarrow> cli_handler_t \<Rightarrow> poll_answer list \<Rightarrow>
   (poll_end \<times> cli_handler_t \<times> byte list list) run option" where
  "msg_poll alloc code junk cmds h [] = Some (Done (Waiting, h, []))"
| "msg_poll alloc code junk cmds h (p # ps) =
     (if poll_ret p < 0 then
        if poll_ret p = EINTR then msg_poll alloc code junk cmds h ps
        else Some (Done (Returned, h, []))
      else if poll_state p = CLI_DOWN then Some (Done (Returned, h\<lparr>h_state := CLI_DOWN\<rparr>, []))
      else case poll_conn p of
          None \<Rightarrow> msg_poll alloc code junk cmds (h\<lparr>h_state := poll_state p\<rparr>) ps
        | Some conn \<Rightarrow>
            do { r \<leftarrow> do_accept alloc code junk cmds (h\<lparr>h_state := poll_state p\<rparr>) conn;
                 case r of Aborted \<Rightarrow> Some Aborted
                 | Done (h, sent) \<Rightarrow>
                     do { r \<leftarrow> msg_poll alloc code junk cmds h ps;
                          case r of Aborted \<Rightarrow> Some Aborted
                          | Done (e, h, outs) \<Rightarrow> Some (Done (e, h, sent # outs)) } })"

section \<open>Creation and destruction\<close>

text \<open>
  What the system calls of \<^verbatim>\<open>cli_create\<close> answer; \<^verbatim>\<open>ca_handler\<close> is the indeterminate struct from \<^verbatim>\<open>malloc\<close>, or \<open>None\<close>.
\<close>

record create_answers =
  ca_handler :: "cli_handler_t option"
  ca_pid :: int
  ca_bind :: bind_answers
  ca_spin :: int
  ca_pipe :: "(int \<times> int) option"
  ca_thread :: int

text \<open>The failure paths of \<^verbatim>\<open>cli_create\<close> after \<^verbatim>\<open>bind_and_listen\<close> close the socket.\<close>

definition cli_fail :: "cli_state \<Rightarrow> cli_handler_t \<Rightarrow> int \<Rightarrow> int \<times> cli_state" where
  "cli_fail st h ret = (ret, close_fd st (socket_fd h))"

definition create_wakeup_pipe :: "create_answers \<Rightarrow> int + (int \<times> int)" where
  "create_wakeup_pipe ans = (case ca_pipe ans of None \<Rightarrow> Inl (- 1) | Some p \<Rightarrow> Inr p)"

text \<open>The handler is filled in and published, and the exit hook is installed.\<close>

definition cli_install :: "allocator \<Rightarrow> int \<Rightarrow> int \<Rightarrow> byte list \<Rightarrow> cli_handler_t \<Rightarrow> cli_state \<Rightarrow> cli_state" where
  "cli_install alloc rd wr name h st =
     st\<lparr>cmd_handler := Some (h\<lparr>h_name := name @ 0 # drop (length name + 1) (h_name h), cdp := cdp_init alloc,
                              pipe_rd := rd, pipe_wr := wr, h_state := CLI_INIT\<rparr>),
        exit_hooks := exit_hooks st + 1\<rparr>"

text \<open>\<open>help_fn\<close> and \<open>test_fn\<close> are the addresses of the two built-in commands.\<close>

definition cli_start ::
  "allocator \<Rightarrow> create_answers \<Rightarrow> addr \<Rightarrow> addr \<Rightarrow> cli_state \<Rightarrow> byte list \<Rightarrow> cli_handler_t \<Rightarrow> (int \<times> cli_state) option" where
  "cli_start alloc ans help_fn test_fn st name h =
     (if ca_spin ans < 0 then Some (cli_fail st h (ca_spin ans))
      else case create_wakeup_pipe ans of
        Inl ret \<Rightarrow> Some (cli_fail st h ret)
      | Inr (rd, wr) \<Rightarrow>
          let st = st\<lparr>open_fds := insert rd (insert wr (open_fds st))\<rparr> in
          if ca_thread ans < 0 then Some (cli_fail st h (ca_thread ans))
          else do { (_, st) \<leftarrow> cli_register (cli_install alloc rd wr name h st) (ascii ''help'') (ascii ''help for subcommand details'') help_fn;
                    (_, st) \<leftarrow> cli_register st (ascii ''test'') (ascii ''test command input arguments'') test_fn;
                    Some (0, st) })"

definition cli_create :: "allocator \<Rightarrow> create_answers \<Rightarrow> addr \<Rightarrow> addr \<Rightarrow> cli_state \<Rightarrow> byte list \<Rightarrow> (int \<times> cli_state) option" where
  "cli_create alloc ans help_fn test_fn st name =
     (if 32 < length name + 1 then Some (- EINVAL, st)
      else case ca_handler ans of
        None \<Rightarrow> Some (- ENOSPC, st)
      | Some h \<Rightarrow>
          do { path \<leftarrow> sprint_path SOCKET_PATH_LEN name (ca_pid ans);
               let (ret, fd, st) = bind_and_listen (ca_bind ans) st path;
               if ret < 0 then Some (ret, st)
               else cli_start alloc ans help_fn test_fn st name (case fd of None \<Rightarrow> h | Some s \<Rightarrow> h\<lparr>socket_fd := s\<rparr>) })"

text \<open>
  The exit hook unlinks the socket file of the current handler; without a handler it reads through \<^verbatim>\<open>NULL\<close>.  \<^verbatim>\<open>common_signal\<close> is the handler of
  \<^verbatim>\<open>SIGINT\<close>: it exits, and \<^verbatim>\<open>exit\<close> runs each installed hook.
\<close>

definition remove_all_cleanup_files :: "int \<Rightarrow> cli_state \<Rightarrow> cli_state option" where
  "remove_all_cleanup_files pid st =
     do { h \<leftarrow> cmd_handler st;
          name \<leftarrow> string_at (h_name h) 0;
          path \<leftarrow> sprint_path 64 name pid;
          Some (unlink_file st path) }"

definition common_signal :: "int \<Rightarrow> cli_state \<Rightarrow> (int \<times> cli_state) option" where
  "common_signal pid st =
     do { st \<leftarrow> ((\<lambda>st. Option.bind st (remove_all_cleanup_files pid)) ^^ exit_hooks st) (Some st);
          Some (- 1, st) }"

text \<open>
  \<^verbatim>\<open>pipe_wakeup\<close> writes one byte and asserts that this worked; \<open>wr\<close> is what the pipe answers.  The polling thread is
  joined before the handler is taken apart.
\<close>

definition pipe_wakeup :: "wr_event list \<Rightarrow> unit run option" where
  "pipe_wakeup wr = do { (r, sent, wr) \<leftarrow> safe_write wr [0] 0 1 []; Some (if r = 0 then Done () else Aborted) }"

definition cli_destroy :: "wr_event list \<Rightarrow> cli_state \<Rightarrow> (int \<times> cli_state) run option" where
  "cli_destroy wr st =
     (case cmd_handler st of
        None \<Rightarrow> Some (Done (0, st))
      | Some h \<Rightarrow>
          do { r \<leftarrow> pipe_wakeup wr;
               case r of Aborted \<Rightarrow> Some Aborted
               | Done _ \<Rightarrow>
                   do { out \<leftarrow> cdp_destroy (cdp h);
                        Some (Done (0, (close_fd (close_fd (close_fd st (socket_fd h)) (pipe_rd h)) (pipe_wr h))\<lparr>cmd_handler := None\<rparr>)) } })"

section \<open>Lookup in the table\<close>

text \<open>A table in which \<open>cs\<close> have been registered.\<close>

definition table_of :: "command_t list \<Rightarrow> command_t list" where
  "table_of cs = cs @ replicate (COMMANDS_SIZE - length cs) NO_COMMAND"

definition entry :: "byte list \<times> byte list \<times> addr \<Rightarrow> command_t" where
  "entry = (\<lambda>(n, h, f). \<lparr>subcommand = Some n, help_text = Some h, execute = f\<rparr>)"

definition names_key :: "command_t \<Rightarrow> byte list \<Rightarrow> bool" where
  "names_key c key \<longleftrightarrow> (\<exists>n. subcommand c = Some n \<and> cstr COMMAND_MAX_LEN n = cstr COMMAND_MAX_LEN key)"

lemma fill_free_used: "\<forall>d \<in> set ds. execute d \<noteq> NULL \<Longrightarrow> fill_free (ds @ es) c = ds @ fill_free es c"
  by (induction ds) auto

lemma fill_free_table:
  assumes "\<forall>d \<in> set ds. execute d \<noteq> NULL" and "length ds < COMMANDS_SIZE"
  shows "fill_free (table_of ds) c = table_of (ds @ [c])"
proof -
  have "replicate (COMMANDS_SIZE - length ds) NO_COMMAND = NO_COMMAND # replicate (COMMANDS_SIZE - Suc (length ds)) NO_COMMAND"
    using assms(2) by (metis Suc_diff_Suc replicate_Suc)
  then show ?thesis unfolding table_of_def fill_free_used [OF assms(1)] by (simp add: NO_COMMAND_def)
qed

lemma command_find_Some:
  "\<forall>c \<in> set cs. subcommand c \<noteq> None \<Longrightarrow> command_find (cs @ replicate k NO_COMMAND) key = Some i \<longleftrightarrow>
   i < length cs \<and> names_key (cs ! i) key \<and> (\<forall>j < i. \<not> names_key (cs ! j) key)"
proof (induction cs arbitrary: i)
  case Nil
  then show ?case by (cases k) (auto simp: NO_COMMAND_def)
next
  case (Cons c cs)
  then obtain n where n: "subcommand c = Some n" by auto
  have "names_key c key \<longleftrightarrow> strncmp COMMAND_MAX_LEN n key = 0" by (simp add: names_key_def n strncmp_eq_0)
  then show ?case using Cons n by (cases i) (auto simp: All_less_Suc2)
qed

fun register_all :: "cli_state \<Rightarrow> (byte list \<times> byte list \<times> addr) list \<Rightarrow> cli_state option" where
  "register_all st [] = Some st"
| "register_all st ((n, h, f) # rs) = do { (ret, st) \<leftarrow> cli_register st n h f; register_all st rs }"

lemma register_all_table:
  "cmd_handler st \<noteq> None \<Longrightarrow> commands st = table_of cs \<Longrightarrow> regcnt st = int (length cs) \<Longrightarrow> \<forall>c \<in> set cs. execute c \<noteq> NULL \<Longrightarrow>
   \<forall>(n, h, f) \<in> set rs. f \<noteq> NULL \<Longrightarrow> length cs + length rs < COMMANDS_SIZE \<Longrightarrow>
   register_all st rs = Some (st\<lparr>commands := table_of (cs @ map entry rs), regcnt := int (length cs + length rs)\<rparr>)"
proof (induction rs arbitrary: st cs)
  case Nil
  then show ?case by simp
next
  case (Cons r rs)
  obtain n h f where r: "r = (n, h, f)" by (cases r)
  define st' where "st' = st\<lparr>commands := table_of (cs @ [entry r]), regcnt := int (length (cs @ [entry r]))\<rparr>"
  have "cli_register st n h f = Some (None, st')"
    using Cons.prems fill_free_table [of cs] r by (simp add: cli_register_def st'_def entry_def)
  moreover have "register_all st' rs = Some (st'\<lparr>commands := table_of ((cs @ [entry r]) @ map entry rs),
      regcnt := int (length (cs @ [entry r]) + length rs)\<rparr>)"
    using Cons.prems r by (intro Cons.IH) (auto simp: st'_def entry_def)
  ultimately show ?case by (simp add: r st'_def)
qed

section \<open>Receiving a request\<close>

lemma accept_loop_request:
  assumes m: "m = b @ [13, 10]" and crlf: "\<not> has_crlf (b @ [13])" and len: "length m \<le> CMD_SIZE"
  shows "pos < length m \<Longrightarrow> length cmd = CMD_SIZE \<Longrightarrow> take pos cmd = take pos m \<Longrightarrow> arriving es = drop pos m @ rest \<Longrightarrow>
    accept_loop es cmd pos = Some (Request (m @ drop (length m) cmd))"
proof (induction "length m - pos" arbitrary: pos cmd es)
  case (Suc d)
  have dr: "drop pos m = m ! pos # drop (Suc pos) m" using Suc.prems(1) by (simp add: Cons_nth_drop_Suc)
  define cmd1 where "cmd1 = overwrite cmd pos [m ! pos]"
  from safe_read_spec [of pos 1 cmd es] Suc.prems len dr obtain es1 where
    r: "safe_read es cmd pos 1 0 = Some (1, cmd1, es1)" "arriving es1 = drop (Suc pos) m @ rest"
    by (auto simp: safe_read_ret_def cmd1_def)
  have c1: "length cmd1 = CMD_SIZE" "take (Suc pos) cmd1 = take (Suc pos) m" "drop (Suc pos) cmd1 = drop (Suc pos) cmd"
    using Suc.prems len by (simp_all add: cmd1_def overwrite_def take_Suc_conv_app_nth)
  have nth: "cmd1 ! j = m ! j" if "j \<le> pos" for j
    using c1(2) that by (metis le_imp_less_Suc nth_take)
  show ?case
  proof (cases "Suc pos = length m")
    case True
    then have "0 < pos" "cmd1 ! pos = 10" "cmd1 ! (pos - 1) = 13" using m nth by (auto simp: nth_append)
    moreover have "cmd1 = m @ drop (length m) cmd" using c1 True by (metis append_take_drop_id order_refl take_all)
    ultimately show ?thesis using r by (subst accept_loop.simps) simp
  next
    case False
    then have lt: "Suc pos < length m" using Suc.prems(1) by simp
    have "\<not> (0 < pos \<and> cmd1 ! pos = 10 \<and> cmd1 ! (pos - 1) = 13)"
    proof
      assume *: "0 < pos \<and> cmd1 ! pos = 10 \<and> cmd1 ! (pos - 1) = 13"
      then have "m ! Suc (pos - 1) = 10" "m ! (pos - 1) = 13" using nth [of pos] nth [of "pos - 1"] by auto
      then have "has_crlf (b @ [13])" using * lt m unfolding has_crlf_iff
        by (intro exI [of _ "pos - 1"]) (auto simp: nth_append split: if_splits)
      with crlf show False by simp
    qed
    moreover have "accept_loop es1 cmd1 (Suc pos) = Some (Request (m @ drop (length m) cmd1))"
      using Suc.hyps(2) lt c1 r by (intro Suc.hyps(1)) auto
    moreover have "drop (length m) cmd1 = drop (length m) cmd" using c1(3) lt by (metis drop_drop le_add_diff_inverse2 less_imp_le)
    ultimately show ?thesis using r len lt by (subst accept_loop.simps) auto
  qed
qed simp

section \<open>Answering a request\<close>

definition answer :: "byte list list \<Rightarrow> byte list" where
  "answer ts = (let t = concat (filter printable ts) in if t = [] then ascii ''success'' else t)"

lemma command_find_key:
  assumes "cstr COMMAND_MAX_LEN key = cstr COMMAND_MAX_LEN key'"
  shows "command_find cs key = command_find cs key'"
  by (induction cs) (auto simp: strncmp_eq_0 assms split: option.splits)

lemma nul_free_success: "0 \<notin> set (ascii ''success'')"
  by (simp add: ascii_def)

lemma answer_sent:
  assumes "alloc_ok alloc" and "cdp_holds c0 []" and "length (concat ts) < 2 ^ 30" and "0 \<notin> set (concat ts)"
    and "uninterrupted wr" and "wr \<noteq> []" and "length (answer ts) \<le> sum_list (map wrote wr)"
  shows "\<exists>c1 c2 wr'. cdp_prints alloc c0 ts = Some c1 \<and> cdp_output c1 = Some (answer ts) \<and>
    safe_write wr (answer ts @ [0]) 0 (int (length (answer ts))) [] = Some (0, answer ts, wr') \<and>
    cdp_reinit alloc c1 = Some c2 \<and> cdp_holds c2 []"
proof -
  from cdp_prints_holds [OF assms(1,2)] assms(3) obtain c1 where
    c: "cdp_prints alloc c0 ts = Some c1" "cdp_holds c1 (concat (filter printable ts))" by auto
  moreover have "0 \<notin> set (concat (filter printable ts))" using assms(4) by auto
  ultimately have "cdp_output c1 = Some (answer ts)" using cdp_output_holds by (simp add: answer_def Let_def)
  moreover obtain wr' where "safe_write wr (answer ts @ [0]) 0 (int (length (answer ts))) [] = Some (0, answer ts, wr')"
    using safe_write_correct [OF assms(5,6,7), of 0 "answer ts @ [0]" "[]"] by auto
  moreover obtain c2 where "cdp_reinit alloc c1 = Some c2" "cdp_holds c2 []" using cdp_reinit_holds [OF assms(1) c(2)] by blast
  ultimately show ?thesis using c(1) by blast
qed

lemma do_accept_answers:
  assumes req: "plain_arg sub" "\<forall>s \<in> set args. plain_arg s" "length args \<le> COMMAND_MAX_ARGC"
      "\<not> has_crlf sub" "\<forall>s \<in> set args. \<not> has_crlf s" "length (message sub args) \<le> CMD_SIZE"
    and rd: "arriving rd = message sub args @ rest" and junk: "length junk = CMD_SIZE"
    and env: "alloc_ok alloc" "cdp_holds (cdp h) []" "length (concat ts) < 2 ^ 30" "0 \<notin> set (concat ts)"
      "uninterrupted wr" "wr \<noteq> []" "length (answer ts) \<le> sum_list (map wrote wr)"
    and cmd: "\<And>cmd offs. map (string_at cmd) offs = map Some args \<Longrightarrow> cstr COMMAND_MAX_LEN (drop 4 cmd) = sub \<Longrightarrow>
      command_execute code cmds (cdp h) cmd 4 (of_nat (length args))
        (map Some offs @ replicate (COMMAND_MAX_ARGC - length args) None) = cdp_prints alloc (cdp h) ts"
  shows "\<exists>c. do_accept alloc code junk cmds h (Conn rd wr) = Some (Done (h\<lparr>cdp := c\<rparr>, answer ts)) \<and> cdp_holds c []"
proof -
  define cmd where "cmd = message_body sub args @ [13, 10] @ drop (length (message sub args)) junk"
  have "accept_loop rd junk 0 = Some (Request (message sub args @ drop (length (message sub args)) junk))"
    using rd junk req has_crlf_message_body [OF req(1-3), of "[13]"]
    by (intro accept_loop_request [of _ "message_body sub args"]) (auto simp: message_def)
  then have a: "accept_loop rd junk 0 = Some (Request cmd)" by (simp add: cmd_def message_def)
  define offs where "offs = arg_offsets (length sub + 9) args"
  have d: "msg_decode cmd (replicate COMMAND_MAX_ARGC None) = Some (Done (length (message_body sub args), 4, of_nat (length args),
      map Some offs @ replicate (COMMAND_MAX_ARGC - length args) None))"
    using msg_decode_message [OF req(1-3)] by (simp add: cmd_def offs_def)
  have "map (string_at cmd) offs = map Some args"
    using strings_at_offsets [of args "frame sub @ u32_bytes (of_nat (length args))"] req(2)
    by (simp add: cmd_def message_body_def offs_def plain_arg_def add.commute)
  moreover have "cstr COMMAND_MAX_LEN (drop 4 cmd) = sub"
  proof -
    have "drop 4 cmd = sub @ 0 # drop (length sub + 5) cmd" by (simp add: cmd_def message_body_def frame_def)
    then show ?thesis using cstr_terminated [of sub COMMAND_MAX_LEN] req(1) by (simp add: plain_arg_def)
  qed
  ultimately have x: "command_execute code cmds (cdp h) cmd 4 (of_nat (length args))
      (map Some offs @ replicate (COMMAND_MAX_ARGC - length args) None) = cdp_prints alloc (cdp h) ts" by (rule cmd)
  from answer_sent [OF env] show ?thesis by (auto simp: do_accept_def command_output_def a d x)
qed

section \<open>What the built-in commands print\<close>

definition line :: "byte list \<Rightarrow> byte list" where
  "line t = t @ [10]"

definition test_line :: "nat \<Rightarrow> byte list \<Rightarrow> byte list" where
  "test_line i s = line (ascii ''argv['' @ dec_nat i @ ascii ''] = '' @ s)"

definition test_lines :: "byte list list \<Rightarrow> byte list list" where
  "test_lines args = line (ascii ''argc: '' @ dec_nat (length args)) # map (\<lambda>(i, s). test_line i s) (enumerate 0 args)"

definition help_line :: "byte list \<times> byte list \<times> addr \<Rightarrow> byte list" where
  "help_line = (\<lambda>(n, h, f). line (ascii ''  '' @ n @ [9] @ h))"

definition help_lines :: "(byte list \<times> byte list \<times> addr) list \<Rightarrow> byte list list" where
  "help_lines rs = line (ascii ''register subcomand:'') # map help_line rs"

lemma cdp_prints_append:
  "cdp_prints alloc out (ts @ us) = do { out \<leftarrow> cdp_prints alloc out ts; cdp_prints alloc out us }"
  by (induction ts arbitrary: out) auto

lemma CMD_PRINTLN_line: "CMD_PRINTLN alloc out t = cdp_print alloc out (line t)"
  by (simp add: CMD_PRINTLN_def line_def)

lemma sint_of_nat32: "n < 2 ^ 31 \<Longrightarrow> sint (of_nat n :: 32 word) = int n"
  by (simp add: signed_of_nat signed_take_bit_int_eq_self)

lemma cmd_test_loop_prints:
  assumes "map (string_at cmd) offs = map Some args" and "length args \<le> COMMAND_MAX_ARGC"
  shows "i \<le> length args \<Longrightarrow>
    cmd_test_loop alloc out cmd (of_nat (length args)) (map Some offs @ rest) (int i) =
    cdp_prints alloc out (map (\<lambda>(i, s). test_line i s) (enumerate i (drop i args)))"
proof (induction "length args - i" arbitrary: i out)
  case 0
  then show ?case using assms(2) by (subst cmd_test_loop.simps) (simp add: sint_of_nat32 COMMAND_MAX_ARGC_def)
next
  case (Suc d)
  then have i: "i < length args" by simp
  have l: "length offs = length args" using assms(1) by (metis length_map)
  have "map (string_at cmd) offs ! i = map Some args ! i" using assms(1) by simp
  then have s: "string_at cmd (offs ! i) = Some (args ! i)" using i l by simp
  have a: "at_index (map Some offs @ rest) (int i) = Some (Some (offs ! i))" using i l by (simp add: nth_append)
  have n: "sint (of_nat (length args) :: 32 word) = int (length args)" using assms(2) by (intro sint_of_nat32) (simp add: COMMAND_MAX_ARGC_def)
  have dr: "drop i args = args ! i # drop (Suc i) args" using i by (simp add: Cons_nth_drop_Suc)
  have ih: "cmd_test_loop alloc o' cmd (of_nat (length args)) (map Some offs @ rest) (int i + 1) =
      cdp_prints alloc o' (map (\<lambda>(i, s). test_line i s) (enumerate (Suc i) (drop (Suc i) args)))" for o'
    using Suc.hyps(1) [of "Suc i" o'] Suc.hyps(2) i by (simp add: add.commute)
  have tl: "line (ascii ''argv['' @ dec_nat i @ ascii ''] = '' @ args ! i) = test_line i (args ! i)" by (simp add: test_line_def)
  show ?case unfolding dr
    by (subst cmd_test_loop.simps) (simp add: i n a s ih CMD_PRINTLN_line dec_int_def tl)
qed

lemma cmd_test_prints:
  assumes "map (string_at cmd) offs = map Some args" and "length args \<le> COMMAND_MAX_ARGC"
  shows "cmd_test alloc out cmd (of_nat (length args)) (map Some offs @ rest) = cdp_prints alloc out (test_lines args)"
proof -
  have "sint (of_nat (length args) :: 32 word) = int (length args)" using assms(2) by (intro sint_of_nat32) (simp add: COMMAND_MAX_ARGC_def)
  then show ?thesis using cmd_test_loop_prints [OF assms, of 0]
    by (simp add: cmd_test_def test_lines_def CMD_PRINTLN_line dec_int_def)
qed

lemma cmd_help_loop_prints:
  "\<forall>(n, h, f) \<in> set rs. f \<noteq> NULL \<Longrightarrow>
   cmd_help_loop alloc out (map entry rs @ replicate k NO_COMMAND) = cdp_prints alloc out (map help_line rs)"
proof (induction rs arbitrary: out)
  case Nil
  show ?case by (induction k) (simp_all add: NO_COMMAND_def)
next
  case (Cons r rs)
  then show ?case by (cases r) (simp add: entry_def help_line_def CMD_PRINTLN_line)
qed

lemma cmd_help_prints:
  "\<forall>(n, h, f) \<in> set rs. f \<noteq> NULL \<Longrightarrow> cmd_help alloc out (table_of (map entry rs)) = cdp_prints alloc out (help_lines rs)"
  by (simp add: cmd_help_def help_lines_def table_of_def cmd_help_loop_prints CMD_PRINTLN_line)

lemma length_concat_le: "\<forall>x \<in> set xs. length x \<le> k \<Longrightarrow> length (concat xs) \<le> k * length xs"
  by (induction xs) auto

lemma test_lines_bounds:
  assumes "\<forall>s \<in> set args. plain_arg s" and "length args \<le> COMMAND_MAX_ARGC"
  shows "length (concat (test_lines args)) < 2 ^ 30" and "0 \<notin> set (concat (test_lines args))"
proof -
  have l: "length (dec_nat i) \<le> 33" if "i \<le> length args" for i
    using length_dec_nat [of i] that assms(2) by (simp add: COMMAND_MAX_ARGC_def)
  have tl: "length (test_line i (args ! i)) \<le> 100" if "i < length args" for i
  proof -
    have "length (args ! i) < 32" using assms(1) that by (simp add: plain_arg_def COMMAND_MAX_LEN_def)
    with l [of i] that show ?thesis by (simp add: test_line_def line_def ascii_def)
  qed
  have "length t \<le> 100" if "t \<in> set (test_lines args)" for t
    using that tl l [of "length args"] by (auto simp: test_lines_def line_def ascii_def in_set_enumerate_eq)
  then have "length (concat (test_lines args)) \<le> 100 * length (test_lines args)" by (intro length_concat_le) blast
  then show "length (concat (test_lines args)) < 2 ^ 30" using assms(2) by (simp add: test_lines_def COMMAND_MAX_ARGC_def)
  show "0 \<notin> set (concat (test_lines args))"
    using assms(1) dec_nat_nonzero
    by (auto simp: test_lines_def line_def test_line_def ascii_def plain_arg_def in_set_enumerate_eq)
qed

section \<open>The server after creation\<close>

definition builtins :: "addr \<Rightarrow> addr \<Rightarrow> (byte list \<times> byte list \<times> addr) list" where
  "builtins help_fn test_fn =
     [(ascii ''help'', ascii ''help for subcommand details'', help_fn),
      (ascii ''test'', ascii ''test command input arguments'', test_fn)]"

definition builtin_code :: "allocator \<Rightarrow> addr \<Rightarrow> addr \<Rightarrow> cmd_code" where
  "builtin_code alloc help_fn test_fn f cmds out cmd argc argv =
     (if f = help_fn then cmd_help alloc out cmds
      else if f = test_fn then cmd_test alloc out cmd argc argv
      else None)"

definition builtin_texts :: "addr \<Rightarrow> addr \<Rightarrow> byte list \<Rightarrow> byte list list \<Rightarrow> byte list list" where
  "builtin_texts help_fn test_fn sub args =
     (if sub = ascii ''help'' then help_lines (builtins help_fn test_fn)
      else if sub = ascii ''test'' then test_lines args
      else [])"

lemma bind_and_listen_keeps:
  "bind_and_listen ans (st :: cli_state) path = (ret, fd, st') \<Longrightarrow>
   commands st' = commands st \<and> regcnt st' = regcnt st \<and> cmd_handler st' = cmd_handler st \<and> exit_hooks st' = exit_hooks st"
  by (auto simp: bind_and_listen_def Let_def close_fd_def split: if_splits sum.splits option.splits)

lemma cli_create_elim:
  assumes "cli_create alloc ans help_fn test_fn cli_initial name = Some (0, st)"
  obtains h st1 where "cli_start alloc ans help_fn test_fn st1 name h = Some (0, st)" "commands st1 = commands cli_initial" "regcnt st1 = 0"
proof -
  obtain h where h: "ca_handler ans = Some h" "\<not> 32 < length name + 1"
    using assms by (cases "ca_handler ans"; cases "32 < length name + 1") (simp_all add: cli_create_def EINVAL_def ENOSPC_def)
  obtain path where path: "sprint_path SOCKET_PATH_LEN name (ca_pid ans) = Some path"
    using assms h by (cases "sprint_path SOCKET_PATH_LEN name (ca_pid ans)") (simp_all add: cli_create_def)
  obtain ret fd st1 where b: "bind_and_listen (ca_bind ans) cli_initial path = (ret, fd, st1)" by (metis prod_cases3)
  have "cli_start alloc ans help_fn test_fn st1 name (case fd of None \<Rightarrow> h | Some s \<Rightarrow> h\<lparr>socket_fd := s\<rparr>) = Some (0, st)"
    using assms h path b by (cases "ret < 0") (simp_all add: cli_create_def)
  with that bind_and_listen_keeps [OF b] show thesis by (simp add: cli_initial_def)
qed

lemma cli_start_register:
  assumes "cli_start alloc ans help_fn test_fn st1 name h = Some (0, st)"
  obtains rd wr st2 where "register_all (cli_install alloc rd wr name h st2) (builtins help_fn test_fn) = Some st"
    "commands st2 = commands st1" "regcnt st2 = regcnt st1"
proof -
  obtain rd wr where ok: "\<not> ca_spin ans < 0" "create_wakeup_pipe ans = Inr (rd, wr)" "\<not> ca_thread ans < 0"
    using assms by (cases "ca_spin ans < 0"; cases "ca_pipe ans"; cases "ca_thread ans < 0")
      (auto simp: cli_start_def cli_fail_def create_wakeup_pipe_def Let_def)
  with assms have "register_all (cli_install alloc rd wr name h (st1\<lparr>open_fds := insert rd (insert wr (open_fds st1))\<rparr>)) (builtins help_fn test_fn) = Some st"
    by (auto simp: cli_start_def builtins_def Let_def bind_eq_Some_conv)
  with that show thesis by simp
qed

lemma cli_create_ok:
  assumes "cli_create alloc ans help_fn test_fn cli_initial name = Some (0, st)" and "help_fn \<noteq> NULL" and "test_fn \<noteq> NULL" and "alloc_ok alloc"
  obtains h where "cmd_handler st = Some h" "commands st = table_of (map entry (builtins help_fn test_fn))" "regcnt st = 2"
    "cdp_holds (cdp h) []"
proof -
  have t: "table_of [] = replicate COMMANDS_SIZE NO_COMMAND" by (simp add: table_of_def)
  obtain rd wr h0 st1 where reg: "register_all (cli_install alloc rd wr name h0 st1) (builtins help_fn test_fn) = Some st"
    and st1: "commands st1 = commands cli_initial" "regcnt st1 = 0"
    by (rule cli_create_elim [OF assms(1)], erule cli_start_register) (use that in auto)
  define st0 where "st0 = cli_install alloc rd wr name h0 st1"
  obtain h where s: "cmd_handler st0 = Some h" "cdp_holds (cdp h) []" "commands st0 = table_of []" "regcnt st0 = 0"
    "register_all st0 (builtins help_fn test_fn) = Some st"
    using reg st1 cdp_init_holds [OF assms(4)] by (simp add: st0_def cli_install_def cli_initial_def t)
  have f: "\<forall>(n, h, f) \<in> set (builtins help_fn test_fn). f \<noteq> NULL" "length (builtins help_fn test_fn) = 2"
    using assms(2,3) by (simp_all add: builtins_def)
  with register_all_table [of st0 "[]" "builtins help_fn test_fn"] s
  have "st = st0\<lparr>commands := table_of (map entry (builtins help_fn test_fn)), regcnt := 2\<rparr>" by (simp add: COMMANDS_SIZE_def)
  with s that show thesis by simp
qed

lemma builtin_execute:
  assumes "help_fn \<noteq> NULL" and "test_fn \<noteq> NULL" and "help_fn \<noteq> test_fn" and "length args \<le> COMMAND_MAX_ARGC"
    and "map (string_at cmd) offs = map Some args" and "cstr COMMAND_MAX_LEN (drop 4 cmd) = sub"
  shows "command_execute (builtin_code alloc help_fn test_fn) (table_of (map entry (builtins help_fn test_fn))) out cmd 4
      (of_nat (length args)) (map Some offs @ rest) = cdp_prints alloc out (builtin_texts help_fn test_fn sub args)"
proof -
  define tab where "tab = table_of (map entry (builtins help_fn test_fn))"
  have c: "cstr COMMAND_MAX_LEN (ascii ''help'') = ascii ''help''" "cstr COMMAND_MAX_LEN (ascii ''test'') = ascii ''test''"
    by (simp_all add: ascii_def COMMAND_MAX_LEN_def cstr_plain)
  have n: "ascii ''help'' \<noteq> ascii ''test''" by (simp add: ascii_def)
  have nc: "subcommand NO_COMMAND = None" by (simp add: NO_COMMAND_def)
  have rep: "command_find (replicate k NO_COMMAND) key = None" for k key by (cases k) (simp_all add: nc)
  have f: "command_find tab (drop 4 cmd) =
      (if sub = ascii ''help'' then Some 0 else if sub = ascii ''test'' then Some 1 else None)"
    using n by (auto simp: tab_def table_of_def builtins_def entry_def strncmp_eq_0 c assms(6) nc rep)
  have e: "tab ! 0 = entry (builtins help_fn test_fn ! 0)" "tab ! 1 = entry (builtins help_fn test_fn ! 1)"
    by (simp_all add: tab_def table_of_def builtins_def)
  have "\<forall>(n, h, f) \<in> set (builtins help_fn test_fn). f \<noteq> NULL" using assms(1,2) by (simp add: builtins_def)
  from cmd_help_prints [OF this] show ?thesis
    using f n e assms(3) cmd_test_prints [OF assms(5,4)] unfolding tab_def [symmetric]
    by (auto simp: command_execute_def builtin_code_def builtin_texts_def builtins_def entry_def)
qed

lemma builtin_texts_bounds:
  assumes "\<forall>s \<in> set args. plain_arg s" and "length args \<le> COMMAND_MAX_ARGC"
  shows "length (concat (builtin_texts help_fn test_fn sub args)) < 2 ^ 30" "0 \<notin> set (concat (builtin_texts help_fn test_fn sub args))"
  using test_lines_bounds [OF assms]
  by (auto simp: builtin_texts_def help_lines_def builtins_def help_line_def line_def ascii_def)

section \<open>Properties\<close>

text \<open>
  A request is answered.  After a successful \<^verbatim>\<open>cli_create\<close>, a connection on which a request arrives, however it is split
  into chunks and interrupted, that names a subcommand and at most 32 arguments of at most 31 bytes without a line end inside
  and fits the 1024-byte buffer, is read completely, decoded and executed, and the answer sent is exactly what the built-in command
  prints: for \<^verbatim>\<open>test\<close> the count and the arguments it was given, for \<^verbatim>\<open>help\<close> the table, and \<^verbatim>\<open>success\<close> for every subcommand that
  is not registered.  Afterwards the output buffer is empty again.
\<close>

lemma cli_request_answered:
  assumes "cli_create alloc ans help_fn test_fn cli_initial name = Some (0, st)"
    and "help_fn \<noteq> NULL" and "test_fn \<noteq> NULL" and "help_fn \<noteq> test_fn" and "alloc_ok alloc"
    and "plain_arg sub" and "\<forall>s \<in> set args. plain_arg s" and "length args \<le> COMMAND_MAX_ARGC"
    and "\<not> has_crlf sub" and "\<forall>s \<in> set args. \<not> has_crlf s" and "length (message sub args) \<le> CMD_SIZE"
    and "arriving rd = message sub args @ rest" and "length junk = CMD_SIZE"
    and "uninterrupted wr" and "wr \<noteq> []"
    and "length (answer (builtin_texts help_fn test_fn sub args)) \<le> sum_list (map wrote wr)"
  shows "\<exists>h c. cmd_handler st = Some h \<and>
    do_accept alloc (builtin_code alloc help_fn test_fn) junk (commands st) h (Conn rd wr) =
      Some (Done (h\<lparr>cdp := c\<rparr>, answer (builtin_texts help_fn test_fn sub args))) \<and> cdp_holds c []"
proof -
  obtain h where h: "cmd_handler st = Some h" "commands st = table_of (map entry (builtins help_fn test_fn))" "cdp_holds (cdp h) []"
    by (rule cli_create_ok [OF assms(1,2,3,5)])
  from do_accept_answers [OF assms(6-13) assms(5) h(3) builtin_texts_bounds [OF assms(7,8)] assms(14-16)
      builtin_execute [OF assms(2,3,4,8)]]
  show ?thesis using h(1,2) by metis
qed

definition create_example :: create_answers where
  "create_example = \<lparr>ca_handler = Some \<lparr>h_name = replicate 32 0, socket_fd = 0, cdp = \<lparr>cdp_buf = Null, cdp_buf_size = 0, cdp_pos = 0\<rparr>,
     pipe_rd = 0, pipe_wr = 0, h_state = CLI_FINI\<rparr>, ca_pid = 7,
     ca_bind = \<lparr>ba_socket = Inr 5, ba_bind = None, ba_bind_again = None, ba_listen = None\<rparr>, ca_spin = 0, ca_pipe = Some (6, 7), ca_thread = 0\<rparr>"

definition zero_alloc :: allocator where
  "zero_alloc n = Some (replicate n 0)"

lemma zero_alloc_ok: "alloc_ok zero_alloc"
  by (simp add: alloc_ok_def zero_alloc_def)

lemma example_path: "sprint_path SOCKET_PATH_LEN [97] 7 = Some (socket_path [97] 7)"
  by (rule sprint_path_fits) (simp_all add: valid_pid_def)

lemma example_bound:
  "bind_and_listen \<lparr>ba_socket = Inr 5, ba_bind = None, ba_bind_again = None, ba_listen = None\<rparr> cli_initial (socket_path [97] 7) =
   (0, Some 5, cli_initial\<lparr>open_fds := {5}, socket_files := {socket_path [97] 7}\<rparr>)"
  using length_socket_path [of "[97]" 7]
  by (subst bind_and_listen_bound [of _ 5]) (auto simp: bound_def bind_ret_def valid_pid_def SOCKET_PATH_LEN_def cli_initial_def)

text \<open>
  C11: The table of commands is a list of at most 1023 registrations in which the first match wins.  From the empty table,
  registering \<open>rs\<close> succeeds for every entry, and \<^verbatim>\<open>command_find\<close> then returns the first one whose name agrees with the key in the
  first 32 bytes, or nothing.  The 1024th registration is refused with \<^verbatim>\<open>-ENOSPC\<close> and changes nothing.
\<close>

theorem command_table_spec:
  assumes "cmd_handler st \<noteq> None" and "commands st = commands cli_initial" and "regcnt st = 0"
    and "\<forall>(n, h, f) \<in> set rs. f \<noteq> NULL" and "length rs < COMMANDS_SIZE"
  shows "\<exists>st'. register_all st rs = Some st' \<and>
    (\<forall>i. command_find (commands st') key = Some i \<longleftrightarrow>
      i < length rs \<and> names_key (entry (rs ! i)) key \<and> (\<forall>j < i. \<not> names_key (entry (rs ! j)) key)) \<and>
    (length rs = COMMANDS_SIZE - 1 \<longrightarrow> cli_register st' n h f = Some (Some (- ENOSPC), st'))"
proof -
  define st' where "st' = st\<lparr>commands := table_of (map entry rs), regcnt := int (length rs)\<rparr>"
  have r: "register_all st rs = Some st'"
    using register_all_table [of st "[]" rs] assms by (simp add: st'_def cli_initial_def table_of_def)
  have "\<forall>c \<in> set (map entry rs). subcommand c \<noteq> None" by (auto simp: entry_def)
  from command_find_Some [OF this, of "COMMANDS_SIZE - length rs" key]
  have "command_find (commands st') key = Some i \<longleftrightarrow>
      i < length rs \<and> names_key (entry (rs ! i)) key \<and> (\<forall>j < i. \<not> names_key (entry (rs ! j)) key)" for i
    by (auto simp: st'_def table_of_def)
  moreover have "length rs = COMMANDS_SIZE - 1 \<longrightarrow> cli_register st' n h f = Some (Some (- ENOSPC), st')"
    by (simp add: cli_register_def st'_def COMMANDS_SIZE_def)
  ultimately show ?thesis using r by blast
qed

definition cli_example :: cli_state where
  "cli_example = cli_install zero_alloc 6 7 [97] (the (ca_handler create_example)) cli_initial"

theorem command_table_witness:
  "\<exists>st'. register_all cli_example [([97], [], 8), ([98], [], 16), ([98], [], 24)] = Some st' \<and> command_find (commands st') [98] = Some 1"
proof -
  have p: "cmd_handler cli_example \<noteq> None" "commands cli_example = commands cli_initial" "regcnt cli_example = 0"
    by (simp_all add: cli_example_def cli_install_def cli_initial_def)
  define rs :: "(byte list \<times> byte list \<times> addr) list" where "rs = [([97], [], 8), ([98], [], 16), ([98], [], 24)]"
  have q: "\<forall>(n, h, f) \<in> set rs. f \<noteq> NULL" "length rs < COMMANDS_SIZE" by (simp_all add: rs_def COMMANDS_SIZE_def)
  from command_table_spec [OF p q, of "[98]"] obtain st' where st': "register_all cli_example rs = Some st'"
    "command_find (commands st') [98] = Some 1 \<longleftrightarrow>
      1 < length rs \<and> names_key (entry (rs ! 1)) [98] \<and> (\<forall>j < 1. \<not> names_key (entry (rs ! j)) [98])" by blast
  moreover have "1 < length rs \<and> names_key (entry (rs ! 1)) [98] \<and> (\<forall>j < 1. \<not> names_key (entry (rs ! j)) [98])"
    by (simp add: rs_def names_key_def entry_def cstr_plain COMMAND_MAX_LEN_def)
  ultimately show ?thesis unfolding rs_def by blast
qed

definition created_fd :: "create_answers \<Rightarrow> cli_handler_t \<Rightarrow> int" where
  "created_fd ans h = (case bound (ca_bind ans) of None \<Rightarrow> socket_fd h | Some s \<Rightarrow> s)"

lemma cli_create_start:
  assumes "length name < 32" and "ca_handler ans = Some h" and "valid_pid (ca_pid ans)" and "errnos_positive (ca_bind ans)"
  obtains st1 where
    "cli_create alloc ans help_fn test_fn cli_initial name = cli_start alloc ans help_fn test_fn st1 name (h\<lparr>socket_fd := created_fd ans h\<rparr>)"
    "open_fds st1 = set_option (bound (ca_bind ans))" "cmd_handler st1 = None" "commands st1 = commands cli_initial" "regcnt st1 = 0" "exit_hooks st1 = 0"
    "bound (ca_bind ans) \<noteq> None \<Longrightarrow> socket_files st1 = {socket_path name (ca_pid ans)}"
proof -
  let ?path = "socket_path name (ca_pid ans)"
  obtain ret fd st1 where b: "bind_and_listen (ca_bind ans) cli_initial ?path = (ret, fd, st1)" by (metis prod_cases3)
  note path = sprint_path_fits [OF assms(1,3)]
  have len: "length ?path < SOCKET_PATH_LEN"
    using length_socket_path [OF assms(1,3)] by (simp add: SOCKET_PATH_LEN_def)
  have k: "0 \<le> ret \<and> (case fd of None \<Rightarrow> h | Some s \<Rightarrow> h\<lparr>socket_fd := s\<rparr>) = h\<lparr>socket_fd := created_fd ans h\<rparr> \<and>
      open_fds st1 = set_option (bound (ca_bind ans)) \<and> (bound (ca_bind ans) \<noteq> None \<longrightarrow> socket_files st1 = {?path})"
  proof (cases "bound (ca_bind ans)")
    case None
    with bind_and_listen_failed [OF None assms(4) len b] show ?thesis by (simp add: created_fd_def cli_initial_def)
  next
    case (Some s)
    have "ret = 0" "fd = Some s" "st1 = cli_initial\<lparr>open_fds := {s}, socket_files := {?path}\<rparr>"
      using bind_and_listen_bound [OF Some len, of cli_initial] b by (simp_all add: cli_initial_def)
    with Some show ?thesis by (simp add: created_fd_def)
  qed
  with assms path b bind_and_listen_keeps [OF b] show thesis
    by (intro that [of st1]) (auto simp: cli_create_def cli_initial_def)
qed

lemma cli_start_cases:
  assumes "commands st1 = commands cli_initial" and "regcnt st1 = 0" and "cmd_handler st1 = None"
  shows "\<exists>r st. cli_start alloc ans help_fn test_fn st1 name h = Some (r, st) \<and>
    (if 0 \<le> ca_spin ans \<and> ca_pipe ans \<noteq> None \<and> 0 \<le> ca_thread ans
     then r = 0 \<and> open_fds st = open_fds st1 \<union> {fst (the (ca_pipe ans)), snd (the (ca_pipe ans))} \<and> socket_files st = socket_files st1 \<and>
       exit_hooks st = exit_hooks st1 + 1 \<and>
       cmd_handler st = Some (h\<lparr>h_name := name @ 0 # drop (length name + 1) (h_name h), cdp := cdp_init alloc,
         pipe_rd := fst (the (ca_pipe ans)), pipe_wr := snd (the (ca_pipe ans)), h_state := CLI_INIT\<rparr>)
     else r < 0 \<and> cmd_handler st = None \<and>
       open_fds st = (open_fds st1 \<union> (if ca_spin ans < 0 \<or> ca_pipe ans = None then {} else {fst (the (ca_pipe ans)), snd (the (ca_pipe ans))}))
         - {socket_fd h})"
proof (cases "ca_spin ans < 0 \<or> ca_pipe ans = None \<or> ca_thread ans < 0")
  case True
  then show ?thesis using assms(3)
    by (auto simp: cli_start_def Let_def cli_fail_def close_fd_def create_wakeup_pipe_def)
next
  case False
  then obtain rd wr where "ca_pipe ans = Some (rd, wr)" "0 \<le> ca_spin ans" "0 \<le> ca_thread ans" by auto
  then show ?thesis using assms(1,2)
    by (auto simp: cli_start_def Let_def create_wakeup_pipe_def cli_install_def cli_register_def cli_initial_def COMMANDS_SIZE_def)
qed

lemma create_example_ok: "\<exists>st. cli_create zero_alloc create_example 8 16 cli_initial [97] = Some (0, st)"
proof -
  obtain h where h: "ca_handler create_example = Some h" by (simp add: create_example_def)
  obtain st1 where "cli_create zero_alloc create_example 8 16 cli_initial [97] =
      cli_start zero_alloc create_example 8 16 st1 [97] (h\<lparr>socket_fd := created_fd create_example h\<rparr>)"
    "cmd_handler st1 = None" "commands st1 = commands cli_initial" "regcnt st1 = 0"
    by (rule cli_create_start [of "[97]" create_example h])
      (use h in \<open>auto simp: create_example_def valid_pid_def errnos_positive_def\<close>)
  then show ?thesis
    using cli_start_cases [of st1 zero_alloc create_example 8 16 "[97]" "h\<lparr>socket_fd := created_fd create_example h\<rparr>"]
    by (auto simp: create_example_def)
qed

lemma pipe_wakeup_wrote: "0 < n \<Longrightarrow> pipe_wakeup [Wrote n] = Some (Done ())"
  by (simp add: pipe_wakeup_def wr_slice_def min_def)

lemma cdp_destroy_init: "alloc_ok alloc \<Longrightarrow> \<exists>c. cdp_destroy (cdp_init alloc) = Some c"
  using alloc_okD [of alloc 4096] by (auto simp: cdp_destroy_def cdp_init_def malloc_block_def free_block_def)



text \<open>
  C13: \<^verbatim>\<open>cli_create\<close> does not see that its socket could not be made, because \<^verbatim>\<open>bind_and_listen\<close> returns error numbers and only negative values count
  as errors.  When everything works the handler holds the listening socket, and the exit hook removes its file.  When \<^verbatim>\<open>socket\<close>, \<^verbatim>\<open>bind\<close> or
  \<^verbatim>\<open>listen\<close> fails, as \<^verbatim>\<open>bind\<close> does twice when the file of an earlier process is still there, \<^verbatim>\<open>cli_create\<close> returns 0 all the same, and the
  handler polls the descriptor number that happened to be in the memory from \<^verbatim>\<open>malloc\<close>.
\<close>

theorem cli_create_socket:
  assumes "length name < 32" and "0 \<notin> set name" and "ca_handler ans = Some h" and "valid_pid (ca_pid ans)" and "errnos_positive (ca_bind ans)"
    and "0 \<le> ca_spin ans" and "ca_pipe ans = Some (rd, wr)" and "0 \<le> ca_thread ans"
  shows "\<exists>st h'. cli_create alloc ans help_fn test_fn cli_initial name = Some (0, st) \<and> cmd_handler st = Some h' \<and>
    (case bound (ca_bind ans) of
       Some s \<Rightarrow> socket_fd h' = s \<and> open_fds st = {s, rd, wr} \<and> socket_files st = {socket_path name (ca_pid ans)} \<and>
         (\<exists>st'. common_signal (ca_pid ans) st = Some (- 1, st') \<and> socket_files st' = {})
     | None \<Rightarrow> socket_fd h' = socket_fd h \<and> open_fds st = {rd, wr})"
proof -
  obtain st1 where c: "cli_create alloc ans help_fn test_fn cli_initial name = cli_start alloc ans help_fn test_fn st1 name (h\<lparr>socket_fd := created_fd ans h\<rparr>)"
    and st1: "open_fds st1 = set_option (bound (ca_bind ans))" "cmd_handler st1 = None" "commands st1 = commands cli_initial" "regcnt st1 = 0" "exit_hooks st1 = 0"
      "bound (ca_bind ans) \<noteq> None \<Longrightarrow> socket_files st1 = {socket_path name (ca_pid ans)}"
    by (rule cli_create_start [OF assms(1,3,4,5), where alloc = alloc and help_fn = help_fn and test_fn = test_fn]) blast
  have n: "string_at (name @ 0 # r) 0 = Some name" for r
    using string_at_terminated [OF assms(2), of "[]"] by simp
  from cli_start_cases [OF st1(3,4,2), of alloc ans help_fn test_fn name "h\<lparr>socket_fd := created_fd ans h\<rparr>"] c st1(1,5,6) assms(6-8)
  show ?thesis
    by (auto simp: created_fd_def common_signal_def remove_all_cleanup_files_def n sprint_path_fits [OF assms(1,4)] unlink_file_def split: option.splits)
qed

theorem cli_create_socket_witness:
  "(\<exists>st. cli_create zero_alloc create_example 8 16 cli_initial [97] = Some (0, st) \<and> open_fds st = {5, 6, 7}) \<and>
   (\<exists>st. cli_create zero_alloc (create_example\<lparr>ca_bind := \<lparr>ba_socket = Inr 5, ba_bind = Some EADDRINUSE, ba_bind_again = Some EADDRINUSE, ba_listen = None\<rparr>\<rparr>)
      8 16 cli_initial [97] = Some (0, st) \<and> open_fds st = {6, 7})"
proof -
  define bad where "bad = create_example\<lparr>ca_bind := \<lparr>ba_socket = Inr 5, ba_bind = Some EADDRINUSE, ba_bind_again = Some EADDRINUSE, ba_listen = None\<rparr>\<rparr>"
  have p: "valid_pid (ca_pid create_example)" "valid_pid (ca_pid bad)" "errnos_positive (ca_bind create_example)" "errnos_positive (ca_bind bad)"
    "0 \<le> ca_spin create_example" "0 \<le> ca_spin bad" "ca_pipe create_example = Some (6, 7)" "ca_pipe bad = Some (6, 7)"
    "0 \<le> ca_thread create_example" "0 \<le> ca_thread bad"
    by (auto simp: bad_def create_example_def valid_pid_def errnos_positive_def EADDRINUSE_def)
  obtain h where h: "ca_handler create_example = Some h" "ca_handler bad = Some h" by (simp add: create_example_def bad_def)
  have b: "bound (ca_bind create_example) = Some 5" "bound (ca_bind bad) = None"
    by (simp_all add: create_example_def bad_def bound_def bind_ret_def EADDRINUSE_def)
  have "\<exists>st. cli_create zero_alloc create_example 8 16 cli_initial [97] = Some (0, st) \<and> open_fds st = {5, 6, 7}"
    using cli_create_socket [OF _ _ h(1) p(1) p(3) p(5) p(7) p(9), of "[97]" zero_alloc 8 16] b(1) by auto
  moreover have "\<exists>st. cli_create zero_alloc bad 8 16 cli_initial [97] = Some (0, st) \<and> open_fds st = {6, 7}"
    using cli_create_socket [OF _ _ h(2) p(2) p(4) p(6) p(8) p(10), of "[97]" zero_alloc 8 16] b(2) by auto
  ultimately show ?thesis unfolding bad_def by blast
qed

end
