(* ===== verification/Cli_Client.thy ===== *)
theory Cli_Client
  imports Cli_Server
begin

text \<open>
  The client program, \<^verbatim>\<open>src/cli/cli_client.c\<close>.  What the system answers is the argument \<open>client_env\<close>: the names in the socket
  directory, the modes that \<^verbatim>\<open>stat\<close> and \<^verbatim>\<open>lstat\<close> report for a path, the return values of \<^verbatim>\<open>socket\<close>, \<^verbatim>\<open>connect\<close> and \<^verbatim>\<open>select\<close>, what the
  socket accepts and what arrives on it, and the indeterminate contents of the buffer.  The result is the exit value, the
  lines printed from the answer, and the bytes sent; diagnostics are not represented.
\<close>

record client_env =
  ce_names :: "byte list list"
  ce_stat :: "byte list \<Rightarrow> 32 word option"
  ce_lstat :: "byte list \<Rightarrow> 32 word option"
  ce_socket :: int
  ce_connect :: int
  ce_errno :: int
  ce_writes :: "wr_event list"
  ce_ready :: int
  ce_arrives :: "rd_event list"
  ce_buffer :: "byte list"

definition ENOENT :: int where
  "ENOENT = 2"

definition ETIMEDOUT :: int where
  "ETIMEDOUT = 110"

definition SOCKET_PATH_DIR :: "byte list" where
  "SOCKET_PATH_DIR = ascii ''/var/tmp/''"

section \<open>Finding the server\<close>

unbundle bit_operations_syntax

text \<open>The type bits of a mode, as in \<^verbatim>\<open>sys/stat.h\<close>.\<close>

definition S_ISSOCK :: "32 word \<Rightarrow> bool" where
  "S_ISSOCK mode \<longleftrightarrow> mode AND 0xF000 = 0xC000"

definition S_ISDIR :: "32 word \<Rightarrow> bool" where
  "S_ISDIR mode \<longleftrightarrow> mode AND 0xF000 = 0x4000"

definition is_directory :: "client_env \<Rightarrow> byte list \<Rightarrow> bool" where
  "is_directory env path = (case ce_lstat env path of None \<Rightarrow> False | Some mode \<Rightarrow> S_ISDIR mode)"

text \<open>The number is printed with \<^verbatim>\<open>%d\<close>, which shows its low 32 bits.\<close>

definition pid_exist :: "client_env \<Rightarrow> byte list \<Rightarrow> bool" where
  "pid_exist env pid =
     (let (v, e) = strtol pid in
      if e \<noteq> [] then False
      else is_directory env (ascii ''/proc/'' @ dec_int (sint (word_of_int v :: 32 word))))"

definition names_server :: "client_env \<Rightarrow> byte list \<Rightarrow> byte list \<Rightarrow> bool" where
  "names_server env proc_name d_name \<longleftrightarrow>
     strncmp (length proc_name) d_name proc_name = 0 \<and>
     length proc_name + 2 < length d_name \<and>
     pid_exist env (drop (length proc_name + 1) d_name)"

fun find_socket :: "client_env \<Rightarrow> byte list \<Rightarrow> byte list list \<Rightarrow> byte list option" where
  "find_socket env proc_name [] = None"
| "find_socket env proc_name (d # ds) =
     (let socket_path = SOCKET_PATH_DIR @ ascii ''/'' @ d in
      if SOCKET_PATH_LEN \<le> length socket_path + 1 then find_socket env proc_name ds
      else case ce_stat env socket_path of
          None \<Rightarrow> find_socket env proc_name ds
        | Some mode \<Rightarrow>
            if S_ISSOCK mode \<and> names_server env proc_name d then Some socket_path
            else find_socket env proc_name ds)"

section \<open>Receiving the answer\<close>

text \<open>
  The loop at the end of \<^verbatim>\<open>main\<close>.  The byte after the last one is overwritten with a terminator before printing, also when the
  buffer is full.
\<close>

partial_function (option) client_recv :: "rd_event list \<Rightarrow> byte list \<Rightarrow> nat \<Rightarrow> byte list list \<Rightarrow> byte list list option" where
  "client_recv es buffer pos out =
     do { (ret, buffer, es) \<leftarrow> safe_read es buffer pos 1 0;
          if ret \<le> 0 \<and> pos \<noteq> 0 then do {
            buffer \<leftarrow> put_index buffer (int pos) 0;
            s \<leftarrow> string_at buffer 0;
            Some (out @ [s]) }
          else if 1024 \<le> pos + 1 then do {
            buffer \<leftarrow> put_index buffer (int (pos + 1)) 0;
            s \<leftarrow> string_at buffer 0;
            client_recv es buffer 0 (out @ [s]) }
          else client_recv es buffer (pos + 1) out }"

section \<open>The program\<close>

definition check_args :: "byte list list \<Rightarrow> int option" where
  "check_args argv =
     (if int (length argv) < 3 then Some (- EINVAL)
      else if int COMMAND_MAX_ARGC < int (length argv) - 3 then Some (- EINVAL)
      else if \<exists>a \<in> set argv. COMMAND_MAX_LEN < length a + 1 then Some (- EINVAL)
      else None)"

definition client_main :: "client_env \<Rightarrow> byte list list \<Rightarrow> (int \<times> byte list list \<times> byte list) option" where
  "client_main env argv =
     (case check_args argv of
        Some e \<Rightarrow> Some (e, [], [])
      | None \<Rightarrow>
          case find_socket env (argv ! 1) (ce_names env) of
            None \<Rightarrow> Some (- ENOENT, [], [])
          | Some path \<Rightarrow>
              if ce_socket env = - 1 then Some (ce_errno env, [], [])
              else if ce_connect env = - 1 then Some (ce_errno env, [], [])
              else do {
                (msg_len, buffer) \<leftarrow> msg_encode (ce_buffer env) (argv ! 2) (of_nat (length argv - 3)) (drop 3 argv);
                (r, sent, _) \<leftarrow> safe_write (ce_writes env) buffer 0 (int msg_len) [];
                if r = - 1 then Some (1, [], sent)
                else if ce_ready env = - 1 then Some (- 1, [], sent)
                else if ce_ready env = 0 then Some (- ETIMEDOUT, [], sent)
                else do {
                  out \<leftarrow> client_recv (ce_arrives env) buffer 0 [];
                  Some (0, out, sent) } })"

section \<open>What is received\<close>

lemma client_recv_reads:
  "pos + length a = length m \<Longrightarrow> arriving es = a \<Longrightarrow> stream_end es = None \<Longrightarrow> m = take pos buffer @ a \<Longrightarrow> length m < 1024 \<Longrightarrow> length buffer = 1024 \<Longrightarrow>
   0 \<notin> set m \<Longrightarrow> m \<noteq> [] \<Longrightarrow> client_recv es buffer pos out = Some (out @ [m])"
proof (induction a arbitrary: es pos buffer)
  case Nil
  from safe_read_spec [of pos 1 buffer es] Nil obtain es1 where
    r: "safe_read es buffer pos 1 0 = Some (safe_read_ret es 1, buffer, es1)" by auto
  moreover have "safe_read_ret es 1 = 0" using Nil by (simp add: safe_read_ret_def)
  moreover have m: "m = take pos buffer" "0 < pos" "pos < length buffer" using Nil by auto
  moreover have "string_at (buffer[pos := 0]) 0 = Some m"
    using string_at_terminated [of m "[]" "drop (Suc pos) buffer"] m Nil by (simp add: upd_conv_take_nth_drop)
  ultimately show ?case by (subst client_recv.simps) simp
next
  case (Cons c a)
  from safe_read_spec [of pos 1 buffer es] Cons.prems obtain es1 where
    r: "safe_read es buffer pos 1 0 = Some (1, overwrite buffer pos [c], es1)" "arriving es1 = a" "stream_end es1 = None"
    by (auto simp: safe_read_ret_def)
  have "client_recv es1 (overwrite buffer pos [c]) (Suc pos) out = Some (out @ [m])"
    using Cons.prems r(2,3) by (intro Cons.IH) (auto simp: overwrite_def)
  then show ?case using r(1) Cons.prems(1,5) by (subst client_recv.simps) simp
qed

lemma client_recv_overflow:
  "pos < 1024 \<Longrightarrow> length buffer = 1024 \<Longrightarrow> 1024 \<le> pos + length (arriving es) \<Longrightarrow> client_recv es buffer pos out = None"
proof (induction "1024 - pos" arbitrary: es pos buffer)
  case (Suc d)
  then obtain c a where a: "arriving es = c # a" by (cases "arriving es") auto
  from safe_read_spec [of pos 1 buffer es] Suc.prems a obtain es1 where
    r: "safe_read es buffer pos 1 0 = Some (1, overwrite buffer pos [c], es1)" "arriving es1 = a"
    by (auto simp: safe_read_ret_def)
  have l: "length (overwrite buffer pos [c]) = 1024" using Suc.prems by simp
  show ?case
  proof (cases "pos = 1023")
    case True
    then show ?thesis using r l by (subst client_recv.simps) (simp add: put_index_def)
  next
    case False
    then have "client_recv es1 (overwrite buffer pos [c]) (Suc pos) out = None"
      using Suc.hyps(2) Suc.prems r a l by (intro Suc.hyps(1)) auto
    then show ?thesis using r False Suc.prems(1) by (subst client_recv.simps) auto
  qed
qed simp

lemma check_args_ok:
  "check_args (prog # proc_name # sub # args) = None \<longleftrightarrow>
   length args \<le> COMMAND_MAX_ARGC \<and> (\<forall>a \<in> set (prog # proc_name # sub # args). length a < COMMAND_MAX_LEN)"
  by (auto simp: check_args_def not_less less_Suc_eq_le)

definition connected :: "client_env \<Rightarrow> byte list \<Rightarrow> bool" where
  "connected env proc_name \<longleftrightarrow> find_socket env proc_name (ce_names env) \<noteq> None \<and> ce_socket env \<noteq> - 1 \<and> ce_connect env \<noteq> - 1 \<and>
     0 < ce_ready env \<and> length (ce_buffer env) = 1024 \<and> uninterrupted (ce_writes env) \<and> ce_writes env \<noteq> []"

lemma client_main_encodes:
  assumes "check_args (prog # proc_name # sub # args) = None" and "connected env proc_name"
    and "length (message sub args) \<le> 1024" and "length (message sub args) \<le> sum_list (map wrote (ce_writes env))"
  shows "client_main env (prog # proc_name # sub # args) =
    do { out \<leftarrow> client_recv (ce_arrives env) (message sub args @ drop (length (message sub args)) (ce_buffer env)) 0 [];
         Some (0, out, message sub args) }"
proof -
  define m where "m = message sub args"
  define b where "b = m @ drop (length m) (ce_buffer env)"
  from assms(2) have c: "find_socket env proc_name (ce_names env) \<noteq> None" "ce_socket env \<noteq> - 1" "ce_connect env \<noteq> - 1" "0 < ce_ready env"
    "length (ce_buffer env) = 1024" "uninterrupted (ce_writes env)" "ce_writes env \<noteq> []" by (auto simp: connected_def)
  have "length args < 2 ^ 32" using assms(1) by (simp add: check_args_ok COMMAND_MAX_ARGC_def)
  from msg_encode_message [OF this, of sub "ce_buffer env"] assms(3) c(5)
  have e: "msg_encode (ce_buffer env) sub (of_nat (length args)) args = Some (length m, b)" by (simp add: m_def b_def)
  have "length m \<le> length b" by (simp add: b_def)
  with safe_write_correct [OF c(6,7), of "length m" 0 b "[]"] assms(4) obtain es' where
    w: "safe_write (ce_writes env) b 0 (int (length m)) [] = Some (0, m, es')" by (auto simp: m_def [symmetric] b_def)
  from c(1) obtain path where "find_socket env proc_name (ce_names env) = Some path" by blast
  then show ?thesis using assms(1) c(2-4) e w by (simp add: client_main_def m_def [symmetric] b_def [symmetric])
qed

section \<open>Properties\<close>

text \<open>
  C5: Client and server together.  A client whose arguments pass its checks, contain no zero byte and no line end, and make a
  message of at most 1024 bytes sends exactly the message; a server created by \<^verbatim>\<open>cli_create\<close> that receives these bytes, in whatever chunks,
  sends the output of the built-in command; and if that is less than 1024 bytes and all that arrives before the connection
  is closed, the client prints exactly this output and exits with 0.
\<close>

theorem cli_client_server:
  assumes "check_args (prog # proc_name # sub # args) = None" and "connected env proc_name"
    and "\<forall>a \<in> set (sub # args). 0 \<notin> set a \<and> \<not> has_crlf a"
    and "length (message sub args) \<le> 1024" and "length (message sub args) \<le> sum_list (map wrote (ce_writes env))"
    and "cli_create alloc ans help_fn test_fn cli_initial name = Some (0, st)"
    and "help_fn \<noteq> NULL" and "test_fn \<noteq> NULL" and "help_fn \<noteq> test_fn" and "alloc_ok alloc"
    and "reply = answer (builtin_texts help_fn test_fn sub args)" and "length reply < 1024"
    and "uninterrupted wr" and "wr \<noteq> []" and "length reply \<le> sum_list (map wrote wr)" and "length junk = CMD_SIZE"
    and "arriving rd = message sub args" and "arriving (ce_arrives env) = reply" and "stream_end (ce_arrives env) = None"
  shows "client_main env (prog # proc_name # sub # args) = Some (0, [reply], message sub args) \<and>
    (\<exists>h c. cmd_handler st = Some h \<and>
      do_accept alloc (builtin_code alloc help_fn test_fn) junk (commands st) h (Conn rd wr) = Some (Done (h\<lparr>cdp := c\<rparr>, reply)))"
proof -
  have args: "length args \<le> COMMAND_MAX_ARGC" "plain_arg sub" "\<forall>s \<in> set args. plain_arg s" "\<not> has_crlf sub" "\<forall>s \<in> set args. \<not> has_crlf s"
    using assms(1,3) by (auto simp: check_args_ok plain_arg_def)
  obtain h where h: "cmd_handler st = Some h" "commands st = table_of (map entry (builtins help_fn test_fn))" "cdp_holds (cdp h) []"
    by (rule cli_create_ok [OF assms(6,7,8,10)])
  have size: "length (message sub args) \<le> CMD_SIZE" using assms(4) by (simp add: CMD_SIZE_def)
  have rd: "arriving rd = message sub args @ []" using assms(17) by simp
  from do_accept_answers [OF args(2,3,1,4,5) size rd assms(16) assms(10) h(3) builtin_texts_bounds [OF args(3,1)] assms(13,14)
      assms(15) [unfolded assms(11)] builtin_execute [OF assms(7,8,9) args(1)]]
  have server: "\<exists>c. do_accept alloc (builtin_code alloc help_fn test_fn) junk (commands st) h (Conn rd wr) = Some (Done (h\<lparr>cdp := c\<rparr>, reply))"
    unfolding h(2) assms(11) by blast
  have ne: "reply \<noteq> []" "0 \<notin> set reply"
    using builtin_texts_bounds(2) [OF args(3,1), of help_fn test_fn sub]
    by (auto simp: assms(11) answer_def Let_def ascii_def split: if_splits)
  define b where "b = message sub args @ drop (length (message sub args)) (ce_buffer env)"
  have "length b = 1024" using assms(2,4) by (simp add: b_def connected_def)
  then have "client_recv (ce_arrives env) b 0 [] = Some [reply]"
    using client_recv_reads [of 0 reply reply "ce_arrives env" b "[]"] assms(12,18,19) ne by simp
  then show ?thesis using client_main_encodes [OF assms(1,2,4,5)] server h(1) by (simp add: b_def)
qed

definition client_example :: client_env where
  "client_example = \<lparr>ce_names = [ascii ''a.12''], ce_stat = (\<lambda>p. Some 0xC1ED), ce_lstat = (\<lambda>p. Some 0x416D), ce_socket = 3, ce_connect = 0, ce_errno = 0,
     ce_writes = [Wrote 13], ce_ready = 1, ce_arrives = [Chunk (ascii ''succ''), Rd_Fail EINTR, Chunk (ascii ''ess'')], ce_buffer = replicate 1024 0\<rparr>"

lemma find_example: "find_socket client_example (ascii ''a'') (ce_names client_example) \<noteq> None"
proof -
  have "strtol (ascii ''12'') = (12, [])"
    using strtol_digits [of "ascii ''12''"] by (simp add: ascii_def is_digit_def LONG_MAX_def)
  then have "pid_exist client_example (ascii ''12'')"
    by (simp add: pid_exist_def is_directory_def S_ISDIR_def client_example_def)
  then have "names_server client_example (ascii ''a'') (ascii ''a.12'')"
    by (simp add: names_server_def strncmp_eq_0 ascii_def)
  then show ?thesis by (simp add: client_example_def S_ISSOCK_def SOCKET_PATH_LEN_def SOCKET_PATH_DIR_def ascii_def)
qed

theorem cli_client_server_witness:
  "client_main client_example [[99], ascii ''a'', [110, 111]] = Some (0, [ascii ''success''], message [110, 111] [])"
proof -
  have l: "length (message [110, 111] []) = 13" by (simp add: message_def message_body_def)
  obtain st where st: "cli_create zero_alloc create_example 8 16 cli_initial [97] = Some (0, st)" using create_example_ok by blast
  have a: "answer (builtin_texts 8 16 [110, 111] []) = ascii ''success''" "length (ascii ''success'') = 7"
    by (simp_all add: builtin_texts_def ascii_def answer_def)
  have ok: "check_args [[99], ascii ''a'', [110, 111]] = None" by (simp add: check_args_ok COMMAND_MAX_LEN_def ascii_def)
  have con: "connected client_example (ascii ''a'')"
    using find_example by (simp add: connected_def) (simp add: client_example_def uninterrupted_def)
  have arr: "arriving (ce_arrives client_example) = ascii ''success''" "stream_end (ce_arrives client_example) = None"
    "length (message [110, 111] []) \<le> sum_list (map wrote (ce_writes client_example))"
    by (simp_all add: client_example_def ascii_def l)
  have "client_main client_example [[99], ascii ''a'', [110, 111]] = Some (0, [ascii ''success''], message [110, 111] []) \<and>
    (\<exists>h c. cmd_handler st = Some h \<and>
      do_accept zero_alloc (builtin_code zero_alloc 8 16) (replicate CMD_SIZE 0) (commands st) h
        (Conn [Chunk (message [110, 111] [])] [Wrote 7]) = Some (Done (h\<lparr>cdp := c\<rparr>, ascii ''success'')))"
    by (rule cli_client_server [OF ok con _ _ arr(3) st])
      (use arr in \<open>simp_all add: zero_alloc_ok a l uninterrupted_def\<close>)
  then show ?thesis by blast
qed

text \<open>
  C38: The fixed buffers of the client are too small for what its own checks admit.  Arguments that pass the checks but make a
  message of more than 1024 bytes are written beyond \<^verbatim>\<open>buffer\<close>, and so is the terminator behind an answer of 1024 bytes or more.
\<close>

theorem client_buffer_overflow:
  assumes "check_args (prog # proc_name # sub # args) = None" and "connected env proc_name"
    and "1024 < length (message sub args) \<or>
      length (message sub args) \<le> sum_list (map wrote (ce_writes env)) \<and> 1024 \<le> length (arriving (ce_arrives env))"
  shows "client_main env (prog # proc_name # sub # args) = None"
proof (cases "1024 < length (message sub args)")
  case True
  have "length args < 2 ^ 32" using assms(1) by (simp add: check_args_ok COMMAND_MAX_ARGC_def)
  from msg_encode_too_long [OF this, of "ce_buffer env" sub] True assms(2)
  have "msg_encode (ce_buffer env) sub (of_nat (length args)) args = None" by (simp add: connected_def)
  then show ?thesis using assms(1,2) by (auto simp: client_main_def connected_def)
next
  case False
  define b where "b = message sub args @ drop (length (message sub args)) (ce_buffer env)"
  have "length b = 1024" using assms(2) False by (simp add: b_def connected_def)
  then have "client_recv (ce_arrives env) b 0 [] = None" using client_recv_overflow [of 0 b] assms(3) False by simp
  then show ?thesis using client_main_encodes [OF assms(1,2)] assms(3) False by (simp add: b_def)
qed

lemma length_frames_replicate: "length (frames (replicate n s)) = n * (length s + 5)"
  by (induction n) simp_all

theorem client_buffer_overflow_witness:
  "client_main client_example ([99] # ascii ''a'' # [110] # replicate 32 (replicate 31 97)) = None"
proof (rule client_buffer_overflow)
  show "check_args ([99] # ascii ''a'' # [110] # replicate 32 (replicate 31 97)) = None"
    by (simp add: check_args_ok COMMAND_MAX_LEN_def COMMAND_MAX_ARGC_def ascii_def)
  show "connected client_example (ascii ''a'')"
    using find_example by (simp add: connected_def) (simp add: client_example_def uninterrupted_def)
  show "1024 < length (message [110] (replicate 32 (replicate 31 97))) \<or>
      length (message [110] (replicate 32 (replicate 31 97))) \<le> sum_list (map wrote (ce_writes client_example)) \<and>
      1024 \<le> length (arriving (ce_arrives client_example))"
    by (simp add: message_def message_body_def length_frames_replicate)
qed

end
