(* ===== verification/Num_Convert.thy ===== *)
theory Num_Convert
  imports C_Int C_String Complex_Main
begin

text \<open>
  The number conversions of \<^verbatim>\<open>src/num_convert.c\<close>.  \<^verbatim>\<open>str_to_int\<close> is modelled completely.  In \<^verbatim>\<open>double_to_str\<close> a
  finite \<^verbatim>\<open>double\<close> is a real number and \<open>rnd\<close>, an argument, rounds the exact result of an operation to a \<^verbatim>\<open>double\<close>.
\<close>

section \<open>\<^verbatim>\<open>str_to_int\<close>\<close>

text \<open>The check of one character; \<^verbatim>\<open>char\<close> is signed.\<close>

definition digit_char :: "byte \<Rightarrow> bool" where
  "digit_char c \<longleftrightarrow> \<not> (sint c < 48 \<or> 57 < sint c)"

text \<open>The conversion of a \<^verbatim>\<open>long\<close> to \<^verbatim>\<open>int\<close> keeps the low 32 bits.\<close>

definition long_to_int :: "int \<Rightarrow> int" where
  "long_to_int v = sint (word_of_int v :: 32 word)"

text \<open>The second loop: the digits of the result, from the last one, against the text.\<close>

fun check_back :: "byte list \<Rightarrow> int \<Rightarrow> nat \<Rightarrow> bool" where
  "check_back buf checkVal 0 = True"
| "check_back buf checkVal (Suc i) =
     (if 48 + checkVal smod 10 \<noteq> sint (buf ! i) then False else check_back buf (checkVal sdiv 10) i)"

definition str_to_int :: "byte list \<Rightarrow> int \<Rightarrow> int" where
  "str_to_int buf len =
     (if int (length buf) \<noteq> len mod 2 ^ 64 then INT_MIN
      else if \<exists>i < length buf. \<not> digit_char (buf ! i) then INT_MIN
      else let res = long_to_int (fst (strtol buf)) in
        if check_back buf res (length buf) then res else INT_MIN)"

lemma sint_digit: "is_digit c \<Longrightarrow> sint c = 48 + int (unat c - 48)"
proof -
  assume d: "is_digit c"
  then have u: "48 \<le> unat c" "unat c \<le> 57" unfolding is_digit_def word_le_nat_alt by auto
  have "0 \<le> uint c" "uint c \<le> 57" using d unfolding is_digit_def word_le_def by simp_all
  then have "- 128 \<le> uint c" "uint c < 128" by linarith+
  then have "signed_take_bit 7 (uint c) = uint c" by (simp add: signed_take_bit_int_eq_self)
  then have "sint c = int (unat c)" by (simp add: sint_uint)
  with u show ?thesis by simp
qed

lemma digit_char_is_digit: "digit_char c \<longleftrightarrow> is_digit c"
proof -
  have "is_digit c \<longleftrightarrow> 48 \<le> sint c \<and> sint c \<le> 57"
  proof
    assume "48 \<le> sint c \<and> sint c \<le> 57"
    then have "sint c = uint c" by (simp add: uint_sint take_bit_int_eq_self)
    with \<open>48 \<le> sint c \<and> sint c \<le> 57\<close> show "is_digit c" by (simp add: is_digit_def word_le_def)
  qed (use sint_digit [of c] digit_less [of c] in auto)
  then show ?thesis by (auto simp: digit_char_def)
qed

lemma digits_split: "r < 10 \<Longrightarrow> d < 10 \<Longrightarrow> x * 10 + r = y * 10 + d \<longleftrightarrow> r = d \<and> x = y" for x y r d :: nat
proof -
  assume *: "r < 10" "d < 10"
  then have "(x * 10 + r) mod 10 = r" "(x * 10 + r) div 10 = x" "(y * 10 + d) mod 10 = d" "(y * 10 + d) div 10 = y" by simp_all
  then show ?thesis by metis
qed

lemma check_back_value:
  assumes "\<forall>c \<in> set buf. is_digit c"
  shows "n \<le> length buf \<Longrightarrow> check_back buf (int v) n \<longleftrightarrow> v mod 10 ^ n = digits_value 0 (take n buf)"
proof (induction n arbitrary: v)
  case (Suc i)
  then have i: "i < length buf" by simp
  define d where "d = unat (buf ! i) - 48"
  have d: "d < 10" "sint (buf ! i) = 48 + int d" using assms i sint_digit digit_less by (auto simp: d_def)
  have s: "int v smod 10 = int (v mod 10)" "int v sdiv 10 = int (v div 10)"
    using smod_nat [of 10 v] sdiv_nat [of 10 v] by simp_all
  have t: "digits_value 0 (take (Suc i) buf) = digits_value 0 (take i buf) * 10 + d"
    using i by (simp add: take_Suc_conv_app_nth digits_value_snoc d_def)
  have m: "v mod 10 ^ Suc i = (v div 10) mod 10 ^ i * 10 + v mod 10"
    by (simp add: mod_mult2_eq)
  have "x * 10 + v mod 10 = y * 10 + d \<longleftrightarrow> v mod 10 = d \<and> x = y" for x y using digits_split [OF _ d(1), of "v mod 10" x y] by simp
  with Suc.IH [of "v div 10"] i show ?case unfolding t m check_back.simps(2) s d(2) by auto
qed simp

lemma long_to_int_small: "0 \<le> v \<Longrightarrow> v \<le> INT_MAX \<Longrightarrow> long_to_int v = v"
  by (simp add: long_to_int_def INT_MAX_def signed_of_int signed_take_bit_int_eq_self)

lemma long_to_int_range: "long_to_int v \<le> INT_MAX"
  using sint_less [of "word_of_int v :: 32 word"] by (simp add: long_to_int_def INT_MAX_def)

lemma check_back_negative:
  assumes "\<forall>c \<in> set buf. is_digit c"
  shows "n \<le> length buf \<Longrightarrow> check_back buf (- int k) n \<Longrightarrow> digits_value 0 (take n buf) = 0"
proof (induction n arbitrary: k)
  case (Suc i)
  then have i: "i < length buf" by simp
  define d where "d = unat (buf ! i) - 48"
  have d: "sint (buf ! i) = 48 + int d" using assms i sint_digit by (auto simp: d_def)
  have s: "- int k smod 10 = - int (k mod 10)" "- int k sdiv 10 = - int (k div 10)"
    using smod_nat [of 10 k] sdiv_nat [of 10 k] by simp_all
  from Suc.prems(2) have "d = 0" "check_back buf (- int (k div 10)) i" unfolding check_back.simps(2) s d by (auto split: if_splits)
  with Suc.IH i show ?case by (simp add: take_Suc_conv_app_nth digits_value_snoc d_def)
qed simp

text \<open>The result passes the second loop exactly if it is the number written.\<close>

lemma check_back_result:
  assumes "\<forall>c \<in> set buf. is_digit c"
  shows "check_back buf (long_to_int (min LONG_MAX (int (digits_value 0 buf)))) (length buf) \<longleftrightarrow> int (digits_value 0 buf) \<le> INT_MAX"
proof -
  define v where "v = digits_value 0 buf"
  define r where "r = long_to_int (min LONG_MAX (int v))"
  show ?thesis
  proof (cases "int v \<le> INT_MAX")
    case True
    then have "r = int v" by (simp add: r_def long_to_int_small LONG_MAX_def INT_MAX_def)
    then show ?thesis using True check_back_value [OF assms, of "length buf" v] digits_value_less [OF assms]
      by (simp add: r_def [symmetric] v_def [symmetric])
  next
    case False
    have "\<not> check_back buf r (length buf)"
    proof (cases "r < 0")
      case True
      then have "r = - int (nat (- r))" by simp
      then obtain k where "r = - int k" by blast
      then show ?thesis using check_back_negative [OF assms, of "length buf" k] False by (auto simp: v_def INT_MAX_def)
    next
      case pos: False
      then obtain k where k: "r = int k" by (metis nonneg_int_cases not_less)
      then have "k < v" using long_to_int_range [of "min LONG_MAX (int v)"] False by (simp add: r_def [symmetric])
      then have "k mod 10 ^ length buf < v" using mod_less_eq_dividend [of k "10 ^ length buf"] by linarith
      then show ?thesis using check_back_value [OF assms, of "length buf" k] k by (simp add: v_def)
    qed
    with False show ?thesis by (simp add: r_def v_def)
  qed
qed

section \<open>The digits of \<^verbatim>\<open>double_to_str\<close>\<close>

text \<open>
  The loop writes the digits from the
  last one on, with the point in between, into \<^verbatim>\<open>output\<close>.
\<close>

function digits_loop :: "byte list \<Rightarrow> int \<Rightarrow> int \<Rightarrow> nat \<Rightarrow> (nat \<times> byte list) option" where
  "digits_loop outb preserve tmp_val i =
     (if 0 < tmp_val then
        do { (i, outb) \<leftarrow> (if int i = preserve then do { outb \<leftarrow> put_index outb (int i) 46; Some (i + 1, outb) }
                             else Some (i, outb));
             outb \<leftarrow> put_index outb (int i) (word_of_int (tmp_val smod 10 + 48));
             digits_loop outb preserve (tmp_val sdiv 10) (i + 1) }
      else Some (i, outb))"
  by pat_completeness auto
termination
proof (relation "measure (\<lambda>(outb, preserve, tmp_val, i). nat tmp_val)", goal_cases)
  case (2 outb preserve tmp_val i)
  then obtain n where n: "tmp_val = int n" "0 < n" by (metis zero_less_imp_eq_int)
  then show ?case using sdiv_nat [of 10 n] by simp
qed simp

declare digits_loop.simps [simp del]

text \<open>The loop that reverses the string in place; \<open>k\<close> iterations have been made.\<close>

primrec swap_loop :: "byte list \<Rightarrow> nat \<Rightarrow> nat \<Rightarrow> byte list" where
  "swap_loop outb len 0 = outb"
| "swap_loop outb len (Suc i) =
     (let outb = swap_loop outb len i; ch = outb ! i in outb[i := outb ! (len - 1 - i), len - 1 - i := ch])"

definition reverse_string :: "byte list \<Rightarrow> byte list option" where
  "reverse_string outb =
     (let len = length (takeWhile (\<lambda>c. c \<noteq> 0) outb) in
      if len < length outb then Some (swap_loop outb len (len div 2)) else None)"

text \<open>\<^verbatim>\<open>preserve_val\<close>, a \<^verbatim>\<open>long\<close>: more than 18 multiplications overflow.  Without a positive \<^verbatim>\<open>preserve\<close> there are none.\<close>

definition preserve_val :: "int \<Rightarrow> int option" where
  "preserve_val preserve = (if preserve \<le> 18 then Some (10 ^ nat preserve) else None)"

text \<open>The conversion to \<^verbatim>\<open>long\<close> truncates; a number that does not fit is undefined.\<close>

definition double_to_long :: "real \<Rightarrow> int option" where
  "double_to_long x = (let k = (if x < 0 then \<lceil>x\<rceil> else \<lfloor>x\<rfloor>) in if - (2 ^ 63) \<le> k \<and> k < 2 ^ 63 then Some k else None)"

definition scaled_value :: "(real \<Rightarrow> real) \<Rightarrow> real \<Rightarrow> int \<Rightarrow> int option" where
  "scaled_value rnd val pv =
     do { long_val \<leftarrow> double_to_long (rnd (val * rnd (of_int pv)));
          if rnd (rnd (val * rnd (of_int pv)) - rnd (of_int long_val)) > 1 / 2
          then (if long_val + 1 < 2 ^ 63 then Some (long_val + 1) else None)
          else Some long_val }"

text \<open>What is done with the scaled number.\<close>

definition write_decimal :: "int \<Rightarrow> int \<Rightarrow> int \<Rightarrow> byte list \<Rightarrow> byte list option" where
  "write_decimal long_val pv preserve outb =
     do { (i, outb) \<leftarrow> digits_loop outb preserve long_val 0;
          outb \<leftarrow> (if long_val < pv then
                       do { outb \<leftarrow> put_index outb (int i) 46; put_index outb (int i + 1) 48 }
                     else Some outb);
          reverse_string outb }"

text \<open>The lines printed and the new content of \<^verbatim>\<open>output\<close>.  \<^verbatim>\<open>outputSize\<close> is not used, and nothing is returned.\<close>

definition double_to_str :: "(real \<Rightarrow> real) \<Rightarrow> real \<Rightarrow> int \<Rightarrow> byte list \<Rightarrow> int \<Rightarrow> (byte list list \<times> byte list) option" where
  "double_to_str rnd val preserve outb outputSize =
     do { pv \<leftarrow> preserve_val preserve;
          long_val \<leftarrow> scaled_value rnd val pv;
          outb \<leftarrow> write_decimal long_val pv preserve outb;
          Some (if preserve > 7 \<or> preserve \<le> 0 then [ascii ''preserve is err num'' @ [10]] else [], outb) }"

lemma length_swap_loop [simp]: "length (swap_loop outb len k) = length outb"
  by (induction k) (simp_all add: Let_def)

lemma swap_loop_nth:
  assumes "len \<le> length outb"
  shows "k \<le> len div 2 \<Longrightarrow> j < length outb \<Longrightarrow>
    swap_loop outb len k ! j = (if j < k \<or> len - k \<le> j \<and> j < len then outb ! (len - 1 - j) else outb ! j)"
proof (induction k arbitrary: j)
  case (Suc k)
  then have k: "k < len - 1 - k" "len - 1 - k < length outb" using assms by auto
  show ?case using Suc k assms by (auto simp: Let_def nth_list_update)
qed auto

lemma swap_loop_rev: "swap_loop (s @ z) (length s) (length s div 2) = rev s @ z"
proof (rule nth_equalityI)
  fix j assume j: "j < length (swap_loop (s @ z) (length s) (length s div 2))"
  have h: "j < length s div 2 \<or> length s - length s div 2 \<le> j \<or> j = length s - 1 - j" if "j < length s" using that by linarith
  show "swap_loop (s @ z) (length s) (length s div 2) ! j = (rev s @ z) ! j"
    using j h by (auto simp: swap_loop_nth nth_append rev_nth)
qed simp

definition digit :: "nat \<Rightarrow> byte" where
  "digit d = of_nat (48 + d)"

fun low_digits :: "nat \<Rightarrow> nat \<Rightarrow> byte list" where
  "low_digits 0 v = []"
| "low_digits (Suc j) v = digit (v mod 10) # low_digits j (v div 10)"

lemma length_low_digits [simp]: "length (low_digits j v) = j"
  by (induction j arbitrary: v) auto

lemma low_digits_nonzero: "0 \<notin> set (low_digits j v)"
  using digit_nonzero by (induction j arbitrary: v) (auto simp: digit_def simp del: of_nat_add)

lemma dec_nat_rec: "dec_nat n = (if n < 10 then [] else dec_nat (n div 10)) @ [digit (n mod 10)]"
  by (subst dec_nat.simps) (simp add: digit_def)

lemma put_at_end: "0 < k \<Longrightarrow> put_index (xs @ replicate k 0) (int (length xs)) c = Some ((xs @ [c]) @ replicate (k - 1) 0)"
  by (cases k) (simp_all add: list_update_append)

lemma digits_loop_step:
  assumes "0 < v" and "0 < k" and "length xs \<noteq> preserve"
  shows "digits_loop (xs @ replicate k 0) (int preserve) (int v) (length xs) =
    digits_loop ((xs @ [digit (v mod 10)]) @ replicate (k - 1) 0) preserve (int (v div 10)) (length (xs @ [digit (v mod 10)]))"
proof -
  have "int v smod 10 = int (v mod 10)" "int v sdiv 10 = int (v div 10)" using smod_nat [of 10 v] sdiv_nat [of 10 v] by simp_all
  moreover have "(word_of_int (int (v mod 10) + 48) :: byte) = digit (v mod 10)" by (simp add: digit_def)
  ultimately show ?thesis using assms put_at_end [of k xs] by (subst digits_loop.simps) (simp del: of_int_add)
qed

lemma digits_loop_after:
  "0 < v \<Longrightarrow> length (dec_nat v) \<le> k \<Longrightarrow> preserve < length xs \<or> length xs + length (dec_nat v) \<le> preserve \<Longrightarrow>
   digits_loop (xs @ replicate k 0) (int preserve) (int v) (length xs) =
   Some (length xs + length (dec_nat v), xs @ rev (dec_nat v) @ replicate (k - length (dec_nat v)) 0)"
proof (induction v arbitrary: xs k rule: dec_nat.induct)
  case (1 v)
  have k: "0 < k" and x: "length xs \<noteq> preserve" using 1(3,4) by (auto simp: dec_nat_rec [of v])
  show ?case
  proof (cases "v < 10")
    case True
    then show ?thesis using digits_loop_step [OF 1(2) k x] dec_nat_rec [of v] by (simp add: digits_loop.simps)
  next
    case False
    then have r: "dec_nat v = dec_nat (v div 10) @ [digit (v mod 10)]" by (subst dec_nat_rec) simp
    have "digits_loop ((xs @ [digit (v mod 10)]) @ replicate (k - 1) 0) preserve (int (v div 10)) (length (xs @ [digit (v mod 10)])) =
      Some (length (xs @ [digit (v mod 10)]) + length (dec_nat (v div 10)),
        (xs @ [digit (v mod 10)]) @ rev (dec_nat (v div 10)) @ replicate (k - 1 - length (dec_nat (v div 10))) 0)"
      using 1(3,4) False r by (intro 1(1)) auto
    then show ?thesis unfolding digits_loop_step [OF 1(2) k x] r by simp
  qed
qed

lemma digits_loop_point:
  assumes "0 < v" and "0 < k"
  shows "digits_loop (xs @ replicate k 0) (length xs) (int v) (length xs) =
    digits_loop ((xs @ [46]) @ replicate (k - 1) 0) (length xs) (int v) (length (xs @ [46]))"
  using assms put_at_end [of k xs] by (subst (1 2) digits_loop.simps) simp

lemma digits_loop_before:
  "length xs + j = preserve \<Longrightarrow> 10 ^ j \<le> v \<Longrightarrow> j + 1 + length (dec_nat (v div 10 ^ j)) \<le> k \<Longrightarrow>
   digits_loop (xs @ replicate k 0) (int preserve) (int v) (length xs) =
   Some (length xs + j + 1 + length (dec_nat (v div 10 ^ j)),
     xs @ low_digits j v @ [46] @ rev (dec_nat (v div 10 ^ j)) @ replicate (k - (j + 1 + length (dec_nat (v div 10 ^ j)))) 0)"
proof (induction j arbitrary: v xs k)
  case 0
  then have "0 < v" "0 < k" "length xs = preserve" by auto
  with 0 digits_loop_point [of v k xs] digits_loop_after [of v "k - 1" preserve "xs @ [46]"] show ?case by simp
next
  case (Suc j)
  have p: "0 < v" using Suc.prems(2) by (cases v) auto
  have q: "10 ^ j \<le> v div 10" using Suc.prems(2) by (simp add: less_eq_div_iff_mult_less_eq mult.commute)
  have d: "v div 10 ^ Suc j = v div 10 div 10 ^ j" by (simp add: div_mult2_eq)
  show ?case using Suc.prems Suc.IH [of "xs @ [digit (v mod 10)]" "v div 10" "k - 1"] q unfolding d
    by (subst digits_loop_step [OF p]) simp_all
qed

lemma reverse_string_zeros: "0 \<notin> set s \<Longrightarrow> 0 < k \<Longrightarrow> reverse_string (s @ replicate k 0) = Some (rev s @ replicate k 0)"
proof -
  assume s: "0 \<notin> set s" and "0 < k"
  then obtain m where k: "k = Suc m" by (cases k) auto
  have "takeWhile (\<lambda>c. c \<noteq> 0) (s @ 0 # replicate m 0) = s" using s by (induction s) auto
  then show ?thesis by (simp add: reverse_string_def Let_def swap_loop_rev k)
qed

lemma length_dec_nat_div: "length (dec_nat (v div 10 ^ j)) \<le> length (dec_nat v)"
proof (induction j arbitrary: v)
  case (Suc j)
  have "length (dec_nat (v div 10)) \<le> length (dec_nat v)"
    by (cases "v < 10") (simp_all add: dec_nat_rec [of v] dec_nat_rec [of 0])
  with Suc [of "v div 10"] show ?case by (simp add: div_mult2_eq)
qed simp

section \<open>Properties\<close>

text \<open>
  C18: \<^verbatim>\<open>str_to_int\<close> accepts exactly the decimal numbers.  It returns the value of the text if the length given is the length of
  the text, every character is a digit and the value fits an \<^verbatim>\<open>int\<close>, and \<^verbatim>\<open>INT_MIN\<close> otherwise: the comparison of the digits after
  the conversion catches every overflow, also where \<^verbatim>\<open>strtol\<close> saturates or the cut to 32 bits gives a negative number.
\<close>

theorem str_to_int_spec:
  "str_to_int buf len =
     (if int (length buf) = len mod 2 ^ 64 \<and> (\<forall>c \<in> set buf. is_digit c) \<and> int (digits_value 0 buf) \<le> INT_MAX
      then int (digits_value 0 buf) else INT_MIN)"
proof (cases "\<forall>c \<in> set buf. is_digit c")
  case True
  then have ne: "(\<exists>i < length buf. \<not> digit_char (buf ! i)) = False" by (auto simp: digit_char_is_digit)
  have "long_to_int (min LONG_MAX (int (digits_value 0 buf))) = int (digits_value 0 buf)"
    if "int (digits_value 0 buf) \<le> INT_MAX"
    using that by (simp add: long_to_int_small LONG_MAX_def INT_MAX_def)
  then show ?thesis using True check_back_result [OF True]
    unfolding str_to_int_def strtol_digits [OF True] Let_def fst_conv ne by auto
next
  case False
  then have "\<exists>i < length buf. \<not> digit_char (buf ! i)" by (auto simp: digit_char_is_digit in_set_conv_nth)
  with False show ?thesis by (auto simp: str_to_int_def)
qed

theorem str_to_int_witness: "str_to_int [52, 50] 2 = 42"
  using str_to_int_spec [of "[52, 50]" 2] by (simp add: is_digit_def INT_MAX_def)

text \<open>
  Printing and reading back: the decimal text of a number that fits an \<^verbatim>\<open>int\<close> is converted back to it.
\<close>

lemma str_to_int_roundtrip:
  assumes "int n \<le> INT_MAX"
  shows "str_to_int (dec_nat n) (int (length (dec_nat n))) = int n"
proof -
  have "length (dec_nat n) < 2 ^ 64" using length_dec_nat [of n] assms by (simp add: INT_MAX_def)
  then have "int (length (dec_nat n)) = int (length (dec_nat n)) mod 2 ^ 64" by simp
  then show ?thesis using str_to_int_spec [of "dec_nat n" "int (length (dec_nat n))"] assms
    by (simp add: dec_nat_digits digits_value_dec_nat)
qed

text \<open>
  What \<^verbatim>\<open>double_to_str\<close> makes of the scaled number.  Into a zeroed buffer that is long enough it writes a number of at
  least 1 correctly, the integer part, a point and \<^verbatim>\<open>preserve\<close> decimals.  Below 1 it writes \<open>0.\<close> followed by the scaled number
  without the zeros in front of it, so 0.05 with two decimals becomes the text of 0.5.
\<close>

lemma write_decimal_spec:
  assumes "0 < preserve" and "0 < v" and "preserve + 2 + length (dec_nat v) < n"
  shows "\<exists>k. write_decimal (int v) (10 ^ preserve) (int preserve) (replicate n 0) =
    Some ((if 10 ^ preserve \<le> v then dec_nat (v div 10 ^ preserve) @ ascii ''.'' @ rev (low_digits preserve v)
           else ascii ''0.'' @ dec_nat v) @ replicate k 0)"
proof (cases "10 ^ preserve \<le> v")
  case True
  define d where "d = dec_nat (v div 10 ^ preserve)"
  have l: "preserve + 1 + length d < n" using length_dec_nat_div [of v preserve] assms(3) by (simp add: d_def)
  define s where "s = low_digits preserve v @ [46] @ rev d"
  define k where "k = n - (preserve + 1 + length d)"
  have "digits_loop (replicate n 0) (int preserve) (int v) 0 = Some (preserve + 1 + length d, s @ replicate k 0)"
    using digits_loop_before [of "[]" preserve preserve v n] True l by (simp add: d_def s_def k_def)
  moreover have "0 \<notin> set s" using low_digits_nonzero dec_nat_nonzero by (simp add: s_def d_def)
  then have "reverse_string (s @ replicate k 0) = Some (rev s @ replicate k 0)" using l by (intro reverse_string_zeros) (simp_all add: k_def)
  moreover have "\<not> int v < 10 ^ preserve" using True by (simp add: not_less flip: of_nat_power_le_of_nat_cancel_iff)
  ultimately have "write_decimal (int v) (10 ^ preserve) (int preserve) (replicate n 0) = Some (rev s @ replicate k 0)" by (simp add: write_decimal_def)
  then show ?thesis using True by (auto simp: s_def d_def ascii_def)
next
  case False
  then have l: "length (dec_nat v) \<le> preserve" using assms(1) by (intro length_dec_nat_power) auto
  define s where "s = rev (dec_nat v)"
  define k where "k = n - length s"
  have k: "2 < k" using assms(3) by (simp add: k_def s_def)
  have "digits_loop (replicate n 0) (int preserve) (int v) 0 = Some (length s, s @ replicate k 0)"
    using digits_loop_after [OF assms(2), of n preserve "[]"] l assms(3) by (simp add: s_def k_def)
  moreover have "put_index (s @ replicate k 0) (int (length s)) 46 = Some ((s @ [46]) @ replicate (k - 1) 0)"
    using k put_at_end [of k s] by simp
  moreover have "put_index ((s @ [46]) @ replicate (k - 1) 0) (int (length s) + 1) 48 = Some ((s @ [46, 48]) @ replicate (k - 2) 0)"
    using k put_at_end [of "k - 1" "s @ [46]"] by (simp add: add.commute numeral_2_eq_2)
  moreover have "0 \<notin> set (s @ [46, 48])" using dec_nat_nonzero by (simp add: s_def)
  then have "reverse_string ((s @ [46, 48]) @ replicate (k - 2) 0) = Some (rev (s @ [46, 48]) @ replicate (k - 2) 0)"
    using k by (intro reverse_string_zeros) simp_all
  moreover have "int v < 10 ^ preserve" using False by (simp add: of_nat_less_numeral_power_cancel_iff)
  ultimately have "write_decimal (int v) (10 ^ preserve) (int preserve) (replicate n 0) = Some (rev (s @ [46, 48]) @ replicate (k - 2) 0)"
    by (simp add: write_decimal_def)
  then show ?thesis using False by (auto simp: s_def ascii_def)
qed

text \<open>
  The scaled number is the integer nearest to the rounded product, the lower one of two.  The arithmetic has to be exact, as it is for
  \<^verbatim>\<open>double\<close>, on integers up to \<open>2 ^ 53\<close> and on the fraction of a \<^verbatim>\<open>double\<close>.
\<close>

lemma scaled_value_nearest:
  assumes ints: "\<And>k. \<bar>k\<bar> \<le> 2 ^ 53 \<Longrightarrow> rnd (of_int k) = of_int k"
    and fractions: "\<And>x. rnd x = x \<Longrightarrow> 0 \<le> x \<Longrightarrow> x < 2 ^ 53 \<Longrightarrow> rnd (frac x) = frac x"
    and idem: "\<And>x. rnd (rnd x) = rnd x"
    and val: "x = rnd (val * of_int pv)" "0 \<le> x" "x < 2 ^ 53" and pv: "0 < pv" "pv \<le> 2 ^ 53"
  shows "scaled_value rnd val pv = Some \<lceil>x - 1 / 2\<rceil>"
proof -
  have pv': "rnd (of_int pv) = of_int pv" using ints pv by simp
  have fl: "0 \<le> \<lfloor>x\<rfloor>" "\<lfloor>x\<rfloor> < 2 ^ 53" using val(2,3) by (simp_all add: floor_less_iff)
  then have fl': "rnd (of_int \<lfloor>x\<rfloor>) = of_int \<lfloor>x\<rfloor>" using ints [of "\<lfloor>x\<rfloor>"] by simp
  have fr: "rnd (x - of_int \<lfloor>x\<rfloor>) = frac x" using fractions [of x] idem val by (simp add: frac_def)
  have "double_to_long x = Some \<lfloor>x\<rfloor>" using val(2) fl by (simp add: double_to_long_def Let_def)
  then have "scaled_value rnd val pv = (if frac x > 1 / 2 then Some (\<lfloor>x\<rfloor> + 1) else Some \<lfloor>x\<rfloor>)"
    using fl fl' fr val(1) pv' by (simp add: scaled_value_def)
  moreover have "\<lceil>x - 1 / 2\<rceil> = (if frac x > 1 / 2 then \<lfloor>x\<rfloor> + 1 else \<lfloor>x\<rfloor>)"
  proof -
    have "real_of_int \<lfloor>x\<rfloor> \<le> x" "x < real_of_int \<lfloor>x\<rfloor> + 1" by linarith+
    then have "\<lceil>x - 1 / 2\<rceil> = \<lfloor>x\<rfloor> + (if frac x > 1 / 2 then 1 else 0)" by (intro ceiling_unique) (auto simp: frac_def field_simps, linarith+)
    then show ?thesis by simp
  qed
  ultimately show ?thesis by simp
qed

text \<open>Altogether, for a positive result.\<close>

lemma double_to_str_spec:
  assumes "\<And>k. \<bar>k\<bar> \<le> 2 ^ 53 \<Longrightarrow> rnd (of_int k) = of_int k"
    and "\<And>x. rnd x = x \<Longrightarrow> 0 \<le> x \<Longrightarrow> x < 2 ^ 53 \<Longrightarrow> rnd (frac x) = frac x" and "\<And>x. rnd (rnd x) = rnd x"
    and x: "x = rnd (val * 10 ^ preserve)" "1 / 2 < x" "x < 2 ^ 53" and preserve: "0 < preserve" "preserve \<le> 7"
    and v: "v = nat \<lceil>x - 1 / 2\<rceil>" and n: "preserve + 2 + length (dec_nat v) < n"
  shows "\<exists>k. double_to_str rnd val (int preserve) (replicate n 0) outputSize =
    Some ([], (if 10 ^ preserve \<le> v then dec_nat (v div 10 ^ preserve) @ ascii ''.'' @ rev (low_digits preserve v)
           else ascii ''0.'' @ dec_nat v) @ replicate k 0)"
proof -
  have "(10 :: int) ^ preserve \<le> 10 ^ 7" using preserve(2) by (intro power_increasing) simp_all
  then have "scaled_value rnd val (10 ^ preserve) = Some \<lceil>x - 1 / 2\<rceil>" using x by (intro scaled_value_nearest assms(1-3)) simp_all
  moreover have "0 < \<lceil>x - 1 / 2\<rceil>" using x(2) by (simp add: zero_less_ceiling)
  then have "\<lceil>x - 1 / 2\<rceil> = int v" "0 < v" using v by simp_all
  ultimately show ?thesis using write_decimal_spec [OF preserve(1) _ n] preserve
    by (auto simp: double_to_str_def preserve_val_def)
qed

end
