(* ===== verification/Blog_Format.thy ===== *)
theory Blog_Format
  imports Cli_Msg
begin

text \<open>
  What the writer and the parser of the binary log share: the typed arguments of \<^verbatim>\<open>src/binlog/binlog_internal.h\<close>, their encoding, and the
  scan over the parts of a conversion specification, which both \<^verbatim>\<open>do_valog\<close> and \<^verbatim>\<open>print_format\<close> make.

  A format string is the list of the bytes before its terminator: reading at the end gives the terminator, moving past the
  terminator leaves the string and is \<open>None\<close>.  A double is represented by its 64 bits.
\<close>

section \<open>Arguments\<close>

datatype btype = BT_INT | BT_LONG | BT_DOUBLE | BT_STRING | BT_POINTER

datatype blog_arg = Arg_Int "32 word" | Arg_Long "64 word" | Arg_Double "64 word" | Arg_String "byte list" | Arg_Pointer "64 word"

fun type_of :: "blog_arg \<Rightarrow> btype" where
  "type_of (Arg_Int v) = BT_INT"
| "type_of (Arg_Long v) = BT_LONG"
| "type_of (Arg_Double v) = BT_DOUBLE"
| "type_of (Arg_String v) = BT_STRING"
| "type_of (Arg_Pointer v) = BT_POINTER"

definition BLOG_INT :: byte where "BLOG_INT = 0"

definition BLOG_LONG :: byte where "BLOG_LONG = 1"

definition BLOG_DOUBLE :: byte where "BLOG_DOUBLE = 2"

definition BLOG_STRING :: byte where "BLOG_STRING = 3"

definition BLOG_POINTER :: byte where "BLOG_POINTER = 4"

definition BLOG_BEGIN :: byte where "BLOG_BEGIN = 0xfd"

definition BLOG_END :: byte where "BLOG_END = 0xff"

lemmas blog_tags = BLOG_INT_def BLOG_LONG_def BLOG_DOUBLE_def BLOG_STRING_def BLOG_POINTER_def BLOG_BEGIN_def BLOG_END_def

text \<open>The encoding of an argument that both sides agree on: a tag and the value.\<close>

fun arg_bytes :: "blog_arg \<Rightarrow> byte list" where
  "arg_bytes (Arg_Int v) = BLOG_INT # u32_bytes v"
| "arg_bytes (Arg_Long v) = BLOG_LONG # u64_bytes v"
| "arg_bytes (Arg_Double v) = BLOG_DOUBLE # u64_bytes v"
| "arg_bytes (Arg_String s) = BLOG_STRING # s @ [0]"
| "arg_bytes (Arg_Pointer v) = BLOG_POINTER # u64_bytes v"

abbreviation args_bytes :: "blog_arg list \<Rightarrow> byte list" where
  "args_bytes args \<equiv> concat (map arg_bytes args)"

text \<open>A string argument holds no zero byte.\<close>

fun plain_string :: "blog_arg \<Rightarrow> bool" where
  "plain_string (Arg_String s) \<longleftrightarrow> 0 \<notin> set s"
| "plain_string _ \<longleftrightarrow> True"

section \<open>The parts of a conversion specification\<close>

text \<open>
  \<^verbatim>\<open>strchr\<close> also finds the terminator, so the loop over the flags runs out of a string that ends there, and the loop over the
  length modifiers reaches \<^verbatim>\<open>abort\<close>.
\<close>

definition flag_char :: "byte \<Rightarrow> bool" where
  "flag_char c \<longleftrightarrow> c = 45 \<or> c = 43 \<or> c = 32 \<or> c = 35 \<or> c = 48"

definition mod_char :: "byte \<Rightarrow> bool" where
  "mod_char c \<longleftrightarrow> c = 104 \<or> c = 108 \<or> c = 76"

lemma char_classes: "flag_char c \<longleftrightarrow> c \<in> set (ascii ''-+ #0'')" "mod_char c \<longleftrightarrow> c \<in> set (ascii ''hlL'')"
  by (auto simp: flag_char_def mod_char_def ascii_def)

definition scan_flags :: "byte list \<Rightarrow> (byte list \<times> byte list) option" where
  "scan_flags s = (let r = dropWhile flag_char s in if r = [] then None else Some (takeWhile flag_char s, r))"

definition scan_digits :: "byte list \<Rightarrow> byte list \<times> byte list" where
  "scan_digits s = (takeWhile is_digit s, dropWhile is_digit s)"

definition scan_mods :: "byte list \<Rightarrow> (byte list \<times> byte list) run" where
  "scan_mods s = (let r = dropWhile mod_char s in if r = [] then Aborted else Done (takeWhile mod_char s, r))"

definition short_width :: "byte list \<Rightarrow> bool" where
  "short_width ms \<longleftrightarrow> 104 \<in> set ms"

definition wide_width :: "byte list \<Rightarrow> nat" where
  "wide_width ms = foldl (\<lambda>w c. if c = 108 then w + 1 else if c = 76 then 2 else w) 0 ms"

text \<open>The switch over the conversion character: the type of the argument.\<close>

definition conv_type :: "byte list \<Rightarrow> byte \<Rightarrow> btype option" where
  "conv_type ms c =
     (if c \<in> set (ascii ''diouxXc'') then Some (if short_width ms then BT_INT else if wide_width ms = 0 then BT_INT else BT_LONG)
      else if c \<in> set (ascii ''feEgG'') then Some BT_DOUBLE
      else if c \<in> set (ascii ''s'') then Some BT_STRING
      else if c \<in> set (ascii ''p'') then Some BT_POINTER
      else None)"

lemma scan_flags_length: "scan_flags s = Some (a, r) \<Longrightarrow> length r \<le> length s"
  by (auto simp: scan_flags_def Let_def length_dropWhile_le split: if_splits)

lemma scan_digits_length: "length (snd (scan_digits s)) \<le> length s"
  by (simp add: scan_digits_def length_dropWhile_le)

lemma scan_mods_length: "scan_mods s = Done (a, r) \<Longrightarrow> length r \<le> length s"
  by (auto simp: scan_mods_def Let_def length_dropWhile_le split: if_splits)

section \<open>Calls of the logging functions\<close>

text \<open>
  A call with a format and its arguments, as a list of literal bytes and conversions that carry their arguments.  The width is a
  number or \<^verbatim>\<open>*\<close> with its argument; a precision is a number.  (A precision \<^verbatim>\<open>.*\<close> and the conversion \<^verbatim>\<open>%%\<close> are treated
  differently by the two programs and are no items.)
\<close>

datatype fwidth = Digits "byte list" | Star "32 word"

datatype fitem = Lit byte | Conv (conv_flags: "byte list") (conv_width: fwidth) (conv_prec: "byte list option") (conv_mods: "byte list") (conv_char: byte) (conv_arg: blog_arg)

fun width_text :: "fwidth \<Rightarrow> byte list" where
  "width_text (Digits ds) = ds"
| "width_text (Star w) = [42]"

fun prec_text :: "byte list option \<Rightarrow> byte list" where
  "prec_text None = []"
| "prec_text (Some ds) = 46 # ds"

fun item_text :: "fitem \<Rightarrow> byte list" where
  "item_text (Lit c) = [c]"
| "item_text (Conv fl w p ms c a) = 37 # fl @ width_text w @ prec_text p @ ms @ [c]"

fun width_args :: "fwidth \<Rightarrow> blog_arg list" where
  "width_args (Digits ds) = []"
| "width_args (Star w) = [Arg_Int w]"

fun item_args :: "fitem \<Rightarrow> blog_arg list" where
  "item_args (Lit c) = []"
| "item_args (Conv fl w p ms c a) = width_args w @ [a]"

abbreviation fmt_of :: "fitem list \<Rightarrow> byte list" where
  "fmt_of items \<equiv> concat (map item_text items)"

abbreviation args_of :: "fitem list \<Rightarrow> blog_arg list" where
  "args_of items \<equiv> concat (map item_args items)"

fun wf_width :: "fwidth \<Rightarrow> bool" where
  "wf_width (Digits ds) \<longleftrightarrow> list_all is_digit ds \<and> hd0 ds \<noteq> 48"
| "wf_width (Star w) \<longleftrightarrow> w < 2 ^ 31"

fun wf_item :: "fitem \<Rightarrow> bool" where
  "wf_item (Lit c) \<longleftrightarrow> c \<noteq> 0 \<and> c \<noteq> 37"
| "wf_item (Conv fl w p ms c a) \<longleftrightarrow>
     list_all flag_char fl \<and> wf_width w \<and> (case p of None \<Rightarrow> True | Some ds \<Rightarrow> list_all is_digit ds) \<and> list_all mod_char ms \<and>
     conv_type ms c = Some (type_of a) \<and> plain_string a"

text \<open>The scans on the text of a conversion.\<close>

lemma conv_type_char:
  assumes "conv_type ms c \<noteq> None"
  shows "\<not> flag_char c" "\<not> mod_char c" "\<not> is_digit c" "c \<noteq> 42" "c \<noteq> 46" "c \<noteq> 37" "c \<noteq> 0"
proof -
  have "c \<in> set (ascii ''diouxXcfeEgGsp'')" using assms by (auto simp: conv_type_def ascii_def split: if_splits)
  then have "c \<in> {100, 105, 111, 117, 120, 88, 99, 102, 101, 69, 103, 71, 115, 112}" by (auto simp: ascii_def)
  then show "\<not> flag_char c" "\<not> mod_char c" "\<not> is_digit c" "c \<noteq> 42" "c \<noteq> 46" "c \<noteq> 37" "c \<noteq> 0"
    by (auto simp: flag_char_def mod_char_def is_digit_def word_le_nat_alt)
qed

lemma digit_classes: "is_digit c \<Longrightarrow> c \<noteq> 48 \<Longrightarrow> \<not> flag_char c" "is_digit c \<Longrightarrow> \<not> mod_char c" "is_digit c \<Longrightarrow> c \<noteq> 42 \<and> c \<noteq> 46"
  by (auto simp: flag_char_def mod_char_def is_digit_def word_le_nat_alt)

lemma mod_classes: "mod_char c \<Longrightarrow> \<not> flag_char c" "mod_char c \<Longrightarrow> \<not> is_digit c" "mod_char c \<Longrightarrow> c \<noteq> 42 \<and> c \<noteq> 46"
  by (auto simp: flag_char_def mod_char_def is_digit_def word_le_nat_alt)

lemma takeWhile_block:
  assumes "list_all P xs" "\<not> P (hd0 ys)" "ys \<noteq> []"
  shows "takeWhile P (xs @ ys) = xs" "dropWhile P (xs @ ys) = ys"
  using assms by (cases ys; induction xs; simp)+

lemma scan_flags_block: "list_all flag_char fl \<Longrightarrow> r \<noteq> [] \<Longrightarrow> \<not> flag_char (hd0 r) \<Longrightarrow> scan_flags (fl @ r) = Some (fl, r)"
  by (simp add: scan_flags_def takeWhile_block)

lemma scan_digits_block: "list_all is_digit ds \<Longrightarrow> r \<noteq> [] \<Longrightarrow> \<not> is_digit (hd0 r) \<Longrightarrow> scan_digits (ds @ r) = (ds, r)"
  by (simp add: scan_digits_def takeWhile_block)

lemma scan_mods_block: "list_all mod_char ms \<Longrightarrow> r \<noteq> [] \<Longrightarrow> \<not> mod_char (hd0 r) \<Longrightarrow> scan_mods (ms @ r) = Done (ms, r)"
  by (simp add: scan_mods_def takeWhile_block)

text \<open>The first byte of the rest of a conversion, after the flags, the width and the precision.\<close>

lemma hd0_append: "hd0 (xs @ ys) = (if xs = [] then hd0 ys else hd0 xs)"
  by (cases xs) auto

lemma mods_first:
  assumes "list_all mod_char ms" "conv_type ms c \<noteq> None"
  shows "mod_char (hd0 (ms @ c # r)) \<or> hd0 (ms @ c # r) = c"
  using assms by (cases ms) auto

lemma mods_rest:
  assumes "list_all mod_char ms" "conv_type ms c \<noteq> None"
  shows "\<not> flag_char (hd0 (ms @ c # r))" "\<not> is_digit (hd0 (ms @ c # r))" "hd0 (ms @ c # r) \<noteq> 42" "hd0 (ms @ c # r) \<noteq> 46"
  using mods_first [OF assms, of r] conv_type_char [OF assms(2)] mod_classes [of "hd0 (ms @ c # r)"] by auto

lemma prec_rest:
  assumes "list_all mod_char ms" "conv_type ms c \<noteq> None"
  shows "\<not> flag_char (hd0 (prec_text p @ ms @ c # r))" "\<not> is_digit (hd0 (prec_text p @ ms @ c # r))" "hd0 (prec_text p @ ms @ c # r) \<noteq> 42"
  using mods_rest [OF assms] by (cases p; simp add: flag_char_def is_digit_def)+

lemma width_rest:
  assumes "list_all mod_char ms" "conv_type ms c \<noteq> None" "wf_width w"
  shows "\<not> flag_char (hd0 (width_text w @ prec_text p @ ms @ c # r))"
proof (cases w)
  case (Digits ds)
  then show ?thesis using assms prec_rest(1) [OF assms(1,2)] digit_classes(1) by (cases ds) auto
qed (simp add: flag_char_def)

end
