(* ===== verification/Binlog_Writer.thy ===== *)
theory Binlog_Writer
  imports Blog_Format Cli_Print
begin

text \<open>
  The writer of the binary log, \<^verbatim>\<open>src/binlog/binlog.c\<close>: the buffer of the thread, which starts on the stack and moves to the
  heap when it grows, the encoding of the arguments, the scan of the format that decides which arguments there are, one record,
  and the log file.

  A \<^verbatim>\<open>va_list\<close> is the list of the arguments with their types; taking an argument of another type than the caller passed is
  undefined (\<open>None\<close>).  \<open>Aborted\<close> is a call of \<^verbatim>\<open>abort\<close>.
\<close>

section \<open>The buffer of the thread\<close>

datatype tbuf = No_Buf | Stack_Buf "byte list" | Heap_Buf "byte list"

text \<open>\<open>tb_blocks\<close> counts the heap blocks of the thread's log that have not been freed.\<close>

record tsd_binlog_t =
  tb_buf :: tbuf
  tb_size :: int
  tb_offset :: int
  tb_blocks :: nat

fun buf_bytes :: "tbuf \<Rightarrow> byte list option" where
  "buf_bytes No_Buf = None"
| "buf_bytes (Stack_Buf bs) = Some bs"
| "buf_bytes (Heap_Buf bs) = Some bs"

fun buf_with :: "tbuf \<Rightarrow> byte list \<Rightarrow> tbuf" where
  "buf_with No_Buf bs = No_Buf"
| "buf_with (Stack_Buf _) bs = Stack_Buf bs"
| "buf_with (Heap_Buf _) bs = Heap_Buf bs"

definition BINLOG_STACK_SIZE :: int where
  "BINLOG_STACK_SIZE = 1024"

text \<open>\<^verbatim>\<open>MAX\<close> expands to a conditional expression, and \<^verbatim>\<open>1 / BINLOG_STACK_SIZE\<close> is 0.\<close>

definition grown_size :: "int \<Rightarrow> int \<Rightarrow> int \<Rightarrow> int option" where
  "grown_size old offset n =
     do { a \<leftarrow> int_result (2 * old);
          b \<leftarrow> int_result (offset + n + BINLOG_STACK_SIZE - 1 sdiv BINLOG_STACK_SIZE);
          Some (if b < a then a else b) }"

definition binlog_maybe_realloc :: "allocator \<Rightarrow> tsd_binlog_t \<Rightarrow> int \<Rightarrow> tsd_binlog_t option" where
  "binlog_maybe_realloc alloc tb n =
     do { need \<leftarrow> int_result (tb_offset tb + n);
          if tb_size tb < need then
            if tb_size tb = BINLOG_STACK_SIZE then do {
              alloc_size \<leftarrow> grown_size BINLOG_STACK_SIZE (tb_offset tb) n;
              new \<leftarrow> alloc (nat alloc_size);
              old \<leftarrow> buf_bytes (tb_buf tb);
              old \<leftarrow> get_bytes old 0 (nat BINLOG_STACK_SIZE);
              new \<leftarrow> put_bytes new 0 old;
              Some (tb\<lparr>tb_buf := Heap_Buf new, tb_size := alloc_size, tb_blocks := tb_blocks tb + 1\<rparr>) }
            else do {
              alloc_size \<leftarrow> grown_size (tb_size tb) (tb_offset tb) n;
              (case tb_buf tb of
                 Heap_Buf bs \<Rightarrow> do { added \<leftarrow> alloc (nat alloc_size - length bs);
                                    Some (tb\<lparr>tb_buf := Heap_Buf (bs @ added), tb_size := alloc_size\<rparr>) }
               | _ \<Rightarrow> None) }
          else Some tb }"

definition binlog_maybe_free :: "tsd_binlog_t \<Rightarrow> tsd_binlog_t option" where
  "binlog_maybe_free tb =
     do { tb \<leftarrow> (if BINLOG_STACK_SIZE < tb_size tb then
                   (case tb_buf tb of Heap_Buf _ \<Rightarrow> Some (tb\<lparr>tb_blocks := tb_blocks tb - 1\<rparr>) | _ \<Rightarrow> None)
                 else Some tb);
          Some (tb\<lparr>tb_size := 0, tb_buf := No_Buf, tb_offset := 0\<rparr>) }"

text \<open>A store at \<^verbatim>\<open>buf + offset\<close> followed by the step of the offset.\<close>

definition tb_put :: "tsd_binlog_t \<Rightarrow> byte list \<Rightarrow> tsd_binlog_t option" where
  "tb_put tb bs =
     do { buf \<leftarrow> buf_bytes (tb_buf tb);
          buf \<leftarrow> put_bytes buf (nat (tb_offset tb)) bs;
          Some (tb\<lparr>tb_buf := buf_with (tb_buf tb) buf, tb_offset := tb_offset tb + int (length bs)\<rparr>) }"

definition print_int :: "allocator \<Rightarrow> tsd_binlog_t \<Rightarrow> 32 word \<Rightarrow> (int \<times> tsd_binlog_t) option" where
  "print_int alloc tb val =
     do { tb \<leftarrow> binlog_maybe_realloc alloc tb (1 + 4);
          tb \<leftarrow> tb_put tb [BLOG_INT];
          tb \<leftarrow> tb_put tb (u32_bytes val);
          Some (1 + 4, tb) }"

definition print_long :: "allocator \<Rightarrow> tsd_binlog_t \<Rightarrow> 64 word \<Rightarrow> (int \<times> tsd_binlog_t) option" where
  "print_long alloc tb val =
     do { tb \<leftarrow> binlog_maybe_realloc alloc tb (1 + 8);
          tb \<leftarrow> tb_put tb [BLOG_LONG];
          tb \<leftarrow> tb_put tb (u64_bytes val);
          Some (1 + 8, tb) }"

definition print_double :: "allocator \<Rightarrow> tsd_binlog_t \<Rightarrow> 64 word \<Rightarrow> (int \<times> tsd_binlog_t) option" where
  "print_double alloc tb val =
     do { tb \<leftarrow> binlog_maybe_realloc alloc tb (1 + 8);
          tb \<leftarrow> tb_put tb [BLOG_DOUBLE];
          tb \<leftarrow> tb_put tb (u64_bytes val);
          Some (1 + 8, tb) }"

definition print_pointer :: "allocator \<Rightarrow> tsd_binlog_t \<Rightarrow> 64 word \<Rightarrow> (int \<times> tsd_binlog_t) option" where
  "print_pointer alloc tb val =
     do { tb \<leftarrow> binlog_maybe_realloc alloc tb (1 + 8);
          tb \<leftarrow> tb_put tb [BLOG_POINTER];
          tb \<leftarrow> tb_put tb (u64_bytes val);
          Some (1 + 8, tb) }"

definition print_string :: "allocator \<Rightarrow> tsd_binlog_t \<Rightarrow> byte list \<Rightarrow> (int \<times> tsd_binlog_t) option" where
  "print_string alloc tb val =
     do { result \<leftarrow> int_result (int (length val) + 1 + 1);
          tb \<leftarrow> binlog_maybe_realloc alloc tb result;
          tb \<leftarrow> tb_put tb [BLOG_STRING];
          tb \<leftarrow> tb_put tb (val @ [0]);
          Some (result, tb) }"

fun print_arg :: "allocator \<Rightarrow> tsd_binlog_t \<Rightarrow> blog_arg \<Rightarrow> (int \<times> tsd_binlog_t) option" where
  "print_arg alloc tb (Arg_Int v) = print_int alloc tb v"
| "print_arg alloc tb (Arg_Long v) = print_long alloc tb v"
| "print_arg alloc tb (Arg_Double v) = print_double alloc tb v"
| "print_arg alloc tb (Arg_String v) = print_string alloc tb v"
| "print_arg alloc tb (Arg_Pointer v) = print_pointer alloc tb v"

text \<open>\<^verbatim>\<open>PRINT_BINTYPE\<close> without the step of \<^verbatim>\<open>ptr\<close>.\<close>

definition print_bintype :: "btype \<Rightarrow> allocator \<Rightarrow> tsd_binlog_t \<Rightarrow> blog_arg list \<Rightarrow> (int \<times> tsd_binlog_t \<times> blog_arg list) option" where
  "print_bintype bt alloc tb args =
     (case args of
        [] \<Rightarrow> None
      | a # args \<Rightarrow> if type_of a = bt then do { (n, tb) \<leftarrow> print_arg alloc tb a; Some (n, tb, args) } else None)"

section \<open>The scan of the format\<close>

text \<open>
  The width: \<^verbatim>\<open>*\<close> takes an argument, otherwise digits are skipped.  After \<^verbatim>\<open>.*\<close> the writer moves on twice.  On \<^verbatim>\<open>%\<close> it does not
  move on at all.  The number of bytes printed never exceeds the offset in the buffer, so its sum does not overflow.
\<close>

definition valog_width :: "allocator \<Rightarrow> tsd_binlog_t \<Rightarrow> blog_arg list \<Rightarrow> byte list \<Rightarrow> (int \<times> tsd_binlog_t \<times> blog_arg list \<times> byte list) option" where
  "valog_width alloc tb args s =
     (if hd0 s = 42 then do { (n, tb, args) \<leftarrow> print_bintype BT_INT alloc tb args; Some (n, tb, args, tl s) }
      else Some (0, tb, args, snd (scan_digits s)))"

definition valog_precision :: "allocator \<Rightarrow> tsd_binlog_t \<Rightarrow> blog_arg list \<Rightarrow> byte list \<Rightarrow> (int \<times> tsd_binlog_t \<times> blog_arg list \<times> byte list) option" where
  "valog_precision alloc tb args s =
     (if hd0 s = 46 then
        if hd0 (tl s) = 42 then
          do { (n, tb, args) \<leftarrow> print_bintype BT_INT alloc tb args;
               if tl (tl s) = [] then None else Some (n, tb, args, tl (tl (tl s))) }
        else Some (0, tb, args, snd (scan_digits (tl s)))
      else Some (0, tb, args, s))"

definition valog_conversion :: "allocator \<Rightarrow> tsd_binlog_t \<Rightarrow> blog_arg list \<Rightarrow> byte list \<Rightarrow> (int \<times> tsd_binlog_t \<times> blog_arg list \<times> byte list) run option" where
  "valog_conversion alloc tb args s =
     (case scan_mods s of
        Aborted \<Rightarrow> Some Aborted
      | Done (ms, s) \<Rightarrow>
          (case conv_type ms (hd0 s) of
             Some bt \<Rightarrow> do { (n, tb, args) \<leftarrow> print_bintype bt alloc tb args; Some (Done (n, tb, args, tl s)) }
           | None \<Rightarrow> if hd0 s = 37 then Some (Done (0, tb, args, s)) else Some Aborted))"

definition valog_spec :: "allocator \<Rightarrow> tsd_binlog_t \<Rightarrow> blog_arg list \<Rightarrow> byte list \<Rightarrow> (int \<times> tsd_binlog_t \<times> blog_arg list \<times> byte list) run option" where
  "valog_spec alloc tb args s =
     do { (_, s) \<leftarrow> scan_flags s;
          (n1, tb, args, s) \<leftarrow> valog_width alloc tb args s;
          (n2, tb, args, s) \<leftarrow> valog_precision alloc tb args s;
          andthen (valog_conversion alloc tb args s) (\<lambda>(n3, tb, args, s). Some (Done (n1 + n2 + n3, tb, args, s))) }"

lemma valog_spec_length:
  assumes "valog_spec alloc tb args s = Some (Done (n, tb', args', s'))"
  shows "length s' \<le> length s"
proof -
  from assms obtain a s1 n1 tb1 args1 s2 n2 tb2 args2 s3 n3 where *: "scan_flags s = Some (a, s1)"
    "valog_width alloc tb args s1 = Some (n1, tb1, args1, s2)" "valog_precision alloc tb1 args1 s2 = Some (n2, tb2, args2, s3)"
    "valog_conversion alloc tb2 args2 s3 = Some (Done (n3, tb', args', s'))"
    by (auto simp: valog_spec_def bind_eq_Some_conv andthen_Done)
  have "length s1 \<le> length s" using *(1) scan_flags_length by blast
  moreover have "length s2 \<le> length s1" using *(2) scan_digits_length [of s1] by (auto simp: valog_width_def bind_eq_Some_conv split: if_splits)
  moreover have "length s3 \<le> length s2" using *(3) scan_digits_length [of "tl s2"]
    by (auto simp: valog_precision_def bind_eq_Some_conv split: if_splits)
  moreover have "length s' \<le> length s3" using *(4) scan_mods_length [of s3]
    by (auto simp: valog_conversion_def bind_eq_Some_conv split: if_splits run.splits option.splits)
  ultimately show ?thesis by linarith
qed

function do_valog :: "allocator \<Rightarrow> tsd_binlog_t \<Rightarrow> blog_arg list \<Rightarrow> byte list \<Rightarrow> int \<Rightarrow> (int \<times> tsd_binlog_t) run option" where
  "do_valog alloc tb args s tot =
     (case s of
        [] \<Rightarrow> Some (Done (tot, tb))
      | c # s' \<Rightarrow>
          if c \<noteq> 37 then do_valog alloc tb args s' tot
          else (case valog_spec alloc tb args s' of
                  None \<Rightarrow> None
                | Some Aborted \<Rightarrow> Some Aborted
                | Some (Done (n, tb, args, s'')) \<Rightarrow> do_valog alloc tb args s'' (tot + n)))"
  by pat_completeness auto
termination
proof (relation "measure (\<lambda>(alloc, tb, args, s, tot). length s)", goal_cases)
  case (3 alloc tb args s tot c s' r x n p tb' q args' s'')
  then show ?case using valog_spec_length [of alloc tb args s' n tb' args' s''] by simp
qed simp_all

declare do_valog.simps [simp del]

section \<open>One record\<close>

definition print_begin :: "tsd_binlog_t \<Rightarrow> byte list \<Rightarrow> (int \<times> tsd_binlog_t) option" where
  "print_begin tb val =
     do { tb \<leftarrow> tb_put tb [BLOG_BEGIN];
          tb \<leftarrow> tb_put tb val;
          Some (int (length val) + 1, tb) }"

text \<open>
  The log files: their contents by path, the descriptors that are open for appending, and the number of handles.  \<open>wr\<close> is the number of
  bytes that \<^verbatim>\<open>write\<close> takes; its result is ignored by the program.
\<close>

record blog_sys =
  bs_files :: "byte list \<Rightarrow> byte list option"
  bs_fds :: "int \<Rightarrow> byte list option"
  bs_handles :: nat

record binlog_handle_t =
  bh_fd :: int
  bh_name :: "byte list"

definition append_write :: "blog_sys \<Rightarrow> int \<Rightarrow> byte list \<Rightarrow> nat \<Rightarrow> blog_sys" where
  "append_write sys fd bs wr =
     (case bs_fds sys fd of
        None \<Rightarrow> sys
      | Some path \<Rightarrow> (case bs_files sys path of
          None \<Rightarrow> sys
        | Some c \<Rightarrow> sys\<lparr>bs_files := (bs_files sys)(path \<mapsto> c @ take wr bs)\<rparr>))"

text \<open>\<^verbatim>\<open>print_end\<close> stores the length behind the begin byte, writes the record and gives the buffer back.\<close>

definition print_end :: "blog_sys \<Rightarrow> allocator \<Rightarrow> tsd_binlog_t \<Rightarrow> int \<Rightarrow> int \<Rightarrow> nat \<Rightarrow> (blog_sys \<times> tsd_binlog_t) option" where
  "print_end sys alloc tb fd valog_len wr =
     do { tb \<leftarrow> binlog_maybe_realloc alloc tb 1;
          buf \<leftarrow> buf_bytes (tb_buf tb);
          buf \<leftarrow> put_bytes buf 1 (u32_bytes (word_of_int valog_len));
          tb \<leftarrow> tb_put (tb\<lparr>tb_buf := buf_with (tb_buf tb) buf\<rparr>) [BLOG_END];
          buf \<leftarrow> buf_bytes (tb_buf tb);
          rec \<leftarrow> get_bytes buf 0 (nat (tb_offset tb));
          tb \<leftarrow> binlog_maybe_free tb;
          Some (append_write sys fd rec wr, tb) }"

definition LOG_DIR :: "byte list" where
  "LOG_DIR = ascii ''/var/log/tmp/''"

text \<open>\<open>mem\<close>: whether \<^verbatim>\<open>malloc\<close> succeeds; \<open>fd\<close>: the result of \<^verbatim>\<open>open\<close>.  The result \<open>None\<close> is \<^verbatim>\<open>NULL\<close>.\<close>

definition binlog_create :: "blog_sys \<Rightarrow> bool \<Rightarrow> int \<Rightarrow> byte list \<Rightarrow> blog_sys \<times> binlog_handle_t option" where
  "binlog_create sys mem fd name =
     (if \<not> mem then (sys, None)
      else let path = LOG_DIR @ name in
        if 128 \<le> length path then (sys, None)
        else if fd < 0 then (sys, None)
        else (sys\<lparr>bs_files := (bs_files sys)(path \<mapsto> (case bs_files sys path of None \<Rightarrow> [] | Some c \<Rightarrow> c)),
                  bs_fds := (bs_fds sys)(fd \<mapsto> path), bs_handles := bs_handles sys + 1\<rparr>,
              Some \<lparr>bh_fd = fd, bh_name = path\<rparr>))"

definition binlog_destroy :: "blog_sys \<Rightarrow> binlog_handle_t option \<Rightarrow> blog_sys option" where
  "binlog_destroy sys handle =
     do { h \<leftarrow> handle;
          Some (sys\<lparr>bs_fds := (bs_fds sys)(bh_fd h := None), bs_handles := bs_handles sys - 1\<rparr>) }"

text \<open>The time in microseconds, of a \<^verbatim>\<open>timespec\<close>.\<close>

definition timespec_us :: "int \<times> int \<Rightarrow> int" where
  "timespec_us ts = fst ts * 1000000 + snd ts sdiv 1000"

definition binlog_prefix :: "32 word \<Rightarrow> byte list \<Rightarrow> 32 word \<Rightarrow> 64 word \<Rightarrow> 64 word \<Rightarrow> byte list" where
  "binlog_prefix level func line thread now =
     u32_bytes 0 @ [ucast level] @ func @ [0] @ u32_bytes line @ u64_bytes thread @ u64_bytes now"

text \<open>
  \<open>stack\<close> is the array on the stack, \<open>thread\<close> and \<open>ts\<close> what \<^verbatim>\<open>pthread_self\<close> and \<^verbatim>\<open>clock_gettime\<close> give, \<open>tb\<close> the state of the
  thread before the call.
\<close>

definition binlog_print ::
  "blog_sys \<Rightarrow> allocator \<Rightarrow> byte list \<Rightarrow> 64 word \<Rightarrow> int \<times> int \<Rightarrow> nat \<Rightarrow> tsd_binlog_t \<Rightarrow> binlog_handle_t option \<Rightarrow>
   32 word \<Rightarrow> byte list \<Rightarrow> 32 word \<Rightarrow> byte list \<Rightarrow> blog_arg list \<Rightarrow> (blog_sys \<times> tsd_binlog_t) run option" where
  "binlog_print sys alloc stack thread ts wr tb handle level func line fmt args =
     (case handle of
        None \<Rightarrow> Some (Done (sys, tb))
      | Some h \<Rightarrow> do {
          let tb = tb\<lparr>tb_buf := Stack_Buf stack, tb_size := BINLOG_STACK_SIZE, tb_offset := 0\<rparr>;
          let prefix = binlog_prefix level func line thread (word_of_int (timespec_us ts));
          (_, tb) \<leftarrow> print_begin tb prefix;
          andthen (do_valog alloc tb args fmt 0) (\<lambda>(va_length, tb). do {
            (sys, tb) \<leftarrow> print_end sys alloc tb (bh_fd h) (va_length + int (length prefix) + 1 + 1) wr;
            Some (Done (sys, tb)) }) })"

section \<open>What the buffer holds\<close>

definition tb_holds :: "tsd_binlog_t \<Rightarrow> byte list \<Rightarrow> bool" where
  "tb_holds tb t \<longleftrightarrow>
     (\<exists>bs. (tb_buf tb = Stack_Buf bs \<and> tb_size tb = 1024 \<and> tb_blocks tb = 0 \<or> tb_buf tb = Heap_Buf bs \<and> 1024 < tb_size tb \<and> tb_blocks tb = 1) \<and>
           tb_size tb = int (length bs) \<and> tb_offset tb = int (length t) \<and> length t \<le> length bs \<and> take (length t) bs = t)"

definition LOG_LIMIT :: nat where
  "LOG_LIMIT = 2 ^ 29"

lemma grown_size_value:
  assumes "0 \<le> old" "0 \<le> off" "0 \<le> n" "old < off + n" "off + n \<le> int LOG_LIMIT"
  shows "grown_size old off n = Some (max (2 * old) (off + n + 1024))"
  using assms by (simp add: grown_size_def int_result_def int_limits BINLOG_STACK_SIZE_def LOG_LIMIT_def max_def signed_divide_int_def)

lemma binlog_maybe_realloc_holds:
  assumes "tb_holds tb t" "alloc_ok alloc" "length t + n \<le> LOG_LIMIT"
  shows "\<exists>tb'. binlog_maybe_realloc alloc tb (int n) = Some tb' \<and> tb_holds tb' t \<and> int (length t + n) \<le> tb_size tb'"
proof (cases "tb_size tb < int (length t) + int n")
  case False
  then show ?thesis using assms
    by (auto simp: binlog_maybe_realloc_def int_result_def int_limits LOG_LIMIT_def tb_holds_def)
next
  case True
  from assms(1) obtain bs where bs: "tb_size tb = int (length bs)" "tb_offset tb = int (length t)" "length t \<le> length bs" "take (length t) bs = t"
    "tb_buf tb = Stack_Buf bs \<and> length bs = 1024 \<and> tb_blocks tb = 0 \<or> tb_buf tb = Heap_Buf bs \<and> 1024 < length bs \<and> tb_blocks tb = 1"
    unfolding tb_holds_def by auto
  obtain g where g: "grown_size (int (length bs)) (int (length t)) (int n) = Some (int g)" "length t + n + 1024 \<le> g" "length bs \<le> g"
    using grown_size_value [of "int (length bs)" "int (length t)" "int n"] True assms(3) bs(1)
    by (intro that [of "max (2 * length bs) (length t + n + 1024)"]) auto
  have need: "int_result (int (length t) + int n) = Some (int (length t) + int n)"
    using assms(3) by (simp add: int_result_def int_limits LOG_LIMIT_def)
  from bs(5) show ?thesis
  proof
    assume h: "tb_buf tb = Stack_Buf bs \<and> length bs = 1024 \<and> tb_blocks tb = 0"
    obtain new where new: "alloc g = Some new" "length new = g" using assms(2) unfolding alloc_ok_def by blast
    have "put_bytes new 0 bs = Some (bs @ drop 1024 new)" using new(2) h g(2) by (simp add: put_bytes_def)
    then show ?thesis using True bs g need h new
      by (auto simp: binlog_maybe_realloc_def BINLOG_STACK_SIZE_def get_bytes_def tb_holds_def)
  next
    assume h: "tb_buf tb = Heap_Buf bs \<and> 1024 < length bs \<and> tb_blocks tb = 1"
    obtain new where new: "alloc (g - length bs) = Some new" "length new = g - length bs" using assms(2) unfolding alloc_ok_def by blast
    show ?thesis using True bs g need h new
      by (auto simp: binlog_maybe_realloc_def BINLOG_STACK_SIZE_def tb_holds_def)
  qed
qed

lemma tb_put_holds:
  assumes "tb_holds tb t" "int (length (t @ bs)) \<le> tb_size tb"
  shows "\<exists>tb'. tb_put tb bs = Some tb' \<and> tb_holds tb' (t @ bs) \<and> tb_size tb' = tb_size tb"
  using assms by (auto simp: tb_holds_def tb_put_def put_bytes_def min_def)

text \<open>A tag and a value, with room for both.\<close>

lemma tb_put_two:
  assumes "tb_holds tb t" "alloc_ok alloc" "length t + length (g # v) \<le> LOG_LIMIT"
  shows "\<exists>tb1 tb2 tb3. binlog_maybe_realloc alloc tb (1 + int (length v)) = Some tb1 \<and> tb_put tb1 [g] = Some tb2 \<and>
           tb_put tb2 v = Some tb3 \<and> tb_holds tb3 (t @ g # v)"
proof -
  obtain tb1 where 1: "binlog_maybe_realloc alloc tb (int (length (g # v))) = Some tb1" "tb_holds tb1 t" "int (length t + length (g # v)) \<le> tb_size tb1"
    using binlog_maybe_realloc_holds [OF assms] by blast
  obtain tb2 where 2: "tb_put tb1 [g] = Some tb2" "tb_holds tb2 (t @ [g])" "tb_size tb2 = tb_size tb1"
    using tb_put_holds [OF 1(2), of "[g]"] 1(3) by auto
  obtain tb3 where "tb_put tb2 v = Some tb3" "tb_holds tb3 (t @ g # v)" using tb_put_holds [OF 2(2), of v] 1(3) 2(3) by auto
  with 1(1) 2(1) show ?thesis by (auto simp: add.commute)
qed

lemma print_arg_holds:
  assumes "tb_holds tb t" "alloc_ok alloc" "length t + length (arg_bytes a) \<le> LOG_LIMIT"
  shows "\<exists>tb'. print_arg alloc tb a = Some (int (length (arg_bytes a)), tb') \<and> tb_holds tb' (t @ arg_bytes a)"
proof (cases a)
  case (Arg_String v)
  then have "int_result (int (length v) + 1 + 1) = Some (int (length v) + 1 + 1)"
    using assms(3) by (simp add: int_result_def int_limits LOG_LIMIT_def)
  then show ?thesis using Arg_String tb_put_two [OF assms(1,2), of BLOG_STRING "v @ [0]"] assms(3)
    by (auto simp: print_string_def algebra_simps)
next
  case (Arg_Int v)
  then show ?thesis using tb_put_two [OF assms(1,2), of BLOG_INT "u32_bytes v"] assms(3) by (auto simp: print_int_def)
next
  case (Arg_Long v)
  then show ?thesis using tb_put_two [OF assms(1,2), of BLOG_LONG "u64_bytes v"] assms(3) by (auto simp: print_long_def)
next
  case (Arg_Double v)
  then show ?thesis using tb_put_two [OF assms(1,2), of BLOG_DOUBLE "u64_bytes v"] assms(3) by (auto simp: print_double_def)
next
  case (Arg_Pointer v)
  then show ?thesis using tb_put_two [OF assms(1,2), of BLOG_POINTER "u64_bytes v"] assms(3) by (auto simp: print_pointer_def)
qed

section \<open>The arguments of a call\<close>

lemma print_bintype_holds:
  assumes "tb_holds tb t" "alloc_ok alloc" "length t + length (arg_bytes a) \<le> LOG_LIMIT"
  shows "\<exists>tb'. print_bintype (type_of a) alloc tb (a # args) = Some (int (length (arg_bytes a)), tb', args) \<and> tb_holds tb' (t @ arg_bytes a)"
  using print_arg_holds [OF assms] by (auto simp: print_bintype_def)

lemma valog_width_holds:
  assumes "tb_holds tb t" "alloc_ok alloc" "length t + length (args_bytes (width_args w)) \<le> LOG_LIMIT"
    and "wf_width w" "r \<noteq> []" "\<not> is_digit (hd0 r)" "hd0 r \<noteq> 42"
  shows "\<exists>tb'. valog_width alloc tb (width_args w @ args) (width_text w @ r) = Some (int (length (args_bytes (width_args w))), tb', args, r) \<and>
               tb_holds tb' (t @ args_bytes (width_args w))"
proof (cases w)
  case (Digits ds)
  then have "hd0 (ds @ r) \<noteq> 42" using assms(4,7) digit_classes(3) by (cases ds) auto
  then show ?thesis using Digits assms by (simp add: valog_width_def scan_digits_block)
next
  case (Star v)
  then show ?thesis using print_bintype_holds [OF assms(1,2), of "Arg_Int v" args] assms(3) by (auto simp: valog_width_def)
qed

lemma valog_precision_text:
  assumes "case p of None \<Rightarrow> True | Some ds \<Rightarrow> list_all is_digit ds" "r \<noteq> []" "\<not> is_digit (hd0 r)" "hd0 r \<noteq> 46" "hd0 r \<noteq> 42"
  shows "valog_precision alloc tb args (prec_text p @ r) = Some (0, tb, args, r)"
proof (cases p)
  case (Some ds)
  then have "hd0 (ds @ r) \<noteq> 42" using assms digit_classes(3) by (cases ds) auto
  then show ?thesis using Some assms by (simp add: valog_precision_def scan_digits_block)
qed (use assms in \<open>simp add: valog_precision_def\<close>)

lemma valog_spec_holds:
  assumes "tb_holds tb t" "alloc_ok alloc" "wf_item (Conv fl w p ms c a)"
    and "length t + length (args_bytes (width_args w @ [a])) \<le> LOG_LIMIT"
  shows "\<exists>tb'. valog_spec alloc tb (width_args w @ a # args) (fl @ width_text w @ prec_text p @ ms @ c # r) =
                 Some (Done (int (length (args_bytes (width_args w @ [a]))), tb', args, r)) \<and>
               tb_holds tb' (t @ args_bytes (width_args w @ [a]))"
proof -
  have wf: "list_all flag_char fl" "wf_width w" "case p of None \<Rightarrow> True | Some ds \<Rightarrow> list_all is_digit ds" "list_all mod_char ms"
    "conv_type ms c \<noteq> None" "conv_type ms c = Some (type_of a)" using assms(3) by auto
  note rest = mods_rest [OF wf(4,5), of r] prec_rest [OF wf(4,5), of p r] width_rest [OF wf(4,5,2), of p r]
  have "scan_flags (fl @ width_text w @ prec_text p @ ms @ c # r) = Some (fl, width_text w @ prec_text p @ ms @ c # r)"
    using wf(1) rest by (intro scan_flags_block) auto
  moreover obtain tb1 where 1: "valog_width alloc tb (width_args w @ a # args) (width_text w @ prec_text p @ ms @ c # r) =
      Some (int (length (args_bytes (width_args w))), tb1, a # args, prec_text p @ ms @ c # r)" "tb_holds tb1 (t @ args_bytes (width_args w))"
    using valog_width_holds [OF assms(1,2) _ wf(2), of "prec_text p @ ms @ c # r" "a # args"] rest assms(4) by auto
  moreover have "valog_precision alloc tb1 (a # args) (prec_text p @ ms @ c # r) = Some (0, tb1, a # args, ms @ c # r)"
    using wf(3) rest by (intro valog_precision_text) auto
  moreover obtain tb2 where "print_bintype (type_of a) alloc tb1 (a # args) = Some (int (length (arg_bytes a)), tb2, args)"
      "tb_holds tb2 ((t @ args_bytes (width_args w)) @ arg_bytes a)"
    using print_bintype_holds [OF 1(2) assms(2), of a args] assms(4) by auto
  moreover have "scan_mods (ms @ c # r) = Done (ms, c # r)" using wf(4) conv_type_char(2) [OF wf(5)] by (intro scan_mods_block) auto
  ultimately show ?thesis using wf(6) by (auto simp: valog_spec_def valog_conversion_def)
qed

lemma do_valog_holds:
  assumes "tb_holds tb t" "alloc_ok alloc" "list_all wf_item items" "length t + length (args_bytes (args_of items)) \<le> LOG_LIMIT"
  shows "\<exists>tb'. do_valog alloc tb (args_of items @ args) (fmt_of items) tot =
                 Some (Done (tot + int (length (args_bytes (args_of items))), tb')) \<and>
               tb_holds tb' (t @ args_bytes (args_of items))"
  using assms
proof (induction items arbitrary: tb t tot)
  case Nil
  then show ?case by (simp add: do_valog.simps)
next
  case (Cons i items)
  show ?case
  proof (cases i)
    case (Lit c)
    then show ?thesis using Cons.IH [of tb t tot] Cons.prems by (subst do_valog.simps) auto
  next
    case (Conv fl w p ms c a)
    obtain tb1 where 1: "valog_spec alloc tb (width_args w @ a # args_of items @ args) (fl @ width_text w @ prec_text p @ ms @ c # fmt_of items) =
        Some (Done (int (length (args_bytes (width_args w @ [a]))), tb1, args_of items @ args, fmt_of items))"
      "tb_holds tb1 (t @ args_bytes (width_args w @ [a]))"
      using valog_spec_holds [of tb t alloc fl w p ms c a "args_of items @ args" "fmt_of items"] Cons.prems Conv by auto
    show ?thesis using Cons.IH [OF 1(2), of "tot + int (length (args_bytes (width_args w @ [a])))"] Cons.prems Conv 1(1)
      by (subst do_valog.simps) (auto simp: algebra_simps)
  qed
qed

text \<open>After \<^verbatim>\<open>%%\<close> the scan continues with the second \<^verbatim>\<open>%\<close>, as the start of another conversion.\<close>

lemma do_valog_percent: "do_valog alloc tb args (37 # 37 # s) tot = do_valog alloc tb args (37 # s) tot"
proof -
  have "valog_spec alloc tb args (37 # s) = Some (Done (0, tb, args, 37 # s))"
    by (simp add: valog_spec_def scan_flags_def flag_char_def valog_width_def valog_precision_def scan_digits_def is_digit_def
        valog_conversion_def scan_mods_def mod_char_def conv_type_def ascii_def)
  then show ?thesis by (subst do_valog.simps) simp
qed

section \<open>Records and the log file\<close>

text \<open>The bytes of a record: the begin byte, the length of the whole record, the fixed fields, the arguments, the end byte.\<close>

definition record_fields :: "32 word \<Rightarrow> byte list \<Rightarrow> 32 word \<Rightarrow> 64 word \<Rightarrow> 64 word \<Rightarrow> byte list" where
  "record_fields level func line thread now = ucast level # func @ 0 # u32_bytes line @ u64_bytes thread @ u64_bytes now"

definition record_length :: "byte list \<Rightarrow> blog_arg list \<Rightarrow> nat" where
  "record_length func args = 28 + length func + length (args_bytes args)"

definition record_bytes :: "32 word \<Rightarrow> byte list \<Rightarrow> 32 word \<Rightarrow> 64 word \<Rightarrow> 64 word \<Rightarrow> blog_arg list \<Rightarrow> byte list" where
  "record_bytes level func line thread now args =
     BLOG_BEGIN # u32_bytes (of_nat (record_length func args)) @ record_fields level func line thread now @ args_bytes args @ [BLOG_END]"

lemma length_record_fields: "length (record_fields level func line thread now) = 22 + length func"
  by (simp add: record_fields_def)

lemma length_record_bytes: "length (record_bytes level func line thread now args) = record_length func args"
  by (simp add: record_bytes_def record_length_def length_record_fields)

lemma tb_holds_free: "tb_holds tb t \<Longrightarrow> binlog_maybe_free tb = Some (tb\<lparr>tb_buf := No_Buf, tb_size := 0, tb_offset := 0, tb_blocks := 0\<rparr>)"
  by (auto simp: tb_holds_def binlog_maybe_free_def BINLOG_STACK_SIZE_def)

lemma tb_holds_get: "tb_holds tb t \<Longrightarrow> \<exists>bs. buf_bytes (tb_buf tb) = Some bs \<and> get_bytes bs 0 (nat (tb_offset tb)) = Some t"
  by (auto simp: tb_holds_def get_bytes_def)

lemma print_begin_holds:
  assumes "tb_holds tb []" "length v < 1024"
  shows "\<exists>tb'. print_begin tb v = Some (int (length v) + 1, tb') \<and> tb_holds tb' (BLOG_BEGIN # v)"
proof -
  have size: "1024 \<le> tb_size tb" using assms(1) by (auto simp: tb_holds_def)
  obtain tb1 where 1: "tb_put tb [BLOG_BEGIN] = Some tb1" "tb_holds tb1 [BLOG_BEGIN]" "tb_size tb1 = tb_size tb"
    using tb_put_holds [OF assms(1), of "[BLOG_BEGIN]"] size by auto
  then show ?thesis using tb_put_holds [OF 1(2), of v] size assms(2) by (auto simp: print_begin_def)
qed

text \<open>Overwriting the four bytes behind the begin byte.\<close>

lemma patch_length:
  assumes "tb_holds tb (b # l @ t)" "length l = 4" "length l' = 4"
  shows "\<exists>buf buf'. buf_bytes (tb_buf tb) = Some buf \<and> put_bytes buf 1 l' = Some buf' \<and> tb_holds (tb\<lparr>tb_buf := buf_with (tb_buf tb) buf'\<rparr>) (b # l' @ t)"
proof -
  from assms(1) obtain bs where bs: "tb_buf tb = Stack_Buf bs \<or> tb_buf tb = Heap_Buf bs" "5 + length t \<le> length bs" "take (5 + length t) bs = b # l @ t"
    using assms(2) by (auto simp: tb_holds_def)
  obtain xs where xs: "bs = b # l @ t @ xs" using bs(3) append_take_drop_id [of "5 + length t" bs] by (metis append_Cons append_assoc)
  then have "put_bytes bs 1 l' = Some (b # l' @ t @ xs)" using assms(2,3) by (simp add: put_bytes_def)
  moreover have "take (5 + length t) (b # l' @ t @ xs) = b # l' @ t" using assms(3) by (simp add: take_Cons')
  ultimately show ?thesis using assms bs(1) xs by (auto simp: tb_holds_def)
qed

lemma print_end_holds:
  assumes "tb_holds tb (b # l @ t)" "length l = 4" "alloc_ok alloc" "length t + 6 \<le> LOG_LIMIT"
  shows "print_end sys alloc tb fd n wr =
     Some (append_write sys fd (b # u32_bytes (word_of_int n) @ t @ [BLOG_END]) wr,
           tb\<lparr>tb_buf := No_Buf, tb_size := 0, tb_offset := 0, tb_blocks := 0\<rparr>)"
proof -
  let ?l = "u32_bytes (word_of_int n)"
  obtain tb1 where 1: "binlog_maybe_realloc alloc tb 1 = Some tb1" "tb_holds tb1 (b # l @ t)" "int (length t + 6) \<le> tb_size tb1"
    using binlog_maybe_realloc_holds [OF assms(1,3), of 1] assms(2,4) by auto
  obtain buf buf' where 2: "buf_bytes (tb_buf tb1) = Some buf" "put_bytes buf 1 ?l = Some buf'"
      "tb_holds (tb1\<lparr>tb_buf := buf_with (tb_buf tb1) buf'\<rparr>) (b # ?l @ t)"
    using patch_length [OF 1(2) assms(2), of ?l] by auto
  obtain tb2 where 3: "tb_put (tb1\<lparr>tb_buf := buf_with (tb_buf tb1) buf'\<rparr>) [BLOG_END] = Some tb2" "tb_holds tb2 (b # ?l @ t @ [BLOG_END])"
    using tb_put_holds [OF 2(3), of "[BLOG_END]"] 1(3) by auto
  obtain bs where 4: "buf_bytes (tb_buf tb2) = Some bs" "get_bytes bs 0 (nat (tb_offset tb2)) = Some (b # ?l @ t @ [BLOG_END])"
    using tb_holds_get [OF 3(2)] by blast
  have "tb2\<lparr>tb_buf := No_Buf, tb_size := 0, tb_offset := 0, tb_blocks := 0\<rparr> = tb\<lparr>tb_buf := No_Buf, tb_size := 0, tb_offset := 0, tb_blocks := 0\<rparr>"
    by (simp add: tsd_binlog_t.equality)
  then show ?thesis using 1(1) 2(1,2) 3(1) 4 tb_holds_free [OF 3(2)] by (simp add: print_end_def)
qed

definition log_fits :: "byte list \<Rightarrow> blog_arg list \<Rightarrow> bool" where
  "log_fits func args \<longleftrightarrow> 0 \<notin> set func \<and> length func \<le> 997 \<and> record_length func args \<le> LOG_LIMIT"

lemma binlog_print_holds:
  assumes "alloc_ok alloc" "length stack = 1024" "tb_blocks tb = 0" "list_all wf_item items" "log_fits func (args_of items)"
  shows "binlog_print sys alloc stack thread ts wr tb (Some h) level func line (fmt_of items) (args_of items) =
     Some (Done (append_write sys (bh_fd h) (record_bytes level func line thread (word_of_int (timespec_us ts)) (args_of items)) wr,
                 tb\<lparr>tb_buf := No_Buf, tb_size := 0, tb_offset := 0, tb_blocks := 0\<rparr>))"
proof -
  let ?f = "record_fields level func line thread (word_of_int (timespec_us ts))" and ?a = "args_bytes (args_of items)"
  let ?tb = "tb\<lparr>tb_buf := Stack_Buf stack, tb_size := 1024, tb_offset := 0\<rparr>"
  have p: "binlog_prefix level func line thread (word_of_int (timespec_us ts)) = u32_bytes 0 @ ?f"
    by (simp add: binlog_prefix_def record_fields_def del: le_bytes.simps)
  have fits: "length func \<le> 997" "28 + length func + length ?a \<le> LOG_LIMIT" using assms(5) by (auto simp: log_fits_def record_length_def)
  have "tb_holds ?tb []" using assms(2,3) by (simp add: tb_holds_def)
  then obtain tb1 where 1: "print_begin ?tb (u32_bytes 0 @ ?f) = Some (int (length (u32_bytes 0 @ ?f)) + 1, tb1)" "tb_holds tb1 (BLOG_BEGIN # u32_bytes 0 @ ?f)"
    using print_begin_holds [of ?tb "u32_bytes 0 @ ?f"] fits(1) by (auto simp: length_record_fields)
  obtain tb2 where 2: "do_valog alloc tb1 (args_of items) (fmt_of items) 0 = Some (Done (int (length ?a), tb2))"
      "tb_holds tb2 (BLOG_BEGIN # u32_bytes 0 @ ?f @ ?a)"
    using do_valog_holds [OF 1(2) assms(1,4), of "[]" 0] fits(2) by (auto simp: length_record_fields)
  have len: "int (length ?a) + int (length (u32_bytes 0 @ ?f)) + 1 + 1 = int (record_length func (args_of items))"
    by (simp add: length_record_fields record_length_def)
  have tb2: "tb2\<lparr>tb_buf := No_Buf, tb_size := 0, tb_offset := 0, tb_blocks := 0\<rparr> = tb\<lparr>tb_buf := No_Buf, tb_size := 0, tb_offset := 0, tb_blocks := 0\<rparr>"
    by (simp add: tsd_binlog_t.equality)
  have "print_end sys alloc tb2 (bh_fd h) (int (record_length func (args_of items))) wr =
      Some (append_write sys (bh_fd h) (BLOG_BEGIN # u32_bytes (word_of_int (int (record_length func (args_of items)))) @ (?f @ ?a) @ [BLOG_END]) wr,
        tb2\<lparr>tb_buf := No_Buf, tb_size := 0, tb_offset := 0, tb_blocks := 0\<rparr>)"
    using 2(2) fits assms(1) by (intro print_end_holds [where l = "u32_bytes 0"]) (auto simp: length_record_fields)
  then show ?thesis using 1(1) 2(1) len tb2
    by (simp add: binlog_print_def p BINLOG_STACK_SIZE_def record_bytes_def)
qed

text \<open>
  C7: One call of \<^verbatim>\<open>binlog_print\<close>, for every format of literal text and conversions with matching arguments: whatever the size of the
  arguments, and whether or not the buffer has to move from the stack to the heap, the bytes passed to \<^verbatim>\<open>write\<close> are exactly the record
  with the begin byte, its own length, the fixed fields, the tagged arguments and the end byte; they are appended to the log file, and no heap
  block of the thread is left.
\<close>

theorem binlog_print_spec:
  assumes "alloc_ok alloc" "length stack = 1024" "tb_blocks tb = 0" "list_all wf_item items" "log_fits func (args_of items)"
    and "bs_fds sys (bh_fd h) = Some path" "bs_files sys path = Some c"
  shows "\<exists>sys' tb'. binlog_print sys alloc stack thread ts wr tb (Some h) level func line (fmt_of items) (args_of items) = Some (Done (sys', tb')) \<and>
    bs_files sys' = (bs_files sys)(path \<mapsto> c @ take wr (record_bytes level func line thread (word_of_int (timespec_us ts)) (args_of items))) \<and>
    bs_fds sys' = bs_fds sys \<and> bs_handles sys' = bs_handles sys \<and> tb_buf tb' = No_Buf \<and> tb_blocks tb' = 0"
  using binlog_print_holds [OF assms(1-5)] assms(6,7) by (auto simp: append_write_def)

theorem binlog_print_witness:
  "\<exists>sys' tb'. binlog_print \<lparr>bs_files = [ascii ''l'' \<mapsto> [1]], bs_fds = [3 \<mapsto> ascii ''l''], bs_handles = 1\<rparr> (\<lambda>n. Some (replicate n 9)) (replicate 1024 7)
      5 (2, 3000) 100 \<lparr>tb_buf = No_Buf, tb_size = 0, tb_offset = 0, tb_blocks = 0\<rparr> (Some \<lparr>bh_fd = 3, bh_name = ascii ''l''\<rparr>) 3 (ascii ''f'') 10
      (ascii ''n=%d'') [Arg_Int 6] = Some (Done (sys', tb')) \<and>
    bs_files sys' (ascii ''l'') = Some ([1] @ [0xfd] @ [34, 0, 0, 0] @ [3] @ [102, 0] @ [10, 0, 0, 0] @ [5, 0, 0, 0, 0, 0, 0, 0] @
      u64_bytes 2000003 @ [0, 6, 0, 0, 0] @ [0xff]) \<and> tb_blocks tb' = 0"
proof -
  let ?sys = "\<lparr>bs_files = [ascii ''l'' \<mapsto> [1]], bs_fds = [3 \<mapsto> ascii ''l''], bs_handles = 1\<rparr>"
  let ?items = "[Lit 110, Lit 61, Conv [] (Digits []) None [] 100 (Arg_Int 6)]"
  have e: "fmt_of ?items = ascii ''n=%d''" "args_of ?items = [Arg_Int 6]" by (simp_all add: ascii_def)
  have wf: "list_all wf_item ?items" by (simp add: conv_type_def ascii_def short_width_def wide_width_def)
  have bytes: "u32_bytes (of_nat 34) = [34, 0, 0, 0]" "u32_bytes 10 = [10, 0, 0, 0]" "u32_bytes 6 = [6, 0, 0, 0]" "u64_bytes 5 = [5, 0, 0, 0, 0, 0, 0, 0]"
    by code_simp+
  have r: "take 100 (record_bytes 3 (ascii ''f'') 10 5 (word_of_int (timespec_us (2, 3000))) [Arg_Int 6]) =
      [0xfd] @ [34, 0, 0, 0] @ [3] @ [102, 0] @ [10, 0, 0, 0] @ [5, 0, 0, 0, 0, 0, 0, 0] @ u64_bytes 2000003 @ [0, 6, 0, 0, 0] @ [0xff]"
    using bytes by (simp add: record_bytes_def record_length_def record_fields_def timespec_us_def blog_tags ascii_def signed_divide_int_def del: le_bytes.simps)
  have "\<exists>sys' tb'. binlog_print ?sys (\<lambda>n. Some (replicate n 9)) (replicate 1024 7)
      5 (2, 3000) 100 \<lparr>tb_buf = No_Buf, tb_size = 0, tb_offset = 0, tb_blocks = 0\<rparr> (Some \<lparr>bh_fd = 3, bh_name = ascii ''l''\<rparr>) 3 (ascii ''f'') 10
      (fmt_of ?items) (args_of ?items) = Some (Done (sys', tb')) \<and>
    bs_files sys' = (bs_files ?sys)(ascii ''l'' \<mapsto> [1] @ take 100 (record_bytes 3 (ascii ''f'') 10 5 (word_of_int (timespec_us (2, 3000))) (args_of ?items))) \<and>
    bs_fds sys' = bs_fds ?sys \<and> bs_handles sys' = bs_handles ?sys \<and> tb_buf tb' = No_Buf \<and> tb_blocks tb' = 0"
    using wf by (intro binlog_print_spec) (simp_all add: alloc_ok_def log_fits_def record_length_def LOG_LIMIT_def ascii_def)
  then show ?thesis unfolding e r by auto
qed

text \<open>
  C40: The limits of \<^verbatim>\<open>binlog_print\<close>: without a handle it does nothing; a function name of more than 997 bytes makes \<^verbatim>\<open>print_begin\<close>, which
  does not check the size, leave the array on the stack; and \<^verbatim>\<open>%%\<close> in the format is not skipped: what follows is read as a conversion,
  which takes an argument that the caller did not pass.
\<close>

theorem binlog_print_limits:
  assumes "length stack = 1024"
  shows "binlog_print sys alloc stack thread ts wr tb None level func line fmt args = Some (Done (sys, tb)) \<and>
    (997 < length func \<longrightarrow> binlog_print sys alloc stack thread ts wr tb (Some h) level func line fmt args = None) \<and>
    do_valog alloc tb args (ascii ''%%'' @ s) tot = do_valog alloc tb args (ascii ''%'' @ s) tot \<and>
    do_valog alloc tb [] (ascii ''%%d'') tot = None"
proof -
  have "print_begin (tb\<lparr>tb_buf := Stack_Buf stack, tb_size := 1024, tb_offset := 0\<rparr>) p = None" if "1024 \<le> length p" for p
    using assms that by (simp add: print_begin_def tb_put_def put_bytes_def)
  then have "binlog_print sys alloc stack thread ts wr tb (Some h) level func line fmt args = None" if "997 < length func"
    using that by (simp add: binlog_print_def BINLOG_STACK_SIZE_def binlog_prefix_def)
  moreover have "do_valog alloc tb [] (37 # [100]) tot = None"
    by (subst do_valog.simps) (simp add: valog_spec_def scan_flags_def flag_char_def valog_width_def valog_precision_def scan_digits_def is_digit_def
        valog_conversion_def scan_mods_def mod_char_def conv_type_def ascii_def print_bintype_def)
  ultimately show ?thesis by (simp add: binlog_print_def ascii_def do_valog_percent)
qed

theorem binlog_print_limits_witness:
  "binlog_print \<lparr>bs_files = Map.empty, bs_fds = Map.empty, bs_handles = 0\<rparr> (\<lambda>n. None) (replicate 1024 0) 0 (0, 0) 0
     \<lparr>tb_buf = No_Buf, tb_size = 0, tb_offset = 0, tb_blocks = 0\<rparr> (Some \<lparr>bh_fd = 3, bh_name = []\<rparr>) 1 (replicate 998 65) 1 [] [] = None"
  using binlog_print_limits [of "replicate 1024 0" "\<lparr>bs_files = Map.empty, bs_fds = Map.empty, bs_handles = 0\<rparr>" "\<lambda>n. None" 0 "(0, 0)" 0
     "\<lparr>tb_buf = No_Buf, tb_size = 0, tb_offset = 0, tb_blocks = 0\<rparr>" 1 "replicate 998 65" 1 "[]" "[]" "\<lparr>bh_fd = 3, bh_name = []\<rparr>" "[]" 0]
  by simp

end
