(* ===== verification/Binlog_Parser.thy ===== *)
theory Binlog_Parser
  imports Binlog_Writer Sys_Io
begin

text \<open>
  The program that turns a binary log into text, \<^verbatim>\<open>src/binlog/binlog_parser.c\<close>: the reader of arguments, \<^verbatim>\<open>print_format\<close>, the
  look-up of formats, the buffer over the file, and the loop over the records.

  Parameters of the model: \<open>pe_printf\<close> is the text that \<^verbatim>\<open>fprintf\<close> makes of one conversion specification and its argument, or
  \<open>None\<close> for the result \<open>-1\<close>; \<open>pe_date\<close> is \<^verbatim>\<open>localtime_r\<close> and \<^verbatim>\<open>strftime\<close>; \<open>pe_ptr\<close> is the text of \<^verbatim>\<open>%#p\<close>.  The
  file of formats is parsed by the cJSON library; its entries are the list \<open>bp_json\<close>.  A failed \<^verbatim>\<open>assert\<close> is \<open>Aborted\<close>.
\<close>

section \<open>Reading arguments\<close>

record binlog_va_list =
  vl_len :: int
  vl_off :: int
  vl_buf :: "byte list"

text \<open>The sizes are of type \<^verbatim>\<open>size_t\<close>, so the comparison with \<^verbatim>\<open>len\<close> is unsigned.\<close>

definition get_int :: "binlog_va_list \<Rightarrow> (32 word \<times> binlog_va_list) run option" where
  "get_int vl =
     (if vl_len vl mod 2 ^ 64 < vl_off vl + 1 + 4 then Some Aborted
      else do {
        t \<leftarrow> at_index (vl_buf vl) (vl_off vl);
        if t \<noteq> BLOG_INT then Some Aborted
        else do { v \<leftarrow> get_u32 (vl_buf vl) (nat (vl_off vl + 1)); Some (Done (v, vl\<lparr>vl_off := vl_off vl + 1 + 4\<rparr>)) } })"

definition get_long :: "binlog_va_list \<Rightarrow> (64 word \<times> binlog_va_list) run option" where
  "get_long vl =
     (if vl_len vl mod 2 ^ 64 < vl_off vl + 1 + 8 then Some Aborted
      else do {
        t \<leftarrow> at_index (vl_buf vl) (vl_off vl);
        if t \<noteq> BLOG_LONG then Some Aborted
        else do { v \<leftarrow> get_u64 (vl_buf vl) (nat (vl_off vl + 1)); Some (Done (v, vl\<lparr>vl_off := vl_off vl + 1 + 8\<rparr>)) } })"

definition get_double :: "binlog_va_list \<Rightarrow> (64 word \<times> binlog_va_list) run option" where
  "get_double vl =
     (if vl_len vl mod 2 ^ 64 < vl_off vl + 1 + 8 then Some Aborted
      else do {
        t \<leftarrow> at_index (vl_buf vl) (vl_off vl);
        if t \<noteq> BLOG_DOUBLE then Some Aborted
        else do { v \<leftarrow> get_u64 (vl_buf vl) (nat (vl_off vl + 1)); Some (Done (v, vl\<lparr>vl_off := vl_off vl + 1 + 8\<rparr>)) } })"

definition get_pointer :: "binlog_va_list \<Rightarrow> (64 word \<times> binlog_va_list) run option" where
  "get_pointer vl =
     (if vl_len vl mod 2 ^ 64 < vl_off vl + 1 + 8 then Some Aborted
      else do {
        t \<leftarrow> at_index (vl_buf vl) (vl_off vl);
        if t \<noteq> BLOG_POINTER then Some Aborted
        else do { v \<leftarrow> get_u64 (vl_buf vl) (nat (vl_off vl + 1)); Some (Done (v, vl\<lparr>vl_off := vl_off vl + 1 + 8\<rparr>)) } })"

definition get_string :: "binlog_va_list \<Rightarrow> (byte list \<times> binlog_va_list) run option" where
  "get_string vl =
     do { s \<leftarrow> string_at (vl_buf vl) (nat (vl_off vl + 1));
          if vl_len vl < vl_off vl + 1 + int (length s) + 1 then Some Aborted
          else do {
            t \<leftarrow> at_index (vl_buf vl) (vl_off vl);
            if t \<noteq> BLOG_STRING then Some Aborted
            else Some (Done (s, vl\<lparr>vl_off := vl_off vl + 1 + (int (length s) + 1)\<rparr>)) } }"

definition on_value :: "('a \<Rightarrow> 'b) \<Rightarrow> ('a \<times> 'v) run option \<Rightarrow> ('b \<times> 'v) run option" where
  "on_value f m = andthen m (\<lambda>(x, v). Some (Done (f x, v)))"

fun binlog_va_arg :: "btype \<Rightarrow> binlog_va_list \<Rightarrow> (blog_arg \<times> binlog_va_list) run option" where
  "binlog_va_arg BT_INT vl = on_value Arg_Int (get_int vl)"
| "binlog_va_arg BT_LONG vl = on_value Arg_Long (get_long vl)"
| "binlog_va_arg BT_DOUBLE vl = on_value Arg_Double (get_double vl)"
| "binlog_va_arg BT_STRING vl = on_value Arg_String (get_string vl)"
| "binlog_va_arg BT_POINTER vl = on_value Arg_Pointer (get_pointer vl)"

section \<open>Printing a record with its format\<close>

record parse_env =
  pe_printf :: "byte list \<Rightarrow> blog_arg \<Rightarrow> byte list option"
  pe_date :: "int \<Rightarrow> byte list"
  pe_ptr :: "64 word \<Rightarrow> byte list"
  pe_realtime :: "int \<times> int"
  pe_monotonic :: "int \<times> int"

text \<open>
  Copying into the array \<^verbatim>\<open>specifier\<close> of 128 bytes, without and with a terminator behind it.
\<close>

definition spec_add :: "byte list \<Rightarrow> byte list \<Rightarrow> byte list option" where
  "spec_add spec cs = (if length spec + length cs \<le> 128 then Some (spec @ cs) else None)"

definition spec_str :: "byte list \<Rightarrow> byte list \<Rightarrow> byte list option" where
  "spec_str spec cs = (if length spec + length cs < 128 then Some (spec @ cs) else None)"

definition copy_va_int :: "binlog_va_list \<Rightarrow> byte list \<Rightarrow> (binlog_va_list \<times> byte list) run option" where
  "copy_va_int vl spec =
     andthen (get_int vl) (\<lambda>(v, vl). do {
       n \<leftarrow> int_result \<bar>sint v\<bar>;
       spec \<leftarrow> spec_str spec (dec_int n);
       Some (Done (vl, spec)) })"

text \<open>The width, and what follows the period of the precision: \<^verbatim>\<open>*\<close> or digits.\<close>

definition format_number :: "binlog_va_list \<Rightarrow> byte list \<Rightarrow> byte list \<Rightarrow> (binlog_va_list \<times> byte list \<times> byte list) run option" where
  "format_number vl spec s =
     (if hd0 s = 42 then andthen (copy_va_int vl spec) (\<lambda>(vl, spec). Some (Done (vl, spec, tl s)))
      else do { spec \<leftarrow> spec_add spec (fst (scan_digits s)); Some (Done (vl, spec, snd (scan_digits s))) })"

definition format_precision :: "binlog_va_list \<Rightarrow> byte list \<Rightarrow> byte list \<Rightarrow> (binlog_va_list \<times> byte list \<times> byte list) run option" where
  "format_precision vl spec s =
     (if hd0 s = 46 then do { spec \<leftarrow> spec_add spec [46]; format_number vl spec (tl s) }
      else Some (Done (vl, spec, s)))"

text \<open>The result: the new position in the arguments and in the format, and the text, or \<open>None\<close> when \<^verbatim>\<open>fprintf\<close> fails.\<close>

definition format_conversion ::
  "parse_env \<Rightarrow> binlog_va_list \<Rightarrow> byte list \<Rightarrow> byte list \<Rightarrow> (binlog_va_list \<times> byte list \<times> byte list option) run option" where
  "format_conversion env vl spec s =
     do { spec \<leftarrow> spec_add spec (takeWhile mod_char s);
          case scan_mods s of
            Aborted \<Rightarrow> Some Aborted
          | Done (ms, s) \<Rightarrow>
              (case conv_type ms (hd0 s) of
                 Some bt \<Rightarrow> andthen (binlog_va_arg bt vl) (\<lambda>(a, vl). do {
                   spec \<leftarrow> spec_str spec [hd0 s];
                   Some (Done (vl, tl s, pe_printf env spec a)) })
               | None \<Rightarrow> if hd0 s = 37 then Some (Done (vl, tl s, Some [37])) else Some Aborted) }"

definition format_spec :: "parse_env \<Rightarrow> binlog_va_list \<Rightarrow> byte list \<Rightarrow> (binlog_va_list \<times> byte list \<times> byte list option) run option" where
  "format_spec env vl s =
     do { (fl, s) \<leftarrow> scan_flags s;
          spec \<leftarrow> spec_add [37] fl;
          andthen (format_number vl spec s) (\<lambda>(vl, spec, s).
          andthen (format_precision vl spec s) (\<lambda>(vl, spec, s).
          format_conversion env vl spec s)) }"

lemma format_number_length: "format_number vl spec s = Some (Done (vl', spec', s')) \<Longrightarrow> length s' \<le> length s"
  using scan_digits_length [of s] by (auto simp: format_number_def andthen_Done bind_eq_Some_conv split: if_splits)

lemma format_precision_length: "format_precision vl spec s = Some (Done (vl', spec', s')) \<Longrightarrow> length s' \<le> length s"
  by (auto simp: format_precision_def bind_eq_Some_conv split: if_splits dest!: format_number_length)

lemma format_conversion_length: "format_conversion env vl spec s = Some (Done (vl', s', txt)) \<Longrightarrow> length s' \<le> length s"
  using scan_mods_length [of s]
  by (cases "scan_mods s") (auto simp: format_conversion_def andthen_Done bind_eq_Some_conv split: if_splits option.splits)

lemma format_spec_length:
  assumes "format_spec env vl s = Some (Done (vl', s', txt))"
  shows "length s' \<le> length s"
proof -
  from assms obtain fl s1 spec vl2 spec2 s2 vl3 spec3 s3 where *: "scan_flags s = Some (fl, s1)"
    "format_number vl spec s1 = Some (Done (vl2, spec2, s2))" "format_precision vl2 spec2 s2 = Some (Done (vl3, spec3, s3))"
    "format_conversion env vl3 spec3 s3 = Some (Done (vl', s', txt))"
    by (auto simp: format_spec_def andthen_Done bind_eq_Some_conv)
  then show ?thesis
    using scan_flags_length [OF *(1)] format_number_length [OF *(2)] format_precision_length [OF *(3)] format_conversion_length [OF *(4)] by linarith
qed

text \<open>
  \<^verbatim>\<open>print_format\<close>, from \<^verbatim>\<open>ptr\<close> on: the value returned, and what has been printed behind \<open>out\<close>.
\<close>

function print_format :: "parse_env \<Rightarrow> binlog_va_list \<Rightarrow> byte list \<Rightarrow> byte list \<Rightarrow> int \<Rightarrow> (int \<times> byte list) run option" where
  "print_format env vl s out tot =
     (case s of
        [] \<Rightarrow> Some (Done (tot, out))
      | c # s' \<Rightarrow>
          if c \<noteq> 37 then
            (case int_result (tot + 1) of None \<Rightarrow> None | Some tot \<Rightarrow> print_format env vl s' (out @ [c]) tot)
          else
            (case format_spec env vl s' of
               None \<Rightarrow> None
             | Some Aborted \<Rightarrow> Some Aborted
             | Some (Done (vl, s'', None)) \<Rightarrow> Some (Done (-1, out))
             | Some (Done (vl, s'', Some txt)) \<Rightarrow>
                 (case int_result (tot + int (length txt)) of None \<Rightarrow> None | Some tot \<Rightarrow> print_format env vl s'' (out @ txt) tot)))"
  by pat_completeness auto
termination
proof (relation "measure (\<lambda>(env, vl, s, out, tot). length s)", goal_cases)
  case (3 env vl s out tot c s' r d vl' u s'')
  then show ?case using format_spec_length [of env vl s' vl' s''] by fastforce
qed simp_all

declare print_format.simps [simp del]

section \<open>Formats and times\<close>

record fmt_entry =
  fe_function :: "byte list option"
  fe_line :: "int option"
  fe_format :: "byte list option"

text \<open>A missing member of an entry is a \<^verbatim>\<open>NULL\<close> pointer that is dereferenced.\<close>

fun format_fetch :: "fmt_entry list \<Rightarrow> byte list \<Rightarrow> int \<Rightarrow> byte list option option" where
  "format_fetch [] func line = Some None"
| "format_fetch (e # es) func line =
     do { f \<leftarrow> fe_function e;
          if func = f then do {
            l \<leftarrow> fe_line e;
            if line = l then do { fmt \<leftarrow> fe_format e; Some (Some fmt) } else format_fetch es func line }
          else format_fetch es func line }"

definition pad3 :: "int \<Rightarrow> byte list" where
  "pad3 v = (let d = dec_nat (nat \<bar>v\<bar>) in if v < 0 then 45 # replicate (2 - length d) 48 @ d else replicate (3 - length d) 48 @ d)"

definition timestamp_fmt :: "parse_env \<Rightarrow> int \<Rightarrow> byte list option" where
  "timestamp_fmt env ts =
     (let d = pe_date env (ts sdiv 1000000) in
      if length d < 128 then Some (take 127 (d @ 46 # pad3 (ts smod 1000))) else None)"

definition binlog_level_name :: "int \<Rightarrow> byte list" where
  "binlog_level_name level =
     (if level = 1 then ascii ''ERROR'' else if level = 2 then ascii ''WARN'' else if level = 3 then ascii ''INFO''
      else if level = 4 then ascii ''DEBUG'' else ascii ''TRACE'')"

definition clock_diff :: "int \<times> int \<Rightarrow> int \<times> int \<Rightarrow> int" where
  "clock_diff realtime monotonic =
     fst realtime * 1000000 + snd realtime sdiv 1000 - fst monotonic * 1000000 + snd monotonic sdiv 1000"

section \<open>The buffer over the file\<close>

text \<open>
  \<open>bp_file\<close> and \<open>bp_pos\<close> are the contents of the file behind the descriptor and the position in it; \<open>bp_held\<close> is what the program holds: open
  descriptors, the stream \<^verbatim>\<open>out\<close>, the block \<^verbatim>\<open>buf\<close> and the tree of \<^verbatim>\<open>json_arr\<close>.
\<close>

record parser_held =
  held_fds :: "int set"
  held_out :: bool
  held_buf :: bool
  held_json :: bool

record binlog_parser_t =
  bp_file :: "byte list"
  bp_pos :: nat
  bp_out :: "byte list"
  bp_buf :: "byte list"
  bp_json :: "fmt_entry list"
  bp_size :: int
  bp_read_size :: int
  bp_offset :: int
  bp_file_offset :: int
  bp_file_size :: int
  bp_fd :: int
  bp_held :: parser_held

text \<open>\<^verbatim>\<open>memcpy\<close> within the buffer is defined only when the two ranges do not overlap.\<close>

definition move_front :: "byte list \<Rightarrow> nat \<Rightarrow> nat \<Rightarrow> byte list option" where
  "move_front buf off n = (if n = 0 then Some buf else if off < n then None else do { bs \<leftarrow> get_bytes buf off n; put_bytes buf 0 bs })"

definition binlog_parse_read :: "binlog_parser_t \<Rightarrow> binlog_parser_t run option" where
  "binlog_parse_read p =
     do { let kept = (if bp_file_offset p = 0 then 0 else bp_read_size p - bp_offset p);
          buf \<leftarrow> move_front (bp_buf p) (nat (bp_offset p)) (nat kept);
          let bs = take (nat (bp_size p - kept)) (drop (bp_pos p) (bp_file p));
          buf \<leftarrow> put_bytes buf (nat kept) bs;
          if bs = [] then Some Aborted
          else do {
            fo \<leftarrow> int_result (bp_file_offset p + int (length bs));
            Some (Done (p\<lparr>bp_buf := buf, bp_pos := bp_pos p + length bs, bp_file_offset := fo,
                          bp_read_size := int (length bs) + kept, bp_offset := 0\<rparr>)) } }"

section \<open>The loop over the records\<close>

definition parse_record :: "parse_env \<Rightarrow> binlog_parser_t \<Rightarrow> int \<Rightarrow> binlog_parser_t run option" where
  "parse_record env p len =
     do { let b = drop (nat (bp_offset p)) (bp_buf p);
          level \<leftarrow> at_index b 5;
          func \<leftarrow> string_at b 6;
          let off = 6 + length func + 1;
          line \<leftarrow> get_u32 b off;
          thread \<leftarrow> get_u64 b (off + 4);
          ts \<leftarrow> get_u64 b (off + 12);
          let vl = \<lparr>vl_len = len, vl_off = int off + 20, vl_buf = b\<rparr>;
          time_fmt \<leftarrow> timestamp_fmt env (sint ts + clock_diff (pe_realtime env) (pe_monotonic env));
          let out = bp_out p @ time_fmt @ ascii '' '' @ binlog_level_name (uint level) @ ascii '' '' @ pe_ptr env thread @ ascii '' '';
          format \<leftarrow> format_fetch (bp_json p) func (sint line);
          format \<leftarrow> format;
          andthen (print_format env vl format out 0) (\<lambda>(_, out). do {
            offset \<leftarrow> int_result (bp_offset p + len);
            Some (Done (p\<lparr>bp_out := out @ ascii '' ['' @ func @ ascii '':'' @ dec_int (sint line) @ ascii '']'' @ [10],
                          bp_offset := offset\<rparr>)) }) }"

definition parse_step :: "parse_env \<Rightarrow> binlog_parser_t \<Rightarrow> binlog_parser_t run option" where
  "parse_step env p =
     andthen (if bp_offset p = bp_read_size p then binlog_parse_read p else Some (Done p)) (\<lambda>p. do {
       lenw \<leftarrow> get_u32 (bp_buf p) (nat (bp_offset p) + 1);
       e \<leftarrow> int_result (sint lenw + bp_offset p);
       andthen (if bp_read_size p < e then binlog_parse_read p else Some (Done p)) (\<lambda>p. parse_record env p (sint lenw)) })"

definition parse_done :: "binlog_parser_t \<Rightarrow> bool" where
  "parse_done p \<longleftrightarrow> bp_file_offset p = bp_file_size p \<and> bp_offset p = bp_read_size p"

partial_function (option) binlog_prase :: "parse_env \<Rightarrow> binlog_parser_t \<Rightarrow> binlog_parser_t run option" where
  "binlog_prase env p =
     do { r \<leftarrow> parse_step env p;
          case r of
            Aborted \<Rightarrow> Some Aborted
          | Done p \<Rightarrow> if parse_done p then Some (Done p) else binlog_prase env p }"

section \<open>Arguments are read back as they were written\<close>

definition args_at :: "binlog_va_list \<Rightarrow> blog_arg list \<Rightarrow> bool" where
  "args_at vl args \<longleftrightarrow>
     (\<exists>xs ys. vl_buf vl = xs @ args_bytes args @ ys \<and> vl_off vl = int (length xs) \<and>
              int (length xs + length (args_bytes args)) \<le> vl_len vl \<and> vl_len vl < 2 ^ 31)"

lemma sint_small:
  fixes v :: "32 word"
  assumes "v < 2 ^ 31"
  shows "sint v = uint v"
proof -
  have "- 2147483648 \<le> uint v" using uint_ge_0 [of v] by linarith
  then show ?thesis using assms by (simp add: sint_uint signed_take_bit_int_eq_self_iff word_less_def)
qed

lemma at_index_middle: "at_index (xs @ g # ys) (int (length xs)) = Some g"
  using at_index_nat [of "length xs" "xs @ g # ys"] by simp

lemma get_u32_behind: "get_u32 (xs @ g # u32_bytes v @ ys) (Suc (length xs)) = Some v"
  using get_u32_at [of "xs @ [g]" v ys] by (simp del: le_bytes.simps)

lemma get_u64_behind: "get_u64 (xs @ g # u64_bytes v @ ys) (Suc (length xs)) = Some v"
  using get_u64_at [of "xs @ [g]" v ys] by (simp del: le_bytes.simps)

lemma string_behind: "0 \<notin> set v \<Longrightarrow> string_at (xs @ g # v @ 0 # ys) (Suc (length xs)) = Some v"
  using string_at_terminated [of v "xs @ [g]" ys] by simp

lemma nat_Suc: "nat (int n + 1) = Suc n"
  by simp

lemmas read_back = at_index_middle get_u32_behind get_u64_behind string_behind nat_Suc

lemma va_arg_value:
  assumes "vl_buf vl = xs @ arg_bytes a @ ys" "vl_off vl = int (length xs)" "int (length xs + length (arg_bytes a)) \<le> vl_len vl" "vl_len vl < 2 ^ 31"
    and "plain_string a"
  shows "binlog_va_arg (type_of a) vl = Some (Done (a, vl\<lparr>vl_off := int (length xs + length (arg_bytes a))\<rparr>))"
proof -
  have m: "vl_len vl mod 2 ^ 64 = vl_len vl" using assms(3,4) by simp
  show ?thesis
  proof (cases a)
    case (Arg_Int v)
    then show ?thesis using assms m by (simp add: on_value_def get_int_def read_back del: le_bytes.simps)
  next
    case (Arg_Long v)
    then show ?thesis using assms m by (simp add: on_value_def get_long_def read_back del: le_bytes.simps)
  next
    case (Arg_Double v)
    then show ?thesis using assms m by (simp add: on_value_def get_double_def read_back del: le_bytes.simps)
  next
    case (Arg_Pointer v)
    then show ?thesis using assms m by (simp add: on_value_def get_pointer_def read_back del: le_bytes.simps)
  next
    case (Arg_String v)
    then show ?thesis using assms m by (simp add: on_value_def get_string_def read_back)
  qed
qed

lemma va_arg_next:
  assumes "args_at vl (a # args)" "plain_string a"
  shows "\<exists>vl'. binlog_va_arg (type_of a) vl = Some (Done (a, vl')) \<and> args_at vl' args"
proof -
  from assms(1) obtain xs ys where *: "vl_buf vl = xs @ arg_bytes a @ args_bytes args @ ys" "vl_off vl = int (length xs)"
    "int (length xs + (length (arg_bytes a) + length (args_bytes args))) \<le> vl_len vl" "vl_len vl < 2 ^ 31"
    unfolding args_at_def by auto
  let ?vl = "vl\<lparr>vl_off := int (length xs + length (arg_bytes a))\<rparr>"
  have "binlog_va_arg (type_of a) vl = Some (Done (a, ?vl))" using va_arg_value [OF *(1,2) _ *(4) assms(2)] *(3) by simp
  moreover have "args_at ?vl args" using * unfolding args_at_def by (intro exI [of _ "xs @ arg_bytes a"] exI [of _ ys]) simp
  ultimately show ?thesis by blast
qed

section \<open>What \<^verbatim>\<open>fprintf\<close> prints for a call\<close>

text \<open>The conversion with the argument of \<^verbatim>\<open>*\<close> in its place, and the text of a whole call.\<close>

fun width_digits :: "fwidth \<Rightarrow> byte list" where
  "width_digits (Digits ds) = ds"
| "width_digits (Star v) = dec_int (sint v)"

fun item_spec :: "fitem \<Rightarrow> byte list" where
  "item_spec (Lit c) = [c]"
| "item_spec (Conv fl w p ms c a) = 37 # fl @ width_digits w @ prec_text p @ ms @ [c]"

fun item_out :: "parse_env \<Rightarrow> fitem \<Rightarrow> byte list option" where
  "item_out env (Lit c) = Some [c]"
| "item_out env (Conv fl w p ms c a) = pe_printf env (item_spec (Conv fl w p ms c a)) a"

fun c_printf :: "parse_env \<Rightarrow> fitem list \<Rightarrow> byte list option" where
  "c_printf env [] = Some []"
| "c_printf env (i # is) = do { t \<leftarrow> item_out env i; u \<leftarrow> c_printf env is; Some (t @ u) }"

lemma format_number_at:
  assumes "args_at vl (width_args w @ args)" "wf_width w" "r \<noteq> []" "\<not> is_digit (hd0 r)" "hd0 r \<noteq> 42" "length spec + length (width_digits w) < 128"
  shows "\<exists>vl'. format_number vl spec (width_text w @ r) = Some (Done (vl', spec @ width_digits w, r)) \<and> args_at vl' args"
proof (cases w)
  case (Digits ds)
  then have "hd0 (ds @ r) \<noteq> 42" using assms(2,5) digit_classes(3) by (cases ds) auto
  then show ?thesis using Digits assms by (simp add: format_number_def scan_digits_block spec_add_def)
next
  case (Star v)
  then obtain vl' where "get_int vl = Some (Done (v, vl'))" "args_at vl' args"
    using va_arg_next [of vl "Arg_Int v" args] assms(1) by (auto simp: on_value_def andthen_Done)
  moreover have "0 \<le> sint v" "sint v < 2 ^ 31" using Star assms(2) by (simp_all add: sint_small word_less_def)
  ultimately show ?thesis using Star assms(6)
    by (simp add: format_number_def copy_va_int_def int_result_def int_limits spec_str_def)
qed

lemma format_precision_at:
  assumes "case p of None \<Rightarrow> True | Some ds \<Rightarrow> list_all is_digit ds" "r \<noteq> []" "\<not> is_digit (hd0 r)" "hd0 r \<noteq> 46" "hd0 r \<noteq> 42"
    and "length spec + length (prec_text p) < 128"
  shows "format_precision vl spec (prec_text p @ r) = Some (Done (vl, spec @ prec_text p, r))"
proof (cases p)
  case (Some ds)
  then have "hd0 (ds @ r) \<noteq> 42" using assms digit_classes(3) by (cases ds) auto
  then show ?thesis using Some assms by (simp add: format_precision_def format_number_def scan_digits_block spec_add_def)
qed (use assms in \<open>simp add: format_precision_def\<close>)

lemma format_spec_at:
  assumes "args_at vl (width_args w @ a # args)" "wf_item (Conv fl w p ms c a)" "length (item_spec (Conv fl w p ms c a)) < 128"
  shows "\<exists>vl'. format_spec env vl (fl @ width_text w @ prec_text p @ ms @ c # r) =
                 Some (Done (vl', r, pe_printf env (item_spec (Conv fl w p ms c a)) a)) \<and> args_at vl' args"
proof -
  have wf: "list_all flag_char fl" "wf_width w" "case p of None \<Rightarrow> True | Some ds \<Rightarrow> list_all is_digit ds" "list_all mod_char ms"
    "conv_type ms c \<noteq> None" "conv_type ms c = Some (type_of a)" "plain_string a" using assms(2) by auto
  note rest = mods_rest [OF wf(4,5), of r] prec_rest [OF wf(4,5), of p r] width_rest [OF wf(4,5,2), of p r]
  have len: "Suc (length fl) + length (width_digits w) + length (prec_text p) + length ms + 1 < 128" using assms(3) by simp
  have "scan_flags (fl @ width_text w @ prec_text p @ ms @ c # r) = Some (fl, width_text w @ prec_text p @ ms @ c # r)"
    using wf(1) rest by (intro scan_flags_block) auto
  moreover obtain vl1 where 1: "format_number vl (37 # fl) (width_text w @ prec_text p @ ms @ c # r) =
      Some (Done (vl1, (37 # fl) @ width_digits w, prec_text p @ ms @ c # r))" "args_at vl1 (a # args)"
    using format_number_at [OF assms(1) wf(2), of "prec_text p @ ms @ c # r" "37 # fl"] rest len by auto
  moreover have "format_precision vl1 (37 # fl @ width_digits w) (prec_text p @ ms @ c # r) =
      Some (Done (vl1, (37 # fl @ width_digits w) @ prec_text p, ms @ c # r))"
    using wf(3) rest len by (intro format_precision_at) auto
  moreover obtain vl2 where "binlog_va_arg (type_of a) vl1 = Some (Done (a, vl2))" "args_at vl2 args" using va_arg_next [OF 1(2) wf(7)] by blast
  moreover have "scan_mods (ms @ c # r) = Done (ms, c # r)" "takeWhile mod_char (ms @ c # r) = ms"
    using wf(4) conv_type_char(2) [OF wf(5)] by (auto intro: scan_mods_block simp: takeWhile_block)
  ultimately show ?thesis using wf(6) len by (auto simp: format_spec_def format_conversion_def spec_add_def spec_str_def)
qed

lemma print_format_at:
  assumes "args_at vl (args_of items @ args)" "list_all wf_item items" "list_all (\<lambda>i. length (item_spec i) < 128) items"
    and "c_printf env items = Some t" "0 \<le> tot" "tot + int (length t) \<le> INT_MAX"
  shows "print_format env vl (fmt_of items) out tot = Some (Done (tot + int (length t), out @ t))"
  using assms
proof (induction items arbitrary: vl out tot t)
  case Nil
  then show ?case by (simp add: print_format.simps)
next
  case (Cons i items)
  then obtain u v where uv: "item_out env i = Some u" "c_printf env items = Some v" "t = u @ v" by (auto simp: bind_eq_Some_conv)
  have ok: "int_result (tot + int (length u)) = Some (tot + int (length u))" using Cons.prems(5,6) uv(3) by (simp add: int_result_def int_limits)
  show ?case
  proof (cases i)
    case (Lit c)
    then show ?thesis using Cons.IH [of vl v "tot + 1" "out @ [c]"] Cons.prems uv ok by (subst print_format.simps) auto
  next
    case (Conv fl w p ms c a)
    obtain vl1 where 1: "format_spec env vl (fl @ width_text w @ prec_text p @ ms @ c # fmt_of items) = Some (Done (vl1, fmt_of items, Some u))"
      "args_at vl1 (args_of items @ args)"
      using format_spec_at [of vl w a "args_of items @ args" fl p ms c env "fmt_of items"] Cons.prems Conv uv(1) by auto
    show ?thesis using Cons.IH [OF 1(2), of v "tot + int (length u)" "out @ u"] Cons.prems Conv 1(1) uv ok
      by (subst print_format.simps) auto
  qed
qed

section \<open>The loop over the records\<close>

text \<open>
  A loop that takes one record per round from a state in which a list of records is pending, and stops when none is left.
\<close>

locale record_loop =
  fixes step :: "'s \<Rightarrow> 's run option" and stop :: "'s \<Rightarrow> bool" and loop :: "'s \<Rightarrow> 's run option"
    and pending :: "'s \<Rightarrow> 'r list \<Rightarrow> bool" and emitted :: "'s \<Rightarrow> 'o list" and emit :: "'r \<Rightarrow> 'o list"
  assumes loop_unfold: "loop s = andthen (step s) (\<lambda>s. if stop s then Some (Done s) else loop s)"
    and step_pending: "pending s (r # rs) \<Longrightarrow> \<exists>s'. step s = Some (Done s') \<and> pending s' rs \<and> emitted s' = emitted s @ emit r"
    and stop_pending: "pending s rs \<Longrightarrow> stop s \<longleftrightarrow> rs = []"
begin

lemma loop_all:
  "pending s (r # rs) \<Longrightarrow> \<exists>s'. loop s = Some (Done s') \<and> pending s' [] \<and> emitted s' = emitted s @ concat (map emit (r # rs))"
proof (induction rs arbitrary: s r)
  case Nil
  then show ?case using step_pending [OF Nil] stop_pending by (subst loop_unfold) auto
next
  case (Cons q rs)
  obtain s1 where 1: "step s = Some (Done s1)" "pending s1 (q # rs)" "emitted s1 = emitted s @ emit r" using step_pending [OF Cons.prems] by blast
  moreover have "\<not> stop s1" using stop_pending [OF 1(2)] by simp
  ultimately show ?case using Cons.IH [OF 1(2)] by (subst loop_unfold) auto
qed

end

text \<open>The calls of the logging function, their records and the lines the parser makes of them.\<close>

record log_call =
  lc_level :: "32 word"
  lc_func :: "byte list"
  lc_line :: "32 word"
  lc_thread :: "64 word"
  lc_ts :: "int \<times> int"
  lc_items :: "fitem list"

definition call_bytes :: "log_call \<Rightarrow> byte list" where
  "call_bytes c =
     record_bytes (lc_level c) (lc_func c) (lc_line c) (lc_thread c) (word_of_int (timespec_us (lc_ts c))) (args_of (lc_items c))"

definition call_time :: "parse_env \<Rightarrow> log_call \<Rightarrow> int" where
  "call_time env c = timespec_us (lc_ts c) + clock_diff (pe_realtime env) (pe_monotonic env)"

definition call_line :: "parse_env \<Rightarrow> log_call \<Rightarrow> byte list option" where
  "call_line env c =
     do { time \<leftarrow> timestamp_fmt env (call_time env c);
          message \<leftarrow> c_printf env (lc_items c);
          Some (time @ ascii '' '' @ binlog_level_name (uint (lc_level c) mod 256) @ ascii '' '' @ pe_ptr env (lc_thread c) @ ascii '' '' @ message @
                ascii '' ['' @ lc_func c @ ascii '':'' @ dec_int (sint (lc_line c)) @ ascii '']'' @ [10]) }"

definition call_text :: "parse_env \<Rightarrow> log_call \<Rightarrow> byte list" where
  "call_text env c = (case call_line env c of None \<Rightarrow> [] | Some l \<Rightarrow> l)"

definition call_ok :: "parse_env \<Rightarrow> fmt_entry list \<Rightarrow> log_call \<Rightarrow> bool" where
  "call_ok env json c \<longleftrightarrow>
     list_all wf_item (lc_items c) \<and> list_all (\<lambda>i. length (item_spec i) < 128) (lc_items c) \<and> log_fits (lc_func c) (args_of (lc_items c)) \<and>
     0 \<le> timespec_us (lc_ts c) \<and> timespec_us (lc_ts c) < 2 ^ 63 \<and>
     format_fetch json (lc_func c) (sint (lc_line c)) = Some (Some (fmt_of (lc_items c))) \<and>
     (case c_printf env (lc_items c) of None \<Rightarrow> False | Some t \<Rightarrow> int (length t) \<le> INT_MAX) \<and> timestamp_fmt env (call_time env c) \<noteq> None"

text \<open>The fields of a record, at the offsets the parser computes.\<close>

lemma record_reads:
  assumes "0 \<notin> set func"
  shows "get_u32 (record_bytes level func line thread now args @ r) 1 = Some (of_nat (record_length func args))"
    and "at_index (record_bytes level func line thread now args @ r) 5 = Some (ucast level)"
    and "string_at (record_bytes level func line thread now args @ r) 6 = Some func"
    and "get_u32 (record_bytes level func line thread now args @ r) (7 + length func) = Some line"
    and "get_u64 (record_bytes level func line thread now args @ r) (11 + length func) = Some thread"
    and "get_u64 (record_bytes level func line thread now args @ r) (19 + length func) = Some now"
proof -
  let ?L = "u32_bytes (of_nat (record_length func args))" and ?e = "args_bytes args @ [BLOG_END] @ r"
  have e: "record_bytes level func line thread now args @ r =
      [BLOG_BEGIN] @ ?L @ [ucast level] @ func @ [0] @ u32_bytes line @ u64_bytes thread @ u64_bytes now @ ?e"
    by (simp add: record_bytes_def record_fields_def del: le_bytes.simps)
  show "get_u32 (record_bytes level func line thread now args @ r) 1 = Some (of_nat (record_length func args))"
    using get_u32_at [of "[BLOG_BEGIN]" "of_nat (record_length func args)"] unfolding e by simp
  show "at_index (record_bytes level func line thread now args @ r) 5 = Some (ucast level)"
    using at_index_middle [of "[BLOG_BEGIN] @ ?L" "ucast level"] unfolding e by (simp del: le_bytes.simps)
  show "string_at (record_bytes level func line thread now args @ r) 6 = Some func"
    using string_at_terminated [OF assms, of "[BLOG_BEGIN] @ ?L @ [ucast level]"] unfolding e by (simp del: le_bytes.simps)
  show "get_u32 (record_bytes level func line thread now args @ r) (7 + length func) = Some line"
    using get_u32_at [of "[BLOG_BEGIN] @ ?L @ [ucast level] @ func @ [0]" line] unfolding e by (simp del: le_bytes.simps)
  show "get_u64 (record_bytes level func line thread now args @ r) (11 + length func) = Some thread"
    using get_u64_at [of "[BLOG_BEGIN] @ ?L @ [ucast level] @ func @ [0] @ u32_bytes line" thread] unfolding e by (simp del: le_bytes.simps add: add.commute)
  show "get_u64 (record_bytes level func line thread now args @ r) (19 + length func) = Some now"
    using get_u64_at [of "[BLOG_BEGIN] @ ?L @ [ucast level] @ func @ [0] @ u32_bytes line @ u64_bytes thread" now]
    unfolding e by (simp del: le_bytes.simps add: add.commute)
qed

lemma record_args_at:
  assumes "record_length func args \<le> LOG_LIMIT"
  shows "args_at \<lparr>vl_len = int (record_length func args), vl_off = 27 + int (length func),
                  vl_buf = record_bytes level func line thread now args @ r\<rparr> args"
  unfolding args_at_def
proof (intro exI conjI)
  show "vl_buf \<lparr>vl_len = int (record_length func args), vl_off = 27 + int (length func), vl_buf = record_bytes level func line thread now args @ r\<rparr> =
      (BLOG_BEGIN # u32_bytes (of_nat (record_length func args)) @ record_fields level func line thread now) @ args_bytes args @ ([BLOG_END] @ r)"
    by (simp add: record_bytes_def del: le_bytes.simps)
qed (use assms in \<open>auto simp: length_record_fields record_length_def LOG_LIMIT_def\<close>)

lemma sint_time:
  assumes "0 \<le> us" "us < 2 ^ 63"
  shows "sint (word_of_int us :: 64 word) = us"
proof -
  have "- 9223372036854775808 \<le> us" using assms(1) by linarith
  then show ?thesis using assms by (simp add: sint_uint uint_word_of_int_eq take_bit_int_eq_self signed_take_bit_int_eq_self_iff)
qed

lemma parse_record_at:
  assumes "drop (nat (bp_offset p)) (bp_buf p) = call_bytes c @ r" "call_ok env (bp_json p) c"
    and "0 \<le> bp_offset p" "bp_offset p + int (length (call_bytes c)) \<le> INT_MAX"
  shows "parse_record env p (int (length (call_bytes c))) =
     Some (Done (p\<lparr>bp_out := bp_out p @ call_text env c, bp_offset := bp_offset p + int (length (call_bytes c))\<rparr>))"
proof -
  let ?f = "lc_func c" and ?a = "args_of (lc_items c)" and ?n = "word_of_int (timespec_us (lc_ts c)) :: 64 word"
  have ok: "list_all wf_item (lc_items c)" "list_all (\<lambda>i. length (item_spec i) < 128) (lc_items c)" "0 \<notin> set ?f"
      "record_length ?f ?a \<le> LOG_LIMIT" "format_fetch (bp_json p) ?f (sint (lc_line c)) = Some (Some (fmt_of (lc_items c)))" "sint ?n = timespec_us (lc_ts c)"
    using assms(2) sint_time by (auto simp: call_ok_def log_fits_def)
  obtain t time where t: "c_printf env (lc_items c) = Some t" "int (length t) \<le> INT_MAX" "timestamp_fmt env (call_time env c) = Some time"
    using assms(2) by (auto simp: call_ok_def split: option.splits)
  have len: "length (call_bytes c) = record_length ?f ?a" by (simp add: call_bytes_def length_record_bytes)
  have pf: "print_format env \<lparr>vl_len = int (record_length ?f ?a), vl_off = 27 + int (length ?f), vl_buf = call_bytes c @ r\<rparr> (fmt_of (lc_items c)) out 0 =
      Some (Done (int (length t), out @ t))" for out
    using print_format_at [OF _ ok(1,2) t(1), of _ "[]" 0 out] record_args_at [OF ok(4)] t(2) by (simp add: call_bytes_def)
  have level: "uint (ucast (lc_level c) :: byte) = uint (lc_level c) mod 256" by (simp add: unsigned_ucast_eq take_bit_eq_mod)
  have off: "int_result (bp_offset p + int (record_length ?f ?a)) = Some (bp_offset p + int (record_length ?f ?a))"
    using assms(3,4) len by (simp add: int_result_def int_limits)
  note reads = record_reads(2-) [OF ok(3), of "lc_level c" "lc_line c" "lc_thread c" ?n ?a r, folded call_bytes_def]
  show ?thesis using assms(1) t(3)
    by (simp add: parse_record_def len reads pf level off ok(5,6) call_text_def call_line_def t(1) call_time_def)
qed

text \<open>All of the file has been read, and the records of the calls are still in the buffer.\<close>

definition parser_at :: "parse_env \<Rightarrow> binlog_parser_t \<Rightarrow> log_call list \<Rightarrow> bool" where
  "parser_at env p calls \<longleftrightarrow>
     list_all (call_ok env (bp_json p)) calls \<and> bp_file_offset p = bp_file_size p \<and> 0 \<le> bp_offset p \<and> bp_offset p \<le> int (length (bp_buf p)) \<and>
     (\<exists>r. drop (nat (bp_offset p)) (bp_buf p) = concat (map call_bytes calls) @ r) \<and>
     bp_read_size p = bp_offset p + int (length (concat (map call_bytes calls))) \<and> bp_read_size p \<le> INT_MAX"

lemma get_u32_drop: "off \<le> length buf \<Longrightarrow> get_u32 buf (off + k) = get_u32 (drop off buf) k"
  by (auto simp: get_u32_def get_bytes_def add.commute)

lemma call_bytes_pos: "0 < int (length (call_bytes c))"
  by (simp add: call_bytes_def record_bytes_def)

lemma calls_bytes_Nil: "concat (map call_bytes calls) = [] \<longleftrightarrow> calls = []"
  using call_bytes_pos by (cases calls) auto

lemma parse_step_at:
  assumes "parser_at env p (c # calls)"
  shows "\<exists>p'. parse_step env p = Some (Done p') \<and> parser_at env p' calls \<and> bp_out p' = bp_out p @ call_text env c"
proof -
  let ?len = "length (call_bytes c)"
  from assms obtain r where p: "call_ok env (bp_json p) c" "list_all (call_ok env (bp_json p)) calls" "bp_file_offset p = bp_file_size p"
      "0 \<le> bp_offset p" "bp_offset p \<le> int (length (bp_buf p))" "drop (nat (bp_offset p)) (bp_buf p) = call_bytes c @ concat (map call_bytes calls) @ r"
      "bp_read_size p = bp_offset p + int (?len + length (concat (map call_bytes calls)))" "bp_read_size p \<le> INT_MAX"
    unfolding parser_at_def by auto
  have func: "0 \<notin> set (lc_func c)" "?len \<le> LOG_LIMIT"
    using p(1) by (auto simp: call_ok_def log_fits_def call_bytes_def length_record_bytes)
  then have word: "unat (of_nat ?len :: 32 word) = ?len" by (simp add: unat_of_nat32 LOG_LIMIT_def)
  then have len: "sint (of_nat ?len :: 32 word) = int ?len"
    using func(2) sint_small [of "of_nat ?len"] arg_cong [OF word, of int] by (simp add: word_less_nat_alt LOG_LIMIT_def)
  have "get_u32 (bp_buf p) (nat (bp_offset p) + 1) = Some (of_nat ?len)"
    using record_reads(1) [OF func(1)] p(4-6) get_u32_drop [of "nat (bp_offset p)" "bp_buf p" 1] by (simp add: call_bytes_def length_record_bytes)
  moreover have "bp_offset p \<noteq> bp_read_size p" using p(7) call_bytes_pos [of c] by linarith
  moreover have "int_result (int ?len + bp_offset p) = Some (int ?len + bp_offset p)" using p(4,7,8) by (simp add: int_result_def int_limits)
  moreover have "\<not> bp_read_size p < int ?len + bp_offset p" using p(7) by simp
  moreover have "parse_record env p (int ?len) = Some (Done (p\<lparr>bp_out := bp_out p @ call_text env c, bp_offset := bp_offset p + int ?len\<rparr>))"
    using p by (intro parse_record_at) auto
  moreover have "drop (nat (bp_offset p + int ?len)) (bp_buf p) = concat (map call_bytes calls) @ r"
  proof -
    have "drop (nat (bp_offset p + int ?len)) (bp_buf p) = drop ?len (drop (nat (bp_offset p)) (bp_buf p))" using p(4) by (simp add: nat_add_distrib add.commute)
    then show ?thesis unfolding p(6) by simp
  qed
  moreover have "?len \<le> length (drop (nat (bp_offset p)) (bp_buf p))" unfolding p(6) by simp
  ultimately show ?thesis using p(2-5,7,8) len by (auto simp: parse_step_def parser_at_def)
qed

interpretation bp: record_loop "parse_step env" parse_done "binlog_prase env" "parser_at env" bp_out "call_text env" for env
proof
  show "binlog_prase env p = andthen (parse_step env p) (\<lambda>p. if parse_done p then Some (Done p) else binlog_prase env p)" for p
    by (subst binlog_prase.simps) (auto simp: andthen_def split: bind_split option.splits run.splits)
  show "parser_at env p (c # calls) \<Longrightarrow> \<exists>p'. parse_step env p = Some (Done p') \<and> parser_at env p' calls \<and> bp_out p' = bp_out p @ call_text env c" for p c calls
    by (rule parse_step_at)
  show "parser_at env p calls \<Longrightarrow> parse_done p \<longleftrightarrow> calls = []" for p calls
    using calls_bytes_Nil [of calls] by (auto simp: parser_at_def parse_done_def)
qed

end
