(* ===== verification/Binlog_Main.thy ===== *)
theory Binlog_Main
  imports Binlog_Parser
begin

text \<open>
  The rest of \<^verbatim>\<open>src/binlog/binlog_parser.c\<close>: opening and closing the files, the options and \<^verbatim>\<open>main\<close>, and the writer and the parser together.
  \<^verbatim>\<open>getopt\<close>, the system calls and \<^verbatim>\<open>cJSON_Parse\<close> are arguments.
\<close>

section \<open>Opening and closing\<close>

text \<open>
  The results of the system calls: a descriptor or the negated error number, whether \<^verbatim>\<open>fopen\<close> succeeds, the sizes that \<^verbatim>\<open>stat\<close> gives
  (\<open>None\<close> when it fails), the text read from the file of formats (\<open>None\<close> when \<^verbatim>\<open>read\<close> fails), the block of \<^verbatim>\<open>malloc\<close>, the log file.
\<close>

record parser_results =
  pr_fd :: int
  pr_out_ok :: bool
  pr_errno :: int
  pr_json_fd :: int
  pr_json_stat :: "int option"
  pr_json_text :: "byte list option"
  pr_block :: "byte list option"
  pr_stat :: "int option"
  pr_file :: "byte list"

definition ENAMETOOLONG :: int where
  "ENAMETOOLONG = 36"

text \<open>The size is returned as an \<^verbatim>\<open>int32_t\<close>.\<close>

definition binlog_file_size :: "int option \<Rightarrow> int" where
  "binlog_file_size st = (case st of None \<Rightarrow> - 1 | Some n \<Rightarrow> sint (word_of_int n :: 32 word))"

definition close_held :: "binlog_parser_t \<Rightarrow> int \<Rightarrow> binlog_parser_t" where
  "close_held p fd = p\<lparr>bp_held := (bp_held p)\<lparr>held_fds := held_fds (bp_held p) - {fd}\<rparr>\<rparr>"

definition hold_fd :: "binlog_parser_t \<Rightarrow> int \<Rightarrow> binlog_parser_t" where
  "hold_fd p fd = p\<lparr>bp_held := (bp_held p)\<lparr>held_fds := insert fd (held_fds (bp_held p))\<rparr>\<rparr>"

text \<open>
  \<open>cJSON_Parse\<close> is the list of the entries of the array in a text.  A failed \<^verbatim>\<open>read\<close> is not reported, and the descriptor is not closed.
\<close>

definition binlog_read_json :: "(byte list \<Rightarrow> fmt_entry list) \<Rightarrow> parser_results \<Rightarrow> binlog_parser_t \<Rightarrow> int \<times> binlog_parser_t" where
  "binlog_read_json cJSON_Parse r p =
     (if pr_json_fd r < 0 then (pr_json_fd r, p)
      else let p = hold_fd p (pr_json_fd r) in
        if binlog_file_size (pr_json_stat r) \<le> 0 then (- 1, p)
        else (0, case pr_json_text r of
               None \<Rightarrow> p
             | Some t \<Rightarrow> p\<lparr>bp_json := cJSON_Parse t, bp_held := (bp_held p)\<lparr>held_json := True\<rparr>\<rparr>))"

definition PARSER_BUF_SIZE :: nat where
  "PARSER_BUF_SIZE = 2 ^ 22"

text \<open>Reading into the block \<^verbatim>\<open>NULL\<close> fails, and so does the assertion behind it.\<close>

definition binlog_parser_create ::
  "(byte list \<Rightarrow> fmt_entry list) \<Rightarrow> parser_results \<Rightarrow> binlog_parser_t \<Rightarrow> byte list \<Rightarrow> (int \<times> binlog_parser_t) run option" where
  "binlog_parser_create cJSON_Parse r p name =
     (if 128 \<le> length (LOG_DIR @ name) then Some (Done (- ENAMETOOLONG, p))
      else if pr_fd r < 0 then Some (Done (pr_fd r, p\<lparr>bp_fd := pr_fd r\<rparr>))
      else let p = hold_fd (p\<lparr>bp_fd := pr_fd r\<rparr>) (pr_fd r) in
        if \<not> pr_out_ok r then Some (Done (- pr_errno r, close_held p (bp_fd p)))
        else let (rc, p) = binlog_read_json cJSON_Parse r (p\<lparr>bp_held := (bp_held p)\<lparr>held_out := True\<rparr>\<rparr>) in
          if rc \<noteq> 0 then Some (Done (rc, p))
          else let p = p\<lparr>bp_offset := 0, bp_size := int PARSER_BUF_SIZE, bp_file_size := binlog_file_size (pr_stat r),
                         bp_held := (bp_held p)\<lparr>held_buf := pr_block r \<noteq> None\<rparr>\<rparr> in
            if bp_file_size p < 0
            then Some (Done (- pr_errno r, close_held (p\<lparr>bp_held := (bp_held p)\<lparr>held_out := False, held_json := False\<rparr>\<rparr>) (bp_fd p)))
            else (case pr_block r of
              None \<Rightarrow> Some Aborted
            | Some blk \<Rightarrow>
                andthen (binlog_parse_read (p\<lparr>bp_buf := blk, bp_file := pr_file r, bp_pos := 0, bp_file_offset := 0\<rparr>)) (\<lambda>p. Some (Done (0, p)))))"

definition binlog_parser_destroy :: "binlog_parser_t \<Rightarrow> binlog_parser_t" where
  "binlog_parser_destroy p = close_held (p\<lparr>bp_held := (bp_held p)\<lparr>held_buf := False, held_json := False\<rparr>\<rparr>) (bp_fd p)"

section \<open>The program\<close>

text \<open>
  What \<^verbatim>\<open>getopt\<close> returns before \<open>-1\<close>: an option letter, or \<^verbatim>\<open>?\<close>, with the value of \<^verbatim>\<open>optarg\<close>.  The result of the loop is the three variables, or
  \<open>None\<close> when the program prints its usage and exits.
\<close>

type_synonym parser_opts = "byte list option \<times> byte list option \<times> byte list option"

fun main_options :: "(byte \<times> byte list option) list \<Rightarrow> parser_opts \<Rightarrow> parser_opts option" where
  "main_options [] opts = Some opts"
| "main_options ((c, optarg) # gs) (name, outp, json) =
     (if c = 102 then main_options gs (optarg, outp, json)
      else if c = 111 then main_options gs (name, optarg, json)
      else if c = 106 then main_options gs (name, outp, optarg)
      else None)"

definition usage :: "byte list" where
  "usage = ascii ''Usage: binlog_parser -f [BINLOG_FILE] -o [OUTPUT] -j [FORMAT_JSON]'' @ [10] @
     [9] @ ascii '' -f enter a binary file name'' @ [10] @
     [9] @ ascii '' -o output the filename after parsing'' @ [10] @
     [9] @ ascii '' -j formatting json file'' @ [10, 10]"

text \<open>\<^verbatim>\<open>main\<close>: the exit value, what is printed on the terminal, and the parser at the end.  The state starts zeroed.\<close>

definition parser_zero :: binlog_parser_t where
  "parser_zero = \<lparr>bp_file = [], bp_pos = 0, bp_out = [], bp_buf = [], bp_json = [], bp_size = 0, bp_read_size = 0, bp_offset = 0,
     bp_file_offset = 0, bp_file_size = 0, bp_fd = 0, bp_held = \<lparr>held_fds = {}, held_out = False, held_buf = False, held_json = False\<rparr>\<rparr>"

definition parser_main ::
  "parse_env \<Rightarrow> (byte list \<Rightarrow> fmt_entry list) \<Rightarrow> parser_results \<Rightarrow> (byte \<times> byte list option) list \<Rightarrow> (int \<times> byte list \<times> binlog_parser_t) run option" where
  "parser_main env cJSON_Parse r gs =
     (case main_options gs (None, None, None) of
        Some (Some name, Some outp, Some json) \<Rightarrow>
          andthen (binlog_parser_create cJSON_Parse r parser_zero name) (\<lambda>(rc, p).
            if rc \<noteq> 0 then Some (Done (rc, [], p))
            else andthen (binlog_prase env p) (\<lambda>p. Some (Done (0, [], binlog_parser_destroy p))))
      | _ \<Rightarrow> Some (Done (- 1, usage, parser_zero)))"

section \<open>Writer and parser together\<close>

lemma parse_read_first:
  assumes "bp_file_offset p = 0" "bp_pos p = 0" "bp_file p = file" "file \<noteq> []" "length file \<le> nat (bp_size p)" "length file \<le> length (bp_buf p)"
    and "int (length file) \<le> INT_MAX"
  shows "binlog_parse_read p = Some (Done (p\<lparr>bp_buf := file @ drop (length file) (bp_buf p), bp_pos := length file,
     bp_file_offset := int (length file), bp_read_size := int (length file), bp_offset := 0\<rparr>))"
proof -
  have "0 < bp_size p" using assms(4,5) by (cases "bp_size p \<le> 0") auto
  then show ?thesis using assms by (simp add: binlog_parse_read_def move_front_def put_bytes_def int_result_def int_limits)
qed

text \<open>The loop leaves the descriptor and what is held as they are.\<close>

definition same_holdings :: "binlog_parser_t \<Rightarrow> binlog_parser_t \<Rightarrow> bool" where
  "same_holdings p p' \<longleftrightarrow> bp_fd p' = bp_fd p \<and> bp_held p' = bp_held p"

lemma parse_read_keeps: "binlog_parse_read p = Some (Done p') \<Longrightarrow> same_holdings p p'"
  by (auto simp: binlog_parse_read_def Let_def bind_eq_Some_conv same_holdings_def split: if_splits)

lemma parse_record_keeps: "parse_record env p len = Some (Done p') \<Longrightarrow> same_holdings p p'"
  by (auto simp: parse_record_def Let_def andthen_Done bind_eq_Some_conv same_holdings_def)

lemma parse_step_keeps:
  assumes "parse_step env p = Some (Done p')"
  shows "same_holdings p p'"
proof -
  have refill: "same_holdings q q'" if "(if b then binlog_parse_read q else Some (Done q)) = Some (Done q')" for b q q'
    using that parse_read_keeps by (cases b) (auto simp: same_holdings_def)
  from assms obtain p1 p2 len where "(if bp_offset p = bp_read_size p then binlog_parse_read p else Some (Done p)) = Some (Done p1)"
    "(if bp_read_size p1 < len then binlog_parse_read p1 else Some (Done p1)) = Some (Done p2)"
    "\<exists>n. parse_record env p2 n = Some (Done p')"
    unfolding parse_step_def andthen_Done bind_eq_Some_conv by blast
  with refill parse_record_keeps show ?thesis unfolding same_holdings_def by metis
qed

lemma binlog_prase_keeps: "binlog_prase env p = Some r \<Longrightarrow> (case r of Aborted \<Rightarrow> True | Done p' \<Rightarrow> same_holdings p p')"
proof (induction rule: binlog_prase.raw_induct [rotated, consumes 1])
  case (1 loop env p r)
  then obtain r1 where r1: "parse_step env p = Some r1" "(case r1 of Aborted \<Rightarrow> Some Aborted | Done p \<Rightarrow> if parse_done p then Some (Done p) else loop env p) = Some r"
    by (auto simp: bind_eq_Some_conv)
  show ?case
  proof (cases r1)
    case (Done p1)
    with r1 have "same_holdings p p1" by (simp add: parse_step_keeps)
    moreover have "case r of Aborted \<Rightarrow> True | Done p' \<Rightarrow> same_holdings p1 p'"
      using r1(2) Done "1.IH" [of env p1 r] by (auto simp: same_holdings_def split: if_splits run.splits)
    ultimately show ?thesis by (auto simp: same_holdings_def split: run.splits)
  qed (use r1 in auto)
qed

lemma binlog_file_size_small: "0 \<le> n \<Longrightarrow> n < 2 ^ 31 \<Longrightarrow> binlog_file_size (Some n) = n"
  by (simp add: binlog_file_size_def signed_of_int signed_take_bit_int_eq_self)

lemma parser_main_calls:
  assumes "calls \<noteq> []" "list_all (call_ok env (cJSON_Parse t)) calls" "pr_file r = concat (map call_bytes calls)"
    and "length (pr_file r) \<le> PARSER_BUF_SIZE" "pr_stat r = Some (int (length (pr_file r)))" "pr_block r = Some blk" "length blk = PARSER_BUF_SIZE"
    and "pr_fd r \<ge> 0" "pr_out_ok r" "pr_json_fd r \<ge> 0" "pr_json_stat r = Some n" "0 < n" "n < 2 ^ 31" "pr_json_text r = Some t"
    and "length (LOG_DIR @ name) < 128" "main_options gs (None, None, None) = Some (Some name, Some outp, Some json)"
  shows "\<exists>p. parser_main env cJSON_Parse r gs = Some (Done (0, [], p)) \<and> bp_out p = concat (map (call_text env) calls) \<and>
    bp_held p = \<lparr>held_fds = {pr_json_fd r} - {pr_fd r}, held_out = True, held_buf = False, held_json = False\<rparr>"
proof -
  let ?file = "concat (map call_bytes calls)" and ?held = "\<lparr>held_fds = {pr_json_fd r, pr_fd r}, held_out = True, held_buf = True, held_json = True\<rparr>"
  let ?p = "parser_zero\<lparr>bp_json := cJSON_Parse t, bp_size := int PARSER_BUF_SIZE, bp_file_size := int (length ?file), bp_buf := ?file @ drop (length ?file) blk,
    bp_file := ?file, bp_pos := length ?file, bp_file_offset := int (length ?file), bp_read_size := int (length ?file), bp_fd := pr_fd r, bp_held := ?held\<rparr>"
  have fits: "length ?file \<le> 2 ^ 22" "length blk = 2 ^ 22" using assms(3,4,7) by (auto simp: PARSER_BUF_SIZE_def)
  have ne: "?file \<noteq> []" using assms(1) calls_bytes_Nil by blast
  have size: "binlog_file_size (pr_stat r) = int (length ?file)" "binlog_file_size (pr_json_stat r) = n"
    using assms(3,5,11-13) fits by (simp_all add: binlog_file_size_small)
  let ?q = "parser_zero\<lparr>bp_json := cJSON_Parse t, bp_offset := 0, bp_size := int PARSER_BUF_SIZE, bp_file_size := int (length ?file), bp_buf := blk,
    bp_file := ?file, bp_pos := 0, bp_file_offset := 0, bp_fd := pr_fd r, bp_held := ?held\<rparr>"
  have "binlog_parse_read ?q = Some (Done ?p)"
    using parse_read_first [of ?q ?file] ne fits by (simp add: PARSER_BUF_SIZE_def INT_MAX_def parser_zero_def del: concat_eq_Nil_conv)
  then have "binlog_parser_create cJSON_Parse r parser_zero name = Some (Done (0, ?p))"
    using assms size by (simp add: binlog_parser_create_def binlog_read_json_def Let_def hold_fd_def parser_zero_def)
  moreover have "parser_at env ?p calls" using assms(2) fits by (auto simp: parser_at_def parser_zero_def INT_MAX_def)
  then obtain p' where "binlog_prase env ?p = Some (Done p')" "bp_out p' = bp_out ?p @ concat (map (call_text env) calls)"
    using bp.loop_all [of env ?p "hd calls" "tl calls"] assms(1) by auto
  moreover from binlog_prase_keeps [OF this(1)] have "bp_held p' = ?held" "bp_fd p' = pr_fd r" by (simp_all add: same_holdings_def)
  ultimately show ?thesis using assms(16)
    by (auto simp: parser_main_def parser_zero_def binlog_parser_destroy_def close_held_def)
qed

text \<open>A thread that logs a sequence of calls; the results of \<^verbatim>\<open>pthread_self\<close> and of the clock are part of the calls.\<close>

fun log_calls :: "blog_sys \<Rightarrow> allocator \<Rightarrow> byte list \<Rightarrow> nat \<Rightarrow> tsd_binlog_t \<Rightarrow> binlog_handle_t option \<Rightarrow> log_call list \<Rightarrow> (blog_sys \<times> tsd_binlog_t) run option" where
  "log_calls sys alloc stack wr tb h [] = Some (Done (sys, tb))"
| "log_calls sys alloc stack wr tb h (c # cs) =
     andthen (binlog_print sys alloc stack (lc_thread c) (lc_ts c) wr tb h (lc_level c) (lc_func c) (lc_line c) (fmt_of (lc_items c)) (args_of (lc_items c)))
       (\<lambda>(sys, tb). log_calls sys alloc stack wr tb h cs)"

lemma log_calls_file:
  assumes "alloc_ok alloc" "length stack = 1024" "LOG_LIMIT \<le> wr" "tb_blocks tb = 0" "list_all (call_ok env json) calls"
    and "bs_fds sys (bh_fd h) = Some path" "bs_files sys path = Some old"
  shows "\<exists>sys' tb'. log_calls sys alloc stack wr tb (Some h) calls = Some (Done (sys', tb')) \<and>
     bs_files sys' = (bs_files sys)(path \<mapsto> old @ concat (map call_bytes calls)) \<and> bs_fds sys' = bs_fds sys \<and> bs_handles sys' = bs_handles sys \<and> tb_blocks tb' = 0"
  using assms(4-)
proof (induction calls arbitrary: sys tb old)
  case (Cons c calls)
  have ok: "list_all wf_item (lc_items c)" "log_fits (lc_func c) (args_of (lc_items c))" using Cons.prems(2) by (auto simp: call_ok_def)
  obtain sys1 tb1 where 1: "binlog_print sys alloc stack (lc_thread c) (lc_ts c) wr tb (Some h) (lc_level c) (lc_func c) (lc_line c)
        (fmt_of (lc_items c)) (args_of (lc_items c)) = Some (Done (sys1, tb1))"
      "bs_files sys1 = (bs_files sys)(path \<mapsto> old @ call_bytes c)" "bs_fds sys1 = bs_fds sys" "bs_handles sys1 = bs_handles sys" "tb_blocks tb1 = 0"
    using binlog_print_holds [OF assms(1,2) Cons.prems(1) ok] Cons.prems(3,4) assms(3) ok(2)
    by (auto simp: append_write_def call_bytes_def length_record_bytes log_fits_def)
  have next1: "list_all (call_ok env json) calls" "bs_fds sys1 (bh_fd h) = Some path" "bs_files sys1 path = Some (old @ call_bytes c)"
    using Cons.prems(2,3) 1(2,3) by simp_all
  obtain sys2 tb2 where "log_calls sys1 alloc stack wr tb1 (Some h) calls = Some (Done (sys2, tb2))"
      "bs_files sys2 = (bs_files sys1)(path \<mapsto> (old @ call_bytes c) @ concat (map call_bytes calls))" "bs_fds sys2 = bs_fds sys1"
      "bs_handles sys2 = bs_handles sys1" "tb_blocks tb2 = 0"
    using Cons.IH [OF 1(5) next1] by blast
  with 1 show ?case by (auto simp: fun_eq_iff)
qed auto


text \<open>A concrete call, with the text of \<^verbatim>\<open>%d\<close> for every conversion.\<close>

definition sample_env :: parse_env where
  "sample_env = \<lparr>pe_printf = (\<lambda>spec a. case a of Arg_Int v \<Rightarrow> Some (dec_int (sint v)) | _ \<Rightarrow> Some []), pe_date = (\<lambda>s. ascii ''D''), pe_ptr = (\<lambda>t. ascii ''P''),
     pe_realtime = (0, 0), pe_monotonic = (0, 0)\<rparr>"

definition sample_call :: log_call where
  "sample_call = \<lparr>lc_level = 3, lc_func = ascii ''f'', lc_line = 10, lc_thread = 5, lc_ts = (2, 3000),
     lc_items = [Lit 110, Lit 61, Conv [] (Digits []) None [] 100 (Arg_Int 6)]\<rparr>"

definition sample_json :: "fmt_entry list" where
  "sample_json = [\<lparr>fe_function = Some (ascii ''f''), fe_line = Some 10, fe_format = Some (ascii ''n=%d'')\<rparr>]"

lemma sample_time: "call_time sample_env sample_call = 2000003" "timestamp_fmt sample_env 2000003 = Some (ascii ''D.003'')"
  by (simp_all add: call_time_def sample_env_def sample_call_def clock_diff_def timespec_us_def signed_divide_int_def signed_modulo_int_def
      timestamp_fmt_def pad3_def dec_nat.simps ascii_def numeral_2_eq_2)

lemma sample_message: "c_printf sample_env (lc_items sample_call) = Some (ascii ''n=6'')"
  by (simp add: sample_env_def sample_call_def dec_int_def dec_nat.simps ascii_def)

lemma sample_line: "call_text sample_env sample_call = ascii ''D.003 INFO P n=6 [f:10]'' @ [10]"
  unfolding call_text_def call_line_def sample_time sample_message
  by (simp add: sample_env_def sample_call_def binlog_level_name_def dec_int_def dec_nat.simps ascii_def)

lemma sample_ok: "call_ok sample_env sample_json sample_call"
  unfolding call_ok_def sample_time sample_message
  by (simp add: sample_call_def sample_json_def INT_MAX_def conv_type_def short_width_def wide_width_def log_fits_def record_length_def LOG_LIMIT_def
      timespec_us_def signed_divide_int_def ascii_def)


end
