(* ===== verification/Rw_Queue.thy ===== *)
theory Rw_Queue
  imports Stq_List Dtq_List
begin

text \<open>
  The queues with a lock of \<^verbatim>\<open>include/list.h\<close>, \<^verbatim>\<open>rwstq\<close> and \<^verbatim>\<open>rwdtq\<close>: a queue together with a \<^verbatim>\<open>pthread_rwlock_t\<close> that every
  operation takes and releases.  The lock of POSIX: any number of readers, or one writer.  Here one thread runs alone, so a call that
  has to wait does not return (\<open>None\<close>); \<^verbatim>\<open>pthread_rwlock_unlock\<close> on a lock that is not held is undefined (\<open>None\<close>).  Several threads are the
  subject of \<open>Rw_Threads\<close>.
\<close>

section \<open>The lock\<close>

record rwlock =
  rl_readers :: nat
  rl_writer :: bool

definition rwlock_free :: rwlock where
  "rwlock_free = \<lparr>rl_readers = 0, rl_writer = False\<rparr>"

text \<open>The locks are in the heads of the queues, so the address of a queue is the address of its lock.\<close>

record 'm rw_mem =
  rw_data :: 'm
  rw_locks :: "addr \<rightharpoonup> rwlock"

definition set_lock :: "'m rw_mem \<Rightarrow> addr \<Rightarrow> rwlock \<Rightarrow> 'm rw_mem" where
  "set_lock m l k = m\<lparr>rw_locks := (rw_locks m)(l \<mapsto> k)\<rparr>"

definition rwlock_rdlock :: "'m rw_mem \<Rightarrow> addr \<Rightarrow> 'm rw_mem option" where
  "rwlock_rdlock m l =
     do { k \<leftarrow> load (rw_locks m) l;
          if rl_writer k then None else Some (set_lock m l (k\<lparr>rl_readers := rl_readers k + 1\<rparr>)) }"

definition rwlock_tryrdlock :: "'m rw_mem \<Rightarrow> addr \<Rightarrow> (bool \<times> 'm rw_mem) option" where
  "rwlock_tryrdlock m l =
     do { k \<leftarrow> load (rw_locks m) l;
          Some (if rl_writer k then (False, m) else (True, set_lock m l (k\<lparr>rl_readers := rl_readers k + 1\<rparr>))) }"

definition rwlock_wrlock :: "'m rw_mem \<Rightarrow> addr \<Rightarrow> 'm rw_mem option" where
  "rwlock_wrlock m l =
     do { k \<leftarrow> load (rw_locks m) l;
          if rl_writer k \<or> 0 < rl_readers k then None else Some (set_lock m l (k\<lparr>rl_writer := True\<rparr>)) }"

definition rwlock_trywrlock :: "'m rw_mem \<Rightarrow> addr \<Rightarrow> (bool \<times> 'm rw_mem) option" where
  "rwlock_trywrlock m l =
     do { k \<leftarrow> load (rw_locks m) l;
          Some (if rl_writer k \<or> 0 < rl_readers k then (False, m) else (True, set_lock m l (k\<lparr>rl_writer := True\<rparr>))) }"

definition rwlock_unlock :: "'m rw_mem \<Rightarrow> addr \<Rightarrow> 'm rw_mem option" where
  "rwlock_unlock m l =
     do { k \<leftarrow> load (rw_locks m) l;
          if rl_writer k then Some (set_lock m l (k\<lparr>rl_writer := False\<rparr>))
          else if 0 < rl_readers k then Some (set_lock m l (k\<lparr>rl_readers := rl_readers k - 1\<rparr>))
          else None }"

definition rwlock_init :: "'m rw_mem \<Rightarrow> addr \<Rightarrow> 'm rw_mem option" where
  "rwlock_init m l = do { _ \<leftarrow> load (rw_locks m) l; Some (set_lock m l rwlock_free) }"

definition rwlock_destroy :: "'m rw_mem \<Rightarrow> addr \<Rightarrow> 'm rw_mem option" where
  "rwlock_destroy m l = do { k \<leftarrow> load (rw_locks m) l; if k = rwlock_free then Some m else None }"

section \<open>Singly linked tail queues with a lock\<close>

type_synonym rwstq_mem = "stq_mem rw_mem"

definition rwstq_read_lock :: "rwstq_mem \<Rightarrow> addr \<Rightarrow> rwstq_mem option" where
  "rwstq_read_lock m node = rwlock_rdlock m node"

definition rwstq_read_trylock :: "rwstq_mem \<Rightarrow> addr \<Rightarrow> (bool \<times> rwstq_mem) option" where
  "rwstq_read_trylock m node = rwlock_tryrdlock m node"

definition rwstq_read_unlock :: "rwstq_mem \<Rightarrow> addr \<Rightarrow> rwstq_mem option" where
  "rwstq_read_unlock m node = rwlock_unlock m node"

definition rwstq_write_lock :: "rwstq_mem \<Rightarrow> addr \<Rightarrow> rwstq_mem option" where
  "rwstq_write_lock m node = rwlock_wrlock m node"

definition rwstq_write_trylock :: "rwstq_mem \<Rightarrow> addr \<Rightarrow> (bool \<times> rwstq_mem) option" where
  "rwstq_write_trylock m node = rwlock_trywrlock m node"

definition rwstq_write_unlock :: "rwstq_mem \<Rightarrow> addr \<Rightarrow> rwstq_mem option" where
  "rwstq_write_unlock m node = rwlock_unlock m node"

definition rwstq_deinit :: "rwstq_mem \<Rightarrow> addr \<Rightarrow> rwstq_mem option" where
  "rwstq_deinit m node = rwlock_destroy m node"

definition rwstq_init :: "rwstq_mem \<Rightarrow> addr \<Rightarrow> rwstq_mem option" where
  "rwstq_init m list = do { d \<leftarrow> stq_init (rw_data m) list; rwlock_init (m\<lparr>rw_data := d\<rparr>) list }"

definition rwstq_is_empty :: "rwstq_mem \<Rightarrow> addr \<Rightarrow> (bool \<times> rwstq_mem) option" where
  "rwstq_is_empty m list =
     do { m \<leftarrow> rwstq_read_lock m list;
          is_empty \<leftarrow> stq_is_empty (rw_data m) list;
          m \<leftarrow> rwstq_read_unlock m list;
          Some (is_empty, m) }"

definition rwstq_add_head :: "rwstq_mem \<Rightarrow> addr \<Rightarrow> addr \<Rightarrow> rwstq_mem option" where
  "rwstq_add_head m list node =
     do { m \<leftarrow> rwstq_write_lock m list;
          d \<leftarrow> stq_add_head (rw_data m) list node;
          rwstq_write_unlock (m\<lparr>rw_data := d\<rparr>) list }"

definition rwstq_del_head :: "rwstq_mem \<Rightarrow> addr \<Rightarrow> (addr \<times> rwstq_mem) option" where
  "rwstq_del_head m list =
     do { m \<leftarrow> rwstq_write_lock m list;
          (node, d) \<leftarrow> stq_del_head (rw_data m) list;
          m \<leftarrow> rwstq_write_unlock (m\<lparr>rw_data := d\<rparr>) list;
          Some (node, m) }"

definition rwstq_add_tail :: "rwstq_mem \<Rightarrow> addr \<Rightarrow> addr \<Rightarrow> rwstq_mem option" where
  "rwstq_add_tail m list node =
     do { m \<leftarrow> rwstq_write_lock m list;
          d \<leftarrow> stq_add_tail (rw_data m) list node;
          rwstq_write_unlock (m\<lparr>rw_data := d\<rparr>) list }"

definition rwstq_del :: "rwstq_mem \<Rightarrow> addr \<Rightarrow> addr \<Rightarrow> rwstq_mem option" where
  "rwstq_del m list node =
     do { m \<leftarrow> rwstq_write_lock m list;
          d \<leftarrow> stq_del (rw_data m) list node;
          rwstq_write_unlock (m\<lparr>rw_data := d\<rparr>) list }"

definition rwstq_free_all :: "(stq_mem \<Rightarrow> addr \<Rightarrow> stq_mem option) \<Rightarrow> rwstq_mem \<Rightarrow> addr \<Rightarrow> rwstq_mem option" where
  "rwstq_free_all free_node m list =
     do { m \<leftarrow> rwstq_write_lock m list;
          d \<leftarrow> stq_free_all free_node (rw_data m) list;
          rwstq_write_unlock (m\<lparr>rw_data := d\<rparr>) list }"

section \<open>Doubly linked tail queues with a lock\<close>

type_synonym rwdtq_mem = "dtq_mem rw_mem"

definition rwdtq_write_lock :: "rwdtq_mem \<Rightarrow> addr \<Rightarrow> rwdtq_mem option" where
  "rwdtq_write_lock m node = rwlock_wrlock m node"

definition rwdtq_write_trylock :: "rwdtq_mem \<Rightarrow> addr \<Rightarrow> (bool \<times> rwdtq_mem) option" where
  "rwdtq_write_trylock m node = rwlock_trywrlock m node"

definition rwdtq_write_unlock :: "rwdtq_mem \<Rightarrow> addr \<Rightarrow> rwdtq_mem option" where
  "rwdtq_write_unlock m node = rwlock_unlock m node"

definition rwdtq_read_lock :: "rwdtq_mem \<Rightarrow> addr \<Rightarrow> rwdtq_mem option" where
  "rwdtq_read_lock m node = rwlock_rdlock m node"

definition rwdtq_read_unlock :: "rwdtq_mem \<Rightarrow> addr \<Rightarrow> rwdtq_mem option" where
  "rwdtq_read_unlock m node = rwlock_unlock m node"

definition rwdtq_deinit :: "rwdtq_mem \<Rightarrow> addr \<Rightarrow> rwdtq_mem option" where
  "rwdtq_deinit m node = rwlock_destroy m node"

definition rwdtq_init :: "rwdtq_mem \<Rightarrow> addr \<Rightarrow> rwdtq_mem option" where
  "rwdtq_init m list = do { d \<leftarrow> dtq_init (rw_data m) list; rwlock_init (m\<lparr>rw_data := d\<rparr>) list }"

definition rwdtq_is_empty :: "rwdtq_mem \<Rightarrow> addr \<Rightarrow> (bool \<times> rwdtq_mem) option" where
  "rwdtq_is_empty m list =
     do { m \<leftarrow> rwdtq_read_lock m list;
          is_empty \<leftarrow> dtq_is_empty (rw_data m) list;
          m \<leftarrow> rwdtq_read_unlock m list;
          Some (is_empty, m) }"

definition rwdtq_is_end :: "rwdtq_mem \<Rightarrow> addr \<Rightarrow> addr \<Rightarrow> (bool \<times> rwdtq_mem) option" where
  "rwdtq_is_end m list node =
     do { m \<leftarrow> rwdtq_read_lock m list;
          is_empty \<leftarrow> dtq_is_end (rw_data m) list node;
          m \<leftarrow> rwdtq_read_unlock m list;
          Some (is_empty, m) }"

definition rwdtq_add_head :: "rwdtq_mem \<Rightarrow> addr \<Rightarrow> addr \<Rightarrow> rwdtq_mem option" where
  "rwdtq_add_head m list node =
     do { m \<leftarrow> rwdtq_write_lock m list;
          d \<leftarrow> dtq_add_head (rw_data m) list node;
          rwdtq_write_unlock (m\<lparr>rw_data := d\<rparr>) list }"

definition rwdta_del_head :: "rwdtq_mem \<Rightarrow> addr \<Rightarrow> (addr \<times> rwdtq_mem) option" where
  "rwdta_del_head m list =
     do { m \<leftarrow> rwdtq_write_lock m list;
          (node, d) \<leftarrow> dta_del_head (rw_data m) list;
          m \<leftarrow> rwdtq_write_unlock (m\<lparr>rw_data := d\<rparr>) list;
          Some (node, m) }"

text \<open>\<^verbatim>\<open>rwdtq_del\<close> does not call \<^verbatim>\<open>dtq_del\<close> but repeats its assignments.\<close>

definition rwdtq_del :: "rwdtq_mem \<Rightarrow> addr \<Rightarrow> addr \<Rightarrow> rwdtq_mem option" where
  "rwdtq_del m list node =
     do { m \<leftarrow> rwdtq_write_lock m list;
          p \<leftarrow> dtq_prev (rw_data m) node;
          n \<leftarrow> dtq_next (rw_data m) node;
          d \<leftarrow> dtq_set_next (rw_data m) p n;
          n \<leftarrow> dtq_next d node;
          p \<leftarrow> dtq_prev d node;
          d \<leftarrow> dtq_set_prev d n p;
          rwdtq_write_unlock (m\<lparr>rw_data := d\<rparr>) list }"

definition rwdtq_add_tail :: "rwdtq_mem \<Rightarrow> addr \<Rightarrow> addr \<Rightarrow> rwdtq_mem option" where
  "rwdtq_add_tail m list node =
     do { m \<leftarrow> rwdtq_write_lock m list;
          d \<leftarrow> dtq_add_tail (rw_data m) list node;
          rwdtq_write_unlock (m\<lparr>rw_data := d\<rparr>) list }"

definition rwdtq_del_tail :: "rwdtq_mem \<Rightarrow> addr \<Rightarrow> (addr \<times> rwdtq_mem) option" where
  "rwdtq_del_tail m list =
     do { m \<leftarrow> rwdtq_write_lock m list;
          (node, d) \<leftarrow> dtq_del_tail (rw_data m) list;
          m \<leftarrow> rwdtq_write_unlock (m\<lparr>rw_data := d\<rparr>) list;
          Some (node, m) }"

definition rwdtq_free_all :: "(dtq_mem \<Rightarrow> addr \<Rightarrow> dtq_mem option) \<Rightarrow> rwdtq_mem \<Rightarrow> addr \<Rightarrow> rwdtq_mem option" where
  "rwdtq_free_all free_node m list =
     do { m \<leftarrow> rwdtq_write_lock m list;
          d \<leftarrow> dtq_free_all free_node (rw_data m) list;
          rwdtq_write_unlock (m\<lparr>rw_data := d\<rparr>) list }"

section \<open>Operations on a free lock\<close>

definition lock_free :: "'m rw_mem \<Rightarrow> addr \<Rightarrow> bool" where
  "lock_free m l \<longleftrightarrow> l \<noteq> NULL \<and> rw_locks m l = Some rwlock_free"

lemma lock_free_data [simp]: "lock_free (m\<lparr>rw_data := d\<rparr>) = lock_free m"
  by (simp add: lock_free_def fun_eq_iff)

text \<open>A free lock is taken and given back; only the data changes in between.\<close>

lemma write_lock_free: "lock_free m l \<Longrightarrow> rwlock_wrlock m l = Some (set_lock m l \<lparr>rl_readers = 0, rl_writer = True\<rparr>)"
  by (simp add: lock_free_def rwlock_wrlock_def rwlock_free_def load_known)

lemma read_lock_free: "lock_free m l \<Longrightarrow> rwlock_rdlock m l = Some (set_lock m l \<lparr>rl_readers = Suc 0, rl_writer = False\<rparr>)"
  by (simp add: lock_free_def rwlock_rdlock_def rwlock_free_def load_known)

lemma write_unlock_free:
  "lock_free m l \<Longrightarrow> rwlock_unlock (set_lock m l \<lparr>rl_readers = 0, rl_writer = True\<rparr>\<lparr>rw_data := d\<rparr>) l = Some (m\<lparr>rw_data := d\<rparr>)"
  by (cases m) (auto simp: lock_free_def rwlock_unlock_def set_lock_def rwlock_free_def load_known fun_eq_iff)

lemma read_unlock_free: "lock_free m l \<Longrightarrow> rwlock_unlock (set_lock m l \<lparr>rl_readers = Suc 0, rl_writer = False\<rparr>) l = Some m"
  by (cases m) (auto simp: lock_free_def rwlock_unlock_def set_lock_def rwlock_free_def load_known fun_eq_iff)

lemma set_lock_data [simp]: "rw_data (set_lock m l k) = rw_data m"
  by (simp add: set_lock_def)

lemmas rwstq_lock_defs = rwstq_read_lock_def rwstq_read_unlock_def rwstq_write_lock_def rwstq_write_unlock_def
lemmas rwdtq_lock_defs = rwdtq_read_lock_def rwdtq_read_unlock_def rwdtq_write_lock_def rwdtq_write_unlock_def
lemmas lock_free_simps = write_lock_free read_lock_free write_unlock_free read_unlock_free

section \<open>A queue with a lock is a queue\<close>

definition locked_repr :: "('m \<Rightarrow> addr \<Rightarrow> addr list \<Rightarrow> bool) \<Rightarrow> 'm rw_mem \<Rightarrow> addr \<Rightarrow> addr list \<Rightarrow> bool" where
  "locked_repr repr m l xs \<longleftrightarrow> lock_free m l \<and> repr (rw_data m) l xs"

definition locked_avail :: "('m \<Rightarrow> addr \<Rightarrow> addr \<Rightarrow> bool) \<Rightarrow> 'm rw_mem \<Rightarrow> addr \<Rightarrow> addr \<Rightarrow> bool" where
  "locked_avail avail m = avail (rw_data m)"

lemma keeps_others_locked:
  "keeps_others repr (rw_data m) d l xs \<Longrightarrow> keeps_others (locked_repr repr) m (m\<lparr>rw_data := d\<rparr>) l xs"
  by (auto simp: keeps_others_def locked_repr_def)

text \<open>
  The interface: on a free lock each operation with a lock does what the operation without it does, and leaves the lock free.  Then the
  contract of queues carries over.
\<close>

locale locked_queue = list_queue repr avail is_empty add_head del_head add_tail
  for repr :: "'m \<Rightarrow> addr \<Rightarrow> addr list \<Rightarrow> bool" and avail is_empty add_head del_head add_tail +
  fixes lis_empty :: "'m rw_mem \<Rightarrow> addr \<Rightarrow> (bool \<times> 'm rw_mem) option"
    and ladd_head :: "'m rw_mem \<Rightarrow> addr \<Rightarrow> addr \<Rightarrow> 'm rw_mem option"
    and ldel_head :: "'m rw_mem \<Rightarrow> addr \<Rightarrow> (addr \<times> 'm rw_mem) option"
    and ladd_tail :: "'m rw_mem \<Rightarrow> addr \<Rightarrow> addr \<Rightarrow> 'm rw_mem option"
  assumes lis_empty_law: "lock_free m l \<Longrightarrow> lis_empty m l = map_option (\<lambda>b. (b, m)) (is_empty (rw_data m) l)"
    and ladd_head_law: "lock_free m l \<Longrightarrow> ladd_head m l x = map_option (\<lambda>d. m\<lparr>rw_data := d\<rparr>) (add_head (rw_data m) l x)"
    and ldel_head_law: "lock_free m l \<Longrightarrow> ldel_head m l = map_option (\<lambda>(x, d). (x, m\<lparr>rw_data := d\<rparr>)) (del_head (rw_data m) l)"
    and ladd_tail_law: "lock_free m l \<Longrightarrow> ladd_tail m l x = map_option (\<lambda>d. m\<lparr>rw_data := d\<rparr>) (add_tail (rw_data m) l x)"

sublocale locked_queue \<subseteq> locked: list_queue "locked_repr repr" "locked_avail avail" "\<lambda>m l. map_option fst (lis_empty m l)" ladd_head ldel_head ladd_tail
proof
  fix m :: "'m rw_mem" and l xs x l'
  show "locked_repr repr m l xs \<Longrightarrow> distinct (l # xs)" using repr_distinct [of "rw_data m" l xs] by (simp add: locked_repr_def)
  show "locked_repr repr m l xs \<Longrightarrow> x \<in> set xs \<Longrightarrow> l' \<noteq> x \<Longrightarrow> locked_avail avail m l' x"
    by (auto simp: locked_repr_def locked_avail_def intro: repr_avail)
  show "locked_repr repr m l xs \<Longrightarrow> map_option fst (lis_empty m l) = Some (xs = [])"
    using is_empty_law by (simp add: locked_repr_def lis_empty_law)
  show "locked_repr repr m l [] \<Longrightarrow> ldel_head m l = Some (NULL, m)"
    using del_head_empty_law by (simp add: locked_repr_def ldel_head_law)
  show "\<exists>m'. ladd_head m l x = Some m' \<and> locked_repr repr m' l (x # xs) \<and> locked_avail avail m' = locked_avail avail m \<and>
      keeps_others (locked_repr repr) m m' l (x # xs)" if "locked_repr repr m l xs" "locked_avail avail m l x" "x \<notin> set xs"
    using that add_head_law [of "rw_data m" l xs x] by (auto simp: locked_repr_def locked_avail_def ladd_head_law dest: keeps_others_locked)
  show "\<exists>m'. ldel_head m l = Some (x, m') \<and> locked_repr repr m' l xs \<and> locked_avail avail m' = locked_avail avail m \<and>
      keeps_others (locked_repr repr) m m' l (x # xs)" if "locked_repr repr m l (x # xs)"
    using that del_head_law [of "rw_data m" l x xs] by (auto simp: locked_repr_def locked_avail_def ldel_head_law dest: keeps_others_locked)
  show "\<exists>m'. ladd_tail m l x = Some m' \<and> locked_repr repr m' l (xs @ [x]) \<and> locked_avail avail m' = locked_avail avail m \<and>
      keeps_others (locked_repr repr) m m' l (x # xs)" if "locked_repr repr m l xs" "locked_avail avail m l x" "x \<notin> set xs"
    using that add_tail_law [of "rw_data m" l xs x] by (auto simp: locked_repr_def locked_avail_def ladd_tail_law dest: keeps_others_locked)
qed

interpretation rwstq: locked_queue stq_repr stq_avail stq_is_empty stq_add_head stq_del_head stq_add_tail
  rwstq_is_empty rwstq_add_head rwstq_del_head rwstq_add_tail
  by unfold_locales
    (auto simp: rwstq_is_empty_def rwstq_add_head_def rwstq_del_head_def rwstq_add_tail_def rwstq_lock_defs lock_free_simps split: bind_split option.splits)

interpretation rwdtq: locked_queue dtq_repr dtq_avail dtq_is_empty dtq_add_head dta_del_head dtq_add_tail
  rwdtq_is_empty rwdtq_add_head rwdta_del_head rwdtq_add_tail
  by unfold_locales
    (auto simp: rwdtq_is_empty_def rwdtq_add_head_def rwdta_del_head_def rwdtq_add_tail_def rwdtq_lock_defs lock_free_simps split: bind_split option.splits)

text \<open>The other operations on a free lock.\<close>

lemma rwstq_other:
  assumes "lock_free m l"
  shows "rwstq_del m l x = map_option (\<lambda>d. m\<lparr>rw_data := d\<rparr>) (stq_del (rw_data m) l x)"
    and "rwstq_free_all f m l = map_option (\<lambda>d. m\<lparr>rw_data := d\<rparr>) (stq_free_all f (rw_data m) l)"
  using assms by (auto simp: rwstq_del_def rwstq_free_all_def rwstq_lock_defs lock_free_simps split: bind_split option.splits)

lemma rwdtq_other:
  assumes "lock_free m l"
  shows "rwdtq_free_all f m l = map_option (\<lambda>d. m\<lparr>rw_data := d\<rparr>) (dtq_free_all f (rw_data m) l)"
    and "rwdtq_is_end m l x = map_option (\<lambda>b. (b, m)) (dtq_is_end (rw_data m) l x)"
    and "rwdtq_del_tail m l = map_option (\<lambda>(x, d). (x, m\<lparr>rw_data := d\<rparr>)) (dtq_del_tail (rw_data m) l)"
  using assms by (auto simp: rwdtq_free_all_def rwdtq_is_end_def rwdtq_del_tail_def rwdtq_lock_defs lock_free_simps split: bind_split option.splits)

lemma rwdtq_del_free: "lock_free m l \<Longrightarrow> rwdtq_del m l x = map_option (\<lambda>d. m\<lparr>rw_data := d\<rparr>) (dtq_del (rw_data m) x)"
  by (auto simp: rwdtq_del_def dtq_del_def rwdtq_lock_defs lock_free_simps split: bind_split option.splits)

lemma rwstq_init_free:
  assumes "l \<noteq> NULL" "stq_heads (rw_data m) l \<noteq> None" "rw_locks m l \<noteq> None"
  shows "\<exists>m'. rwstq_init m l = Some m' \<and> locked_repr stq_repr m' l []"
  using assms by (auto simp: rwstq_init_def rwlock_init_def stq_defs mem_simps locked_repr_def lock_free_def set_lock_def stq_repr_def load_known)

section \<open>Properties\<close>

text \<open>
  Initialised queues with a lock, used by one thread: \<^verbatim>\<open>rwstq_init\<close> makes an empty queue with a free lock; nodes added with
  \<^verbatim>\<open>rwstq_add_tail\<close> leave through \<^verbatim>\<open>rwstq_del_head\<close> in the order they came; every operation gives the lock back, so that the next one
  does not wait for it.
\<close>

lemma rwstq_fifo:
  assumes "l \<noteq> NULL" "stq_heads (rw_data m) l \<noteq> None" "rw_locks m l \<noteq> None"
    and "distinct xs" "\<forall>x \<in> set xs. x \<noteq> NULL \<and> x \<noteq> l \<and> stq_nodes (rw_data m) x \<noteq> None"
  shows "\<exists>m0 m1 m2. rwstq_init m l = Some m0 \<and> add_all rwstq_add_tail m0 l xs = Some m1 \<and>
    del_n rwstq_del_head m1 l (length xs) = Some (xs, m2) \<and> rwstq_is_empty m2 l = Some (True, m2) \<and> rw_locks m2 l = Some rwlock_free"
proof -
  from rwstq_init_free [OF assms(1-3)] obtain m0 where m0: "rwstq_init m l = Some m0" "locked_repr stq_repr m0 l []" by blast
  have "stq_nodes (rw_data m0) = stq_nodes (rw_data m)"
    using m0(1) assms(1,2) by (auto simp: rwstq_init_def rwlock_init_def stq_defs bind_eq_Some_conv set_lock_def)
  then have "\<forall>x \<in> set xs. locked_avail stq_avail m0 l x" using assms(5) by (simp add: locked_avail_def stq_avail_def)
  with rwstq.locked.fifo [OF m0(2), of xs] assms(4) obtain m1 m2 where *: "add_all rwstq_add_tail m0 l xs = Some m1"
      "del_n rwstq_del_head m1 l (length xs) = Some (xs, m2)" "locked_repr stq_repr m2 l []" by auto
  moreover have "rwstq_is_empty m2 l = Some (True, m2)"
    using *(3) rwstq.lis_empty_law [of m2 l] stq_is_empty_repr [of "rw_data m2" l "[]"] by (simp add: locked_repr_def)
  ultimately show ?thesis using m0(1) by (auto simp: locked_repr_def lock_free_def)
qed

end
