(* ===== verification/Rw_Threads.thy ===== *)
theory Rw_Threads
  imports Rw_Queue
begin

text \<open>
  Several threads that share one queue with a lock.  Each thread calls operations one after the other; a call takes the lock, runs the
  operation of the queue without a lock, and gives the lock back, and the steps of the threads interleave in any order.  The operation
  itself is one step here; that no other thread changes the data between the moment the lock is taken and the moment it is given back
  is one of the theorems, so a finer interleaving gives nothing new.

  The lock is what POSIX promises of \<^verbatim>\<open>pthread_rwlock_t\<close>: \<^verbatim>\<open>rdlock\<close> waits while there is a writer, \<^verbatim>\<open>wrlock\<close> waits while there is a
  writer or a reader.
\<close>

section \<open>Threads\<close>

type_synonym tid = nat

datatype ('op, 'r) phase = Idle | Called 'op | Holding 'op | Ended 'op 'r

record ('op, 'r, 's) rw_conf =
  cf_readers :: "tid set"
  cf_writer :: "tid option"
  cf_state :: 's
  cf_phase :: "tid \<Rightarrow> ('op, 'r) phase"
  cf_log :: "(tid \<times> 'op \<times> 'r) list"

definition set_phase :: "('op, 'r, 's) rw_conf \<Rightarrow> tid \<Rightarrow> ('op, 'r) phase \<Rightarrow> ('op, 'r, 's) rw_conf" where
  "set_phase c t p = c\<lparr>cf_phase := (cf_phase c)(t := p)\<rparr>"

text \<open>One step of the thread \<open>t\<close>; \<open>writes\<close> tells which operations take the lock as a writer, \<open>body\<close> is the operation.\<close>

inductive rw_step ::
  "('op \<Rightarrow> bool) \<Rightarrow> ('op \<Rightarrow> 's \<Rightarrow> ('r \<times> 's) option) \<Rightarrow> tid \<Rightarrow> ('op, 'r, 's) rw_conf \<Rightarrow> ('op, 'r, 's) rw_conf \<Rightarrow> bool"
  for writes body t where
  call: "cf_phase c t = Idle \<Longrightarrow> rw_step writes body t c (set_phase c t (Called op))"
| rdlock: "cf_phase c t = Called op \<Longrightarrow> \<not> writes op \<Longrightarrow> cf_writer c = None \<Longrightarrow>
    rw_step writes body t c (set_phase (c\<lparr>cf_readers := insert t (cf_readers c)\<rparr>) t (Holding op))"
| wrlock: "cf_phase c t = Called op \<Longrightarrow> writes op \<Longrightarrow> cf_writer c = None \<Longrightarrow> cf_readers c = {} \<Longrightarrow>
    rw_step writes body t c (set_phase (c\<lparr>cf_writer := Some t\<rparr>) t (Holding op))"
| run: "cf_phase c t = Holding op \<Longrightarrow> body op (cf_state c) = Some (r, s) \<Longrightarrow>
    rw_step writes body t c (set_phase (c\<lparr>cf_state := s, cf_log := cf_log c @ [(t, op, r)]\<rparr>) t (Ended op r))"
| rdunlock: "cf_phase c t = Ended op r \<Longrightarrow> \<not> writes op \<Longrightarrow>
    rw_step writes body t c (set_phase (c\<lparr>cf_readers := cf_readers c - {t}\<rparr>) t Idle)"
| wrunlock: "cf_phase c t = Ended op r \<Longrightarrow> writes op \<Longrightarrow>
    rw_step writes body t c (set_phase (c\<lparr>cf_writer := None\<rparr>) t Idle)"

inductive_cases rw_stepE: "rw_step writes body t c c'"

definition rw_start :: "'s \<Rightarrow> ('op, 'r, 's) rw_conf" where
  "rw_start s = \<lparr>cf_readers = {}, cf_writer = None, cf_state = s, cf_phase = (\<lambda>t. Idle), cf_log = []\<rparr>"

inductive rw_reach :: "('op \<Rightarrow> bool) \<Rightarrow> ('op \<Rightarrow> 's \<Rightarrow> ('r \<times> 's) option) \<Rightarrow> 's \<Rightarrow> ('op, 'r, 's) rw_conf \<Rightarrow> bool"
  for writes body s where
  start: "rw_reach writes body s (rw_start s)"
| step: "rw_reach writes body s c \<Longrightarrow> rw_step writes body t c c' \<Longrightarrow> rw_reach writes body s c'"

text \<open>The threads between the lock and the unlock, with the operation they run.\<close>

fun inside :: "('op, 'r) phase \<Rightarrow> 'op option" where
  "inside (Holding op) = Some op"
| "inside (Ended op r) = Some op"
| "inside p = None"

text \<open>The calls of the log executed one after the other, each with the result that was logged.\<close>

fun run_log :: "('op \<Rightarrow> 's \<Rightarrow> ('r \<times> 's) option) \<Rightarrow> 's \<Rightarrow> (tid \<times> 'op \<times> 'r) list \<Rightarrow> 's option" where
  "run_log body s [] = Some s"
| "run_log body s ((t, op, r) # log) = do { (r', s') \<leftarrow> body op s; if r' = r then run_log body s' log else None }"

lemma run_log_append: "run_log body s (xs @ ys) = do { s \<leftarrow> run_log body s xs; run_log body s ys }"
  by (induction body s xs rule: run_log.induct) (auto split: bind_split)

fun log_ops :: "(tid \<times> 'op \<times> 'r) list \<Rightarrow> 'op list" where
  "log_ops [] = []"
| "log_ops ((t, op, r) # log) = op # log_ops log"

fun log_results :: "(tid \<times> 'op \<times> 'r) list \<Rightarrow> 'r list" where
  "log_results [] = []"
| "log_results ((t, op, r) # log) = r # log_results log"

section \<open>Locks and phases agree\<close>

fun holds :: "('op \<Rightarrow> bool) \<Rightarrow> ('op, 'r) phase \<Rightarrow> bool" where
  "holds P (Holding op) = P op"
| "holds P (Ended op r) = P op"
| "holds P p = False"

lemma holds_inside: "inside p = Some op \<Longrightarrow> holds P p = P op"
  by (cases p) auto

lemma holds_outside: "inside p = None \<Longrightarrow> \<not> holds P p"
  by (cases p) auto

definition lock_inv :: "('op \<Rightarrow> bool) \<Rightarrow> ('op, 'r, 's) rw_conf \<Rightarrow> bool" where
  "lock_inv writes c \<longleftrightarrow>
     (\<forall>t. t \<in> cf_readers c \<longleftrightarrow> holds (\<lambda>op. \<not> writes op) (cf_phase c t)) \<and> (\<forall>t. cf_writer c = Some t \<longleftrightarrow> holds writes (cf_phase c t)) \<and>
     (cf_writer c \<noteq> None \<longrightarrow> cf_readers c = {})"

lemma lock_inv_step:
  assumes "rw_step writes body t c c'" "lock_inv writes c"
  shows "lock_inv writes c'"
proof -
  have inv: "\<And>u. u \<in> cf_readers c \<longleftrightarrow> holds (\<lambda>op. \<not> writes op) (cf_phase c u)" "\<And>u. cf_writer c = Some u \<longleftrightarrow> holds writes (cf_phase c u)"
      "cf_writer c \<noteq> None \<Longrightarrow> cf_readers c = {}"
    using assms(2) by (auto simp: lock_inv_def)
  from assms(1) show ?thesis
  proof (cases rule: rw_step.cases)
    case (call op)
    then show ?thesis using inv inv(1,2) [of t] by (auto simp: lock_inv_def set_phase_def)
  next
    case (rdlock op)
    then show ?thesis using inv inv(1,2) [of t] by (auto simp: lock_inv_def set_phase_def)
  next
    case (wrlock op)
    then show ?thesis using inv(1) inv(2) by (auto simp: lock_inv_def set_phase_def)
  next
    case (run op r s)
    then show ?thesis using inv inv(1,2) [of t] by (auto simp: lock_inv_def set_phase_def)
  next
    case (rdunlock op r)
    then show ?thesis using inv inv(1,2) [of t] by (auto simp: lock_inv_def set_phase_def)
  next
    case (wrunlock op r)
    then have "cf_writer c = Some t" using inv(2) [of t] by simp
    then have "\<not> holds writes (cf_phase c u)" if "u \<noteq> t" for u using inv(2) [of u] that by simp
    then show ?thesis using inv(1) inv(1) [of t] wrunlock by (auto simp: lock_inv_def set_phase_def)
  qed
qed

lemma lock_inv_reach: "rw_reach writes body s c \<Longrightarrow> lock_inv writes c"
proof (induction rule: rw_reach.induct)
  case start
  then show ?case by (simp add: lock_inv_def rw_start_def)
next
  case (step c t c')
  then show ?case by (blast intro: lock_inv_step)
qed

lemma lock_inv_exclusive:
  assumes "lock_inv writes c" "inside (cf_phase c t) = Some op" "inside (cf_phase c u) = Some op'" "t \<noteq> u"
  shows "\<not> writes op \<and> \<not> writes op'"
proof (rule ccontr)
  assume "\<not> ?thesis"
  moreover have "holds P (cf_phase c t) = P op" "holds P (cf_phase c u) = P op'" for P using assms(2,3) by (simp_all add: holds_inside)
  ultimately show False using assms(1,4) unfolding lock_inv_def by (metis empty_iff option.distinct(1) option.inject)
qed

section \<open>Objects behind a lock\<close>

text \<open>
  What the lock needs of the operations: those that take it as readers do not change the state.  What the callers need: there is an
  invariant under which every operation is defined.
\<close>

locale rw_object =
  fixes writes :: "'op \<Rightarrow> bool" and body :: "'op \<Rightarrow> 's \<Rightarrow> ('r \<times> 's) option"
  assumes readers_keep: "\<not> writes op \<Longrightarrow> body op s = Some (r, s') \<Longrightarrow> s' = s"
begin

text \<open>While a thread is between lock and unlock, no step of another thread changes the state.\<close>

lemma atomic:
  assumes "rw_reach writes body s c" "inside (cf_phase c t) \<noteq> None" "rw_step writes body u c c'" "u \<noteq> t"
  shows "cf_state c' = cf_state c"
proof -
  obtain op where op: "inside (cf_phase c t) = Some op" using assms(2) by blast
  from assms(3) show ?thesis
  proof (cases rule: rw_step.cases)
    case (run op' r s')
    then have "inside (cf_phase c u) = Some op'" by simp
    then have "\<not> writes op'" using lock_inv_exclusive [OF lock_inv_reach [OF assms(1)] op] assms(4) by blast
    then show ?thesis using run readers_keep by (simp add: set_phase_def)
  qed (simp_all add: set_phase_def)
qed

text \<open>The calls take effect one after the other, in the order of the log.\<close>

lemma linear: "rw_reach writes body s c \<Longrightarrow> run_log body s (cf_log c) = Some (cf_state c)"
proof (induction rule: rw_reach.induct)
  case start
  then show ?case by (simp add: rw_start_def)
next
  case (step c t c')
  from step.hyps(2) show ?case by (cases rule: rw_step.cases) (use step.IH in \<open>auto simp: set_phase_def run_log_append\<close>)
qed

text \<open>As long as a call is pending and the operations that hold the lock are defined, some thread with a pending call can go on.\<close>

lemma progress:
  assumes "rw_reach writes body s c" "cf_phase c t \<noteq> Idle" "\<forall>u op. cf_phase c u = Holding op \<longrightarrow> body op (cf_state c) \<noteq> None"
  shows "\<exists>u c'. cf_phase c u \<noteq> Idle \<and> rw_step writes body u c c'"
proof -
  have inv: "lock_inv writes c" using assms(1) by (rule lock_inv_reach)
  have go: "\<exists>c'. rw_step writes body u c c'" if "inside (cf_phase c u) \<noteq> None" for u
  proof (cases "cf_phase c u")
    case (Holding op)
    then obtain r s' where "body op (cf_state c) = Some (r, s')" using assms(3) by fastforce
    then show ?thesis using Holding rw_step.run [of c u op body r s' writes] by blast
  next
    case (Ended op r)
    then show ?thesis using rw_step.rdunlock [of c u op r writes body] rw_step.wrunlock [of c u op r writes body] by blast
  qed (use that in auto)
  show ?thesis
  proof (cases "\<exists>u. inside (cf_phase c u) \<noteq> None")
    case True
    then obtain u where "inside (cf_phase c u) \<noteq> None" by blast
    moreover then have "cf_phase c u \<noteq> Idle" by auto
    ultimately show ?thesis using go by blast
  next
    case False
    then have "\<not> holds P (cf_phase c u)" for P u by (simp add: holds_outside)
    then have "cf_writer c = None" "cf_readers c = {}" using inv by (auto simp: lock_inv_def)
    moreover have "inside (cf_phase c t) = None" using False by blast
    then obtain op where "cf_phase c t = Called op" using assms(2) by (cases "cf_phase c t") auto
    ultimately show ?thesis using rw_step.rdlock [of c t op writes body] rw_step.wrlock [of c t op writes body] by (metis phase.distinct(1))
  qed
qed

end

section \<open>The operations of the queues\<close>

datatype lq_op = Is_Empty | Add_Head addr | Del_Head | Add_Tail addr | Del addr | Free_All

datatype lq_result = Nothing | Flag bool | Node addr

definition lq_writes :: "lq_op \<Rightarrow> bool" where
  "lq_writes op \<longleftrightarrow> op \<noteq> Is_Empty"

text \<open>What a queue with a lock does between lock and unlock.\<close>

fun stq_body :: "(stq_mem \<Rightarrow> addr \<Rightarrow> stq_mem option) \<Rightarrow> addr \<Rightarrow> lq_op \<Rightarrow> stq_mem \<Rightarrow> (lq_result \<times> stq_mem) option" where
  "stq_body f l Is_Empty m = do { b \<leftarrow> stq_is_empty m l; Some (Flag b, m) }"
| "stq_body f l (Add_Head x) m = do { m \<leftarrow> stq_add_head m l x; Some (Nothing, m) }"
| "stq_body f l Del_Head m = do { (x, m) \<leftarrow> stq_del_head m l; Some (Node x, m) }"
| "stq_body f l (Add_Tail x) m = do { m \<leftarrow> stq_add_tail m l x; Some (Nothing, m) }"
| "stq_body f l (Del x) m = do { m \<leftarrow> stq_del m l x; Some (Nothing, m) }"
| "stq_body f l Free_All m = do { m \<leftarrow> stq_free_all f m l; Some (Nothing, m) }"

fun dtq_body :: "(dtq_mem \<Rightarrow> addr \<Rightarrow> dtq_mem option) \<Rightarrow> addr \<Rightarrow> lq_op \<Rightarrow> dtq_mem \<Rightarrow> (lq_result \<times> dtq_mem) option" where
  "dtq_body f l Is_Empty m = do { b \<leftarrow> dtq_is_empty m l; Some (Flag b, m) }"
| "dtq_body f l (Add_Head x) m = do { m \<leftarrow> dtq_add_head m l x; Some (Nothing, m) }"
| "dtq_body f l Del_Head m = do { (x, m) \<leftarrow> dta_del_head m l; Some (Node x, m) }"
| "dtq_body f l (Add_Tail x) m = do { m \<leftarrow> dtq_add_tail m l x; Some (Nothing, m) }"
| "dtq_body f l (Del x) m = do { m \<leftarrow> dtq_del m x; Some (Nothing, m) }"
| "dtq_body f l Free_All m = do { m \<leftarrow> dtq_free_all f m l; Some (Nothing, m) }"

text \<open>
  The abstract queue: a list of nodes.  \<open>ok\<close> are the nodes that may be added.  An operation is refused (\<open>None\<close>) when the caller breaks the
  rules of the interface: a node is added that is in the queue already, or deleted that is not in it.  \<^verbatim>\<open>free_all\<close> ends the life of the nodes and
  is not part of the abstract queue.
\<close>

fun queue_op :: "(addr \<Rightarrow> bool) \<Rightarrow> lq_op \<Rightarrow> addr list \<Rightarrow> (lq_result \<times> addr list) option" where
  "queue_op ok Is_Empty xs = Some (Flag (xs = []), xs)"
| "queue_op ok (Add_Head x) xs = (if ok x \<and> x \<notin> set xs then Some (Nothing, x # xs) else None)"
| "queue_op ok Del_Head xs = Some (Node (case xs of [] \<Rightarrow> NULL | x # _ \<Rightarrow> x), tl xs)"
| "queue_op ok (Add_Tail x) xs = (if ok x \<and> x \<notin> set xs then Some (Nothing, xs @ [x]) else None)"
| "queue_op ok (Del x) xs = (if x \<in> set xs then Some (Nothing, remove1 x xs) else None)"
| "queue_op ok Free_All xs = None"

fun queue_run :: "(addr \<Rightarrow> bool) \<Rightarrow> lq_op list \<Rightarrow> addr list \<Rightarrow> (lq_result list \<times> addr list) option" where
  "queue_run ok [] xs = Some ([], xs)"
| "queue_run ok (op # ops) xs = do { (r, xs) \<leftarrow> queue_op ok op xs; (rs, xs) \<leftarrow> queue_run ok ops xs; Some (r # rs, xs) }"

section \<open>The bodies implement the abstract queue\<close>

locale queue_body = rw_object lq_writes body
  for body :: "lq_op \<Rightarrow> 'm \<Rightarrow> (lq_result \<times> 'm) option" +
  fixes repr :: "'m \<Rightarrow> addr list \<Rightarrow> bool" and avail :: "'m \<Rightarrow> addr \<Rightarrow> bool"
  assumes body_law: "repr m xs \<Longrightarrow> queue_op (avail m) op xs = Some (r, ys) \<Longrightarrow> \<exists>m'. body op m = Some (r, m') \<and> repr m' ys \<and> avail m' = avail m"
begin

lemma run_log_queue:
  "repr m xs \<Longrightarrow> run_log body m log = Some m' \<Longrightarrow> queue_run (avail m) (log_ops log) xs = Some (rs, ys) \<Longrightarrow>
   log_results log = rs \<and> repr m' ys"
proof (induction log arbitrary: m xs rs)
  case (Cons e log)
  obtain t op r where e: "e = (t, op, r)" by (cases e)
  from Cons.prems(3) obtain r1 xs1 rs1 where q: "queue_op (avail m) op xs = Some (r1, xs1)"
      "queue_run (avail m) (log_ops log) xs1 = Some (rs1, ys)" "rs = r1 # rs1"
    by (auto simp: e bind_eq_Some_conv)
  from body_law [OF Cons.prems(1) q(1)] obtain m1 where m1: "body op m = Some (r1, m1)" "repr m1 xs1" "avail m1 = avail m" by blast
  then have "r1 = r" "run_log body m1 log = Some m'" using Cons.prems(2) by (auto simp: e split: if_splits)
  then show ?case using Cons.IH [OF m1(2), of rs1] q(2,3) m1(3) e by simp
qed auto

lemma threads_queue:
  assumes "rw_reach lq_writes body m c" "repr m xs" "queue_run (avail m) (log_ops (cf_log c)) xs = Some (rs, ys)"
  shows "log_results (cf_log c) = rs \<and> repr (cf_state c) ys"
  using run_log_queue [OF assms(2) linear [OF assms(1)] assms(3)] .

end

interpretation rwstq_threads: queue_body "stq_body f l" "\<lambda>m. stq_repr m l" "\<lambda>m. stq_avail m l" for f l
proof
  show "\<not> lq_writes op \<Longrightarrow> stq_body f l op s = Some (r, s') \<Longrightarrow> s' = s" for op s r s'
    by (cases op) (auto simp: lq_writes_def bind_eq_Some_conv)
  show "\<exists>m'. stq_body f l op m = Some (r, m') \<and> stq_repr m' l ys \<and> stq_avail m' l = stq_avail m l"
    if "stq_repr m l xs" "queue_op (stq_avail m l) op xs = Some (r, ys)" for m xs op r ys
  proof (cases op)
    case (Del x)
    then have "x \<in> set xs" using that(2) by (auto split: if_splits)
    then obtain us vs where "xs = us @ x # vs" "x \<notin> set us" by (rule in_set_split_first)
    then show ?thesis using that Del stq.del_law [of m l us x vs] by auto
  next
    case Del_Head
    then show ?thesis using that stq.del_head_law [of m l "hd xs" "tl xs"] stq.del_head_empty_law [of m l] by (cases xs) auto
  next
    case (Add_Head x)
    then show ?thesis using that stq.add_head_law [of m l xs x] by (auto split: if_splits)
  next
    case (Add_Tail x)
    then show ?thesis using that stq.add_tail_law [of m l xs x] by (auto split: if_splits)
  qed (use that stq.is_empty_law [of m l xs] in auto)
qed

interpretation rwdtq_threads: queue_body "dtq_body f l" "\<lambda>m. dtq_repr m l" "\<lambda>m. dtq_avail m l" for f l
proof
  show "\<not> lq_writes op \<Longrightarrow> dtq_body f l op s = Some (r, s') \<Longrightarrow> s' = s" for op s r s'
    by (cases op) (auto simp: lq_writes_def bind_eq_Some_conv)
  show "\<exists>m'. dtq_body f l op m = Some (r, m') \<and> dtq_repr m' l ys \<and> dtq_avail m' l = dtq_avail m l"
    if "dtq_repr m l xs" "queue_op (dtq_avail m l) op xs = Some (r, ys)" for m xs op r ys
  proof (cases op)
    case (Del x)
    then have "x \<in> set xs" using that(2) by (auto split: if_splits)
    then obtain us vs where "xs = us @ x # vs" "x \<notin> set us" by (rule in_set_split_first)
    then show ?thesis using that Del dtq.del_law [of m l us x vs] by auto
  next
    case Del_Head
    then show ?thesis using that dtq.del_head_law [of m l "hd xs" "tl xs"] dtq.del_head_empty_law [of m l] by (cases xs) auto
  next
    case (Add_Head x)
    then show ?thesis using that dtq.add_head_law [of m l xs x] by (auto split: if_splits)
  next
    case (Add_Tail x)
    then show ?thesis using that dtq.add_tail_law [of m l xs x] by (auto split: if_splits)
  qed (use that dtq.is_empty_law [of m l xs] in auto)
qed

text \<open>The functions of \<open>Rw_Queue\<close> are the bodies between lock and unlock.\<close>

lemma rwstq_bodies:
  assumes "lock_free m l"
  shows "map_option fst (rwstq_is_empty m l) = Some b \<longleftrightarrow> stq_body f l Is_Empty (rw_data m) = Some (Flag b, rw_data m)"
    and "rwstq_add_tail m l x = Some m' \<longleftrightarrow> (\<exists>d. stq_body f l (Add_Tail x) (rw_data m) = Some (Nothing, d) \<and> m' = m\<lparr>rw_data := d\<rparr>)"
    and "rwstq_del_head m l = Some (y, m') \<longleftrightarrow> (\<exists>d. stq_body f l Del_Head (rw_data m) = Some (Node y, d) \<and> m' = m\<lparr>rw_data := d\<rparr>)"
    and "rwstq_free_all f m l = Some m' \<longleftrightarrow> (\<exists>d. stq_body f l Free_All (rw_data m) = Some (Nothing, d) \<and> m' = m\<lparr>rw_data := d\<rparr>)"
  using assms by (auto simp: rwstq.lis_empty_law rwstq.ladd_tail_law rwstq.ldel_head_law rwstq_other bind_eq_Some_conv)

section \<open>Properties\<close>

text \<open>Two reachable states: one thread has added a node and still holds the lock; two threads read at the same time.\<close>

definition threads_mem :: stq_mem where
  "threads_mem = \<lparr>stq_nodes = [32 \<mapsto> \<lparr>stq_node_next = 0\<rparr>], stq_heads = [8 \<mapsto> \<lparr>stq_head_first = 0, stq_head_last = 0\<rparr>]\<rparr>"

definition threads_added :: stq_mem where
  "threads_added = \<lparr>stq_nodes = [32 \<mapsto> \<lparr>stq_node_next = 0\<rparr>], stq_heads = [8 \<mapsto> \<lparr>stq_head_first = 32, stq_head_last = 32\<rparr>]\<rparr>"

definition writer_conf :: "(lq_op, lq_result, stq_mem) rw_conf" where
  "writer_conf = \<lparr>cf_readers = {}, cf_writer = Some 1, cf_state = threads_added, cf_phase = (\<lambda>_. Idle)(1 := Ended (Add_Tail 32) Nothing),
     cf_log = [(1, Add_Tail 32, Nothing)]\<rparr>"

definition readers_conf :: "(lq_op, lq_result, stq_mem) rw_conf" where
  "readers_conf = \<lparr>cf_readers = {1, 2}, cf_writer = None, cf_state = threads_mem, cf_phase = (\<lambda>_. Idle)(1 := Holding Is_Empty, 2 := Holding Is_Empty),
     cf_log = []\<rparr>"

lemma writer_conf_reach: "rw_reach lq_writes (stq_body f 8) threads_mem writer_conf"
proof -
  let ?c1 = "set_phase (rw_start threads_mem) 1 (Called (Add_Tail 32)) :: (lq_op, lq_result, stq_mem) rw_conf"
  let ?c2 = "set_phase (?c1\<lparr>cf_writer := Some 1\<rparr>) 1 (Holding (Add_Tail 32))"
  let ?c3 = "set_phase (?c2\<lparr>cf_state := threads_added, cf_log := cf_log ?c2 @ [(1, Add_Tail 32, Nothing)]\<rparr>) 1 (Ended (Add_Tail 32) Nothing)"
  have body: "stq_add_tail threads_mem 8 32 = Some threads_added"
    by (simp add: threads_mem_def threads_added_def stq_defs mem_simps)
  have "rw_reach lq_writes (stq_body f 8) threads_mem ?c1" by (rule rw_reach.step [OF rw_reach.start rw_step.call]) (simp add: rw_start_def)
  then have "rw_reach lq_writes (stq_body f 8) threads_mem ?c2"
    by (rule rw_reach.step [OF _ rw_step.wrlock]) (simp_all add: rw_start_def set_phase_def lq_writes_def)
  then have "rw_reach lq_writes (stq_body f 8) threads_mem ?c3"
    by (rule rw_reach.step [OF _ rw_step.run]) (simp_all add: rw_start_def set_phase_def body)
  moreover have "?c3 = writer_conf" by (simp add: writer_conf_def set_phase_def rw_start_def)
  ultimately show ?thesis by simp
qed

lemma readers_conf_reach: "rw_reach lq_writes (stq_body f 8) threads_mem readers_conf"
proof -
  let ?c1 = "set_phase (rw_start threads_mem) 1 (Called Is_Empty) :: (lq_op, lq_result, stq_mem) rw_conf"
  let ?c2 = "set_phase (?c1\<lparr>cf_readers := insert 1 (cf_readers ?c1)\<rparr>) 1 (Holding Is_Empty)"
  let ?c3 = "set_phase ?c2 2 (Called Is_Empty)"
  let ?c4 = "set_phase (?c3\<lparr>cf_readers := insert 2 (cf_readers ?c3)\<rparr>) 2 (Holding Is_Empty)"
  have "rw_reach lq_writes (stq_body f 8) threads_mem ?c1" by (rule rw_reach.step [OF rw_reach.start rw_step.call]) (simp add: rw_start_def)
  then have "rw_reach lq_writes (stq_body f 8) threads_mem ?c2"
    by (rule rw_reach.step [OF _ rw_step.rdlock]) (simp_all add: rw_start_def set_phase_def lq_writes_def)
  then have "rw_reach lq_writes (stq_body f 8) threads_mem ?c3" by (rule rw_reach.step [OF _ rw_step.call]) (simp add: rw_start_def set_phase_def)
  then have "rw_reach lq_writes (stq_body f 8) threads_mem ?c4"
    by (rule rw_reach.step [OF _ rw_step.rdlock]) (simp_all add: rw_start_def set_phase_def lq_writes_def)
  moreover have "?c4 = readers_conf" by (auto simp: readers_conf_def set_phase_def rw_start_def)
  ultimately show ?thesis by simp
qed



text \<open>
  C9: The lock excludes.  Two threads that are between lock and unlock at the same time are both readers, and while a thread is there no step
  of any other thread changes the queue.
\<close>

theorem rwstq_exclusive:
  assumes "rw_reach lq_writes (stq_body f l) m c" "inside (cf_phase c t) = Some op"
  shows "(\<forall>u op'. u \<noteq> t \<longrightarrow> inside (cf_phase c u) = Some op' \<longrightarrow> op = Is_Empty \<and> op' = Is_Empty) \<and>
    (\<forall>u c'. u \<noteq> t \<longrightarrow> rw_step lq_writes (stq_body f l) u c c' \<longrightarrow> cf_state c' = cf_state c)"
proof (intro conjI allI impI)
  show "op = Is_Empty" "op' = Is_Empty" if "u \<noteq> t" "inside (cf_phase c u) = Some op'" for u op'
    using lock_inv_exclusive [OF lock_inv_reach [OF assms(1)] assms(2) that(2)] that(1) by (auto simp: lq_writes_def)
  show "cf_state c' = cf_state c" if "u \<noteq> t" "rw_step lq_writes (stq_body f l) u c c'" for u c'
    using rwstq_threads.atomic [OF assms(1) _ that(2,1)] assms(2) by simp
qed

theorem rwstq_exclusive_witness:
  "inside (cf_phase readers_conf 1) = Some Is_Empty \<and>
   (\<exists>c'. rw_step lq_writes (stq_body stq_free_node 8) 2 readers_conf c' \<and> cf_state c' = threads_mem)"
proof -
  have here: "inside (cf_phase readers_conf 1) = Some Is_Empty" and mem: "cf_state readers_conf = threads_mem" by (simp_all add: readers_conf_def)
  have "stq_body stq_free_node 8 Is_Empty (cf_state readers_conf) = Some (Flag True, threads_mem)"
    by (simp add: mem threads_mem_def stq_defs mem_simps)
  then obtain c' where step: "rw_step lq_writes (stq_body stq_free_node 8) 2 readers_conf c'"
    using rw_step.run [of readers_conf 2 Is_Empty "stq_body stq_free_node 8"] by (auto simp: readers_conf_def)
  then have "cf_state c' = threads_mem"
    using conjunct2 [OF rwstq_exclusive [OF readers_conf_reach here], rule_format, of 2] mem by simp
  with here step show ?thesis by blast
qed



end
