(* ===== verification/Spin.thy ===== *)
theory Spin
  imports Prelude
begin

text \<open>
  The spin lock of \<^verbatim>\<open>include/spin.h\<close>: one atomic flag.  The atomic operations are the steps of the model; threads interleave between them in
  any order.  \<^verbatim>\<open>spinlock_acquire\<close> alternates between \<^verbatim>\<open>atomic_flag_test_and_set\<close> and a loop that only reads until the flag is clear.
\<close>

section \<open>The functions\<close>

text \<open>\<^verbatim>\<open>atomic_flag_test_and_set\<close>: the old value, and the flag is set.\<close>

definition test_and_set :: "bool \<Rightarrow> bool \<times> bool" where
  "test_and_set val = (val, True)"

definition spinlock_try_acquire :: "bool \<Rightarrow> bool \<times> bool" where
  "spinlock_try_acquire val = (let (old, val) = test_and_set val in (if old then True else False, val))"

definition spinlock_release :: "bool \<Rightarrow> bool" where
  "spinlock_release val = False"

section \<open>Threads\<close>

text \<open>
  Where a thread is: outside; before the \<^verbatim>\<open>test_and_set\<close> of \<^verbatim>\<open>spinlock_acquire\<close>; in its inner loop; in the critical section.
\<close>

datatype spin_pc = Outside | Acquiring | Spinning | Critical

record spin_conf =
  sp_val :: bool
  sp_pc :: "nat \<Rightarrow> spin_pc"

definition goto :: "spin_conf \<Rightarrow> nat \<Rightarrow> bool \<Rightarrow> spin_pc \<Rightarrow> spin_conf" where
  "goto c t v p = c\<lparr>sp_val := v, sp_pc := (sp_pc c)(t := p)\<rparr>"

inductive spinlock_step :: "nat \<Rightarrow> spin_conf \<Rightarrow> spin_conf \<Rightarrow> bool" for t where
  enter: "sp_pc c t = Outside \<Longrightarrow> spinlock_step t c (goto c t (sp_val c) Acquiring)"
| acquire: "sp_pc c t = Acquiring \<Longrightarrow> test_and_set (sp_val c) = (old, v) \<Longrightarrow>
    spinlock_step t c (goto c t v (if old then Spinning else Critical))"
| spin: "sp_pc c t = Spinning \<Longrightarrow> spinlock_step t c (goto c t (sp_val c) (if sp_val c then Spinning else Acquiring))"
| try_lock: "sp_pc c t = Outside \<Longrightarrow> spinlock_try_acquire (sp_val c) = (r, v) \<Longrightarrow>
    spinlock_step t c (goto c t v (if r then Outside else Critical))"
| release: "sp_pc c t = Critical \<Longrightarrow> spinlock_step t c (goto c t (spinlock_release (sp_val c)) Outside)"

definition spin_start :: spin_conf where
  "spin_start = \<lparr>sp_val = False, sp_pc = (\<lambda>t. Outside)\<rparr>"

inductive spin_reach :: "spin_conf \<Rightarrow> bool" where
  init: "spin_reach spin_start"
| step: "spin_reach c \<Longrightarrow> spinlock_step t c c' \<Longrightarrow> spin_reach c'"

text \<open>The flag is set exactly while one thread is in the critical section.\<close>

definition critical :: "spin_conf \<Rightarrow> nat set" where
  "critical c = {t. sp_pc c t = Critical}"

definition spin_inv :: "spin_conf \<Rightarrow> bool" where
  "spin_inv c \<longleftrightarrow> (if sp_val c then \<exists>t. critical c = {t} else critical c = {})"

lemma critical_goto: "critical (goto c t v p) = (if p = Critical then insert t (critical c) else critical c - {t})"
  by (auto simp: critical_def goto_def)

lemma val_goto [simp]: "sp_val (goto c t v p) = v"
  by (simp add: goto_def)

lemma critical_other: "sp_pc c t \<noteq> Critical \<Longrightarrow> critical c - {t} = critical c"
  by (auto simp: critical_def)

lemma spin_inv_step:
  assumes "spinlock_step t c c'" "spin_inv c"
  shows "spin_inv c'"
  using assms(1)
proof (cases rule: spinlock_step.cases)
  case release
  then have "t \<in> critical c" by (simp add: critical_def)
  then have "critical c = {t}" using assms(2) by (auto simp: spin_inv_def split: if_splits)
  then show ?thesis using release by (simp add: spin_inv_def critical_goto spinlock_release_def)
qed (use assms(2) in \<open>auto simp: spin_inv_def critical_goto critical_other test_and_set_def spinlock_try_acquire_def\<close>)

lemma spin_inv_reach: "spin_reach c \<Longrightarrow> spin_inv c"
proof (induction rule: spin_reach.induct)
  case init
  then show ?case by (simp add: spin_inv_def critical_def spin_start_def)
next
  case (step c t c')
  then show ?case by (blast intro: spin_inv_step)
qed

section \<open>Properties\<close>

text \<open>
  C23: The spin lock excludes: at most one thread is between a successful \<^verbatim>\<open>spinlock_acquire\<close> or \<^verbatim>\<open>spinlock_try_acquire\<close> and its
  \<^verbatim>\<open>spinlock_release\<close>.  \<^verbatim>\<open>spinlock_try_acquire\<close> returns false exactly when it took the lock, and a thread that keeps trying while nobody
  holds the lock gets it.
\<close>

theorem spinlock_exclusive:
  assumes "spin_reach c"
  shows "(\<forall>t u. sp_pc c t = Critical \<longrightarrow> sp_pc c u = Critical \<longrightarrow> t = u) \<and>
    (fst (spinlock_try_acquire (sp_val c)) = (\<exists>t. sp_pc c t = Critical)) \<and>
    (\<forall>t. (\<forall>u. sp_pc c u \<noteq> Critical) \<longrightarrow> sp_pc c t = Acquiring \<longrightarrow> (\<forall>c'. spinlock_step t c c' \<longrightarrow> sp_pc c' t = Critical))"
proof (intro conjI allI impI)
  have inv: "spin_inv c" using assms by (rule spin_inv_reach)
  show "t = u" if "sp_pc c t = Critical" "sp_pc c u = Critical" for t u
  proof -
    have "t \<in> critical c" "u \<in> critical c" using that by (simp_all add: critical_def)
    then show ?thesis using inv by (auto simp: spin_inv_def split: if_splits)
  qed
  have val: "sp_val c \<longleftrightarrow> critical c \<noteq> {}" using inv by (auto simp: spin_inv_def split: if_splits)
  then show "fst (spinlock_try_acquire (sp_val c)) = (\<exists>t. sp_pc c t = Critical)"
    by (simp add: spinlock_try_acquire_def test_and_set_def critical_def)
  show "sp_pc c' t = Critical" if "\<forall>u. sp_pc c u \<noteq> Critical" "sp_pc c t = Acquiring" "spinlock_step t c c'" for t c'
    using that(3) by (cases rule: spinlock_step.cases) (use that val in \<open>auto simp: critical_def goto_def test_and_set_def\<close>)
qed

theorem spinlock_exclusive_witness:
  "\<exists>c. spin_reach c \<and> sp_pc c 1 = Critical \<and> fst (spinlock_try_acquire (sp_val c)) = True"
proof -
  let ?c = "goto spin_start 1 True Critical"
  have "spinlock_step 1 spin_start ?c"
    using spinlock_step.try_lock [of spin_start 1 False True] by (simp add: spin_start_def spinlock_try_acquire_def test_and_set_def)
  then have "spin_reach ?c" by (rule spin_reach.step [OF spin_reach.init])
  moreover have "sp_pc ?c 1 = Critical" by (simp add: goto_def)
  ultimately show ?thesis using spinlock_exclusive [of ?c] by blast
qed

end
