(* ===== verification/Mock.thy ===== *)
theory Mock
  imports Byte_Codec
begin

text \<open>
  \<^verbatim>\<open>src/mock.c\<close>: a function is replaced for a test by writing a jump over its first bytes, and put back from a copy.  The memory is a map
  from addresses to bytes together with the pages that may be written; a store to an address that is not mapped or whose page is not
  writable is a fault (\<open>None\<close>).  The results of \<^verbatim>\<open>mprotect\<close> are arguments.
\<close>

section \<open>Memory and pages\<close>

record code_mem =
  cm_bytes :: "addr \<Rightarrow> byte option"
  cm_writable :: "addr \<Rightarrow> bool"

definition PAGE_SIZE :: "64 word" where
  "PAGE_SIZE = 4096"

definition alignpage :: "addr \<Rightarrow> addr" where
  "alignpage v = v AND NOT (PAGE_SIZE - 1)"

text \<open>\<^verbatim>\<open>mprotect\<close> of the one page of \<open>fn\<close>; it changes the page when it succeeds.\<close>

definition mprotect_write :: "code_mem \<Rightarrow> addr \<Rightarrow> int \<Rightarrow> int \<times> code_mem" where
  "mprotect_write m fn ret = (ret, if ret = 0 then m\<lparr>cm_writable := (cm_writable m)(alignpage fn := True)\<rparr> else m)"

definition mprotect_recovery :: "code_mem \<Rightarrow> addr \<Rightarrow> int \<Rightarrow> int \<times> code_mem" where
  "mprotect_recovery m fn ret = (ret, if ret = 0 then m\<lparr>cm_writable := (cm_writable m)(alignpage fn := False)\<rparr> else m)"

fun write_bytes :: "code_mem \<Rightarrow> addr \<Rightarrow> byte list \<Rightarrow> code_mem option" where
  "write_bytes m a [] = Some m"
| "write_bytes m a (b # bs) =
     (if cm_bytes m a = None \<or> \<not> cm_writable m (alignpage a) then None
      else write_bytes (m\<lparr>cm_bytes := (cm_bytes m)(a \<mapsto> b)\<rparr>) (a + 1) bs)"

fun read_bytes :: "code_mem \<Rightarrow> addr \<Rightarrow> nat \<Rightarrow> byte list option" where
  "read_bytes m a 0 = Some []"
| "read_bytes m a (Suc n) = do { b \<leftarrow> cm_bytes m a; bs \<leftarrow> read_bytes m (a + 1) n; Some (b # bs) }"

section \<open>The operations\<close>

definition MOCK_JMPQ :: byte where
  "MOCK_JMPQ = 0xE9"

definition MOCK_LEN :: nat where
  "MOCK_LEN = 5"

record mock_s =
  mk_fn :: addr
  mk_mock :: "byte list"
  mk_len :: nat

definition mock_init :: "nat \<Rightarrow> mock_s" where
  "mock_init mock_len = \<lparr>mk_fn = NULL, mk_mock = replicate mock_len 0, mk_len = mock_len\<rparr>"

text \<open>\<open>r1\<close> and \<open>r2\<close> are the results of the two calls of \<^verbatim>\<open>mprotect\<close>.\<close>

definition mock_set :: "code_mem \<Rightarrow> mock_s \<Rightarrow> addr \<Rightarrow> addr \<Rightarrow> int \<Rightarrow> int \<Rightarrow> (int \<times> code_mem \<times> mock_s) option" where
  "mock_set m k fn mock_fn r1 r2 =
     (let (ret, m) = mprotect_write m fn r1 in
      if ret \<noteq> 0 then Some (ret, m, k)
      else do {
        bs \<leftarrow> read_bytes m fn (mk_len k);
        m \<leftarrow> write_bytes m fn [MOCK_JMPQ];
        m \<leftarrow> write_bytes m (fn + 1) (u32_bytes (ucast (mock_fn - fn - of_nat MOCK_LEN)));
        let (ret, m) = mprotect_recovery m fn r2;
        Some (ret, m, k\<lparr>mk_fn := fn, mk_mock := bs\<rparr>) })"

definition mock_reset :: "code_mem \<Rightarrow> mock_s \<Rightarrow> int \<Rightarrow> int \<Rightarrow> (int \<times> code_mem) option" where
  "mock_reset m k r1 r2 =
     (let (ret, m) = mprotect_write m (mk_fn k) r1 in
      if ret \<noteq> 0 then Some (ret, m)
      else do {
        m \<leftarrow> write_bytes m (mk_fn k) (take (mk_len k) (mk_mock k));
        Some (mprotect_recovery m (mk_fn k) r2) })"

text \<open>What the processor does with the bytes at \<open>fn\<close>: a jump relative to the next instruction.\<close>

definition jump_target :: "code_mem \<Rightarrow> addr \<Rightarrow> addr option" where
  "jump_target m fn =
     do { bs \<leftarrow> read_bytes m fn 5;
          if hd bs = MOCK_JMPQ then Some (fn + 5 + scast (of_le (tl bs) :: 32 word)) else None }"

section \<open>Reading and writing\<close>

definition mapped :: "code_mem \<Rightarrow> addr \<Rightarrow> nat \<Rightarrow> bool" where
  "mapped m a n \<longleftrightarrow> (\<forall>i < n. cm_bytes m (a + of_nat i) \<noteq> None \<and> alignpage (a + of_nat i) = alignpage a)"

lemma mapped_Suc: "mapped m a (Suc n) \<Longrightarrow> alignpage (a + 1) = alignpage a \<or> n = 0"
  by (cases n) (auto simp: mapped_def dest: spec [of _ 1])

lemma write_bytes_mem:
  assumes "\<forall>i < length bs. cm_bytes m (a + of_nat i) \<noteq> None \<and> cm_writable m (alignpage (a + of_nat i))" "length bs < 2 ^ 64"
  shows "write_bytes m a bs = Some (m\<lparr>cm_bytes := \<lambda>x. if unat (x - a) < length bs then Some (bs ! unat (x - a)) else cm_bytes m x\<rparr>)"
  using assms
proof (induction bs arbitrary: m a)
  case (Cons b bs)
  let ?m = "m\<lparr>cm_bytes := (cm_bytes m)(a \<mapsto> b)\<rparr>"
  have ok: "cm_bytes m (a + 1 + of_nat i) \<noteq> None \<and> cm_writable m (alignpage (a + 1 + of_nat i))" if "i < length bs" for i
    using Cons.prems(1) that by (auto simp: add.assoc dest: spec [of _ "Suc i"])
  have "write_bytes ?m (a + 1) bs = Some (?m\<lparr>cm_bytes := \<lambda>x. if unat (x - (a + 1)) < length bs then Some (bs ! unat (x - (a + 1))) else cm_bytes ?m x\<rparr>)"
    using Cons.prems(2) ok by (intro Cons.IH) auto
  moreover have "(if unat (x - (a + 1)) < length bs then Some (bs ! unat (x - (a + 1))) else cm_bytes ?m x) =
      (if unat (x - a) < length (b # bs) then Some ((b # bs) ! unat (x - a)) else cm_bytes m x)" for x
  proof (cases "x = a")
    case True
    have "unat (- 1 :: 64 word) = 2 ^ 64 - 1" by (simp add: unsigned_minus_1_eq_mask mask_eq_exp_minus_1)
    then have "\<not> unat (x - (a + 1)) < length bs" using True Cons.prems(2) by simp
    then show ?thesis using True by simp
  next
    case False
    then have "unat (x - (a + 1)) = unat (x - a) - 1" "0 < unat (x - a)" using unat_minus_one [of "x - a"] by (auto simp: algebra_simps unat_gt_0)
    then show ?thesis using False by (cases "unat (x - a)") auto
  qed
  moreover have "cm_bytes m a \<noteq> None" "cm_writable m (alignpage a)" using Cons.prems(1) by (auto dest: spec [of _ 0])
  ultimately show ?case by simp
qed simp

lemma read_bytes_mem: "\<forall>i < n. cm_bytes m (a + of_nat i) \<noteq> None \<Longrightarrow> read_bytes m a n = Some (map (\<lambda>i. the (cm_bytes m (a + of_nat i))) [0..<n])"
proof (induction n arbitrary: a)
  case (Suc n)
  have "\<forall>i < n. cm_bytes m (a + 1 + of_nat i) \<noteq> None" using Suc.prems by (auto simp: add.assoc dest: spec [of _ "Suc _"])
  moreover have "cm_bytes m a \<noteq> None" using Suc.prems by (auto dest: spec [of _ 0])
  ultimately show ?case using Suc.IH [of "a + 1"] by (auto simp: map_upt_Suc add.assoc simp del: upt_Suc)
qed simp

section \<open>Properties\<close>

text \<open>The memory after the jump has been written: five bytes differ.\<close>

definition jump_bytes :: "addr \<Rightarrow> addr \<Rightarrow> byte list" where
  "jump_bytes fn mock_fn = MOCK_JMPQ # u32_bytes (ucast (mock_fn - fn - 5))"

lemma length_jump_bytes [simp]: "length (jump_bytes fn mock_fn) = 5"
  by (simp add: jump_bytes_def)

definition patched :: "(addr \<Rightarrow> byte option) \<Rightarrow> addr \<Rightarrow> byte list \<Rightarrow> addr \<Rightarrow> byte option" where
  "patched h a bs x = (if unat (x - a) < length bs then Some (bs ! unat (x - a)) else h x)"

lemma write_bytes_patched:
  assumes "mapped m a (length bs)" "cm_writable m (alignpage a)" "length bs < 2 ^ 64"
  shows "write_bytes m a bs = Some (m\<lparr>cm_bytes := patched (cm_bytes m) a bs\<rparr>)"
  using assms write_bytes_mem [of bs m a] by (simp add: mapped_def patched_def [abs_def])

lemma write_bytes_first:
  "write_bytes m a (b # bs) = Some m' \<Longrightarrow> \<exists>m1. write_bytes m a [b] = Some m1 \<and> write_bytes m1 (a + 1) bs = Some m'"
  by (auto split: if_splits)

lemma patched_back:
  assumes "length bs \<le> n" "\<And>i. i < n \<Longrightarrow> h (a + of_nat i) = Some (cs ! i)" "length cs = n"
  shows "patched (patched h a bs) a cs = h"
proof
  fix x
  have "a + of_nat (unat (x - a)) = x" by simp
  then show "patched (patched h a bs) a cs x = h x" using assms(1,3) assms(2) [of "unat (x - a)"] by (auto simp: patched_def)
qed

lemma mapped_weaken: "mapped m a n \<Longrightarrow> k \<le> n \<Longrightarrow> mapped m a k"
  by (auto simp: mapped_def)

lemma mapped_same: "(\<And>x. cm_bytes m x \<noteq> None \<longleftrightarrow> cm_bytes m' x \<noteq> None) \<Longrightarrow> mapped m a n = mapped m' a n"
  by (simp add: mapped_def)

lemma read_bytes_writable [simp]: "read_bytes (m\<lparr>cm_writable := w\<rparr>) a n = read_bytes m a n"
  by (induction n arbitrary: a) auto

text \<open>Both calls of \<^verbatim>\<open>mprotect\<close> succeed and the bytes saved lie in the page of the function.\<close>

lemma mock_set_mem:
  assumes "mapped m fn (mk_len k)" "5 \<le> mk_len k" "mk_len k < 2 ^ 64"
  shows "\<exists>bs. read_bytes m fn (mk_len k) = Some bs \<and> mock_set m k fn mock_fn 0 0 =
     Some (0, \<lparr>cm_bytes = patched (cm_bytes m) fn (jump_bytes fn mock_fn), cm_writable = (cm_writable m)(alignpage fn := False)\<rparr>, k\<lparr>mk_fn := fn, mk_mock := bs\<rparr>)"
proof -
  let ?w = "m\<lparr>cm_writable := (cm_writable m)(alignpage fn := True)\<rparr>"
  obtain bs where bs: "read_bytes m fn (mk_len k) = Some bs" using read_bytes_mem [of "mk_len k" m fn] assms(1) by (auto simp: mapped_def)
  have w: "write_bytes ?w fn (jump_bytes fn mock_fn) = Some (?w\<lparr>cm_bytes := patched (cm_bytes m) fn (jump_bytes fn mock_fn)\<rparr>)"
    using write_bytes_patched [of ?w fn "jump_bytes fn mock_fn"] mapped_weaken [OF assms(1,2)] mapped_same [of ?w m] by simp
  have five: "(of_nat MOCK_LEN :: 64 word) = 5" by (simp add: MOCK_LEN_def)
  from w obtain w1 where w1: "write_bytes ?w fn [MOCK_JMPQ] = Some w1"
      "write_bytes w1 (fn + 1) (u32_bytes (ucast (mock_fn - fn - 5))) = Some (?w\<lparr>cm_bytes := patched (cm_bytes m) fn (jump_bytes fn mock_fn)\<rparr>)"
    using write_bytes_first unfolding jump_bytes_def by blast
  show ?thesis using bs w1 by (intro exI [of _ bs]) (simp add: mock_set_def mprotect_write_def mprotect_recovery_def five del: write_bytes.simps le_bytes.simps)
qed

lemma sint_ucast32: "sint (ucast d :: 32 word) = signed_take_bit 31 (sint d)" for d :: "64 word"
  by (subst signed_ucast_eq, subst sint_uint) (simp add: signed_take_bit_signed_take_bit)

lemma jump_target_patched:
  assumes "- (2 ^ 31) \<le> sint (mock_fn - fn - 5)" "sint (mock_fn - fn - 5) < 2 ^ 31"
  shows "jump_target \<lparr>cm_bytes = patched h fn (jump_bytes fn mock_fn), cm_writable = w\<rparr> fn = Some mock_fn"
proof -
  let ?m = "\<lparr>cm_bytes = patched h fn (jump_bytes fn mock_fn), cm_writable = w\<rparr>" and ?d = "mock_fn - fn - 5"
  have at: "cm_bytes ?m (fn + of_nat i) = Some (jump_bytes fn mock_fn ! i)" if "i < 5" for i
    using that by (simp add: patched_def unat_of_nat)
  then have "read_bytes ?m fn 5 = Some (map (\<lambda>i. jump_bytes fn mock_fn ! i) [0..<5])" using read_bytes_mem [of 5 ?m fn] by simp
  also have "map (\<lambda>i. jump_bytes fn mock_fn ! i) [0..<5] = jump_bytes fn mock_fn" by (rule nth_equalityI) auto
  finally have "read_bytes ?m fn 5 = Some (jump_bytes fn mock_fn)" .
  moreover have "sint (ucast ?d :: 32 word) = sint ?d" using assms sint_ucast32 [of ?d] by (simp add: signed_take_bit_int_eq_self)
  then have "(scast (ucast ?d :: 32 word) :: 64 word) = ?d" by (simp add: scast_eq)
  ultimately show ?thesis by (simp add: jump_target_def jump_bytes_def del: le_bytes.simps)
qed

text \<open>
  C22: Mocking a function and undoing it.  When the copy holds at least the five bytes of the jump, the function lies in one page of code and
  the replacement is less than 2 GB away, \<^verbatim>\<open>mock_set\<close> makes the processor continue at the replacement and changes no other byte, and
  \<^verbatim>\<open>mock_reset\<close> restores the memory and the protection of the page exactly.
\<close>

theorem mock_roundtrip:
  assumes "mapped m fn len" "5 \<le> len" "len < 2 ^ 64" "\<not> cm_writable m (alignpage fn)"
    and "- (2 ^ 31) \<le> sint (mock_fn - fn - 5)" "sint (mock_fn - fn - 5) < 2 ^ 31"
  shows "\<exists>m1 k. mock_set m (mock_init len) fn mock_fn 0 0 = Some (0, m1, k) \<and> jump_target m1 fn = Some mock_fn \<and>
    (\<forall>x. 5 \<le> unat (x - fn) \<longrightarrow> cm_bytes m1 x = cm_bytes m x) \<and> mock_reset m1 k 0 0 = Some (0, m)"
proof -
  let ?m1 = "\<lparr>cm_bytes = patched (cm_bytes m) fn (jump_bytes fn mock_fn), cm_writable = (cm_writable m)(alignpage fn := False)\<rparr>"
  have k: "mk_len (mock_init len) = len" by (simp add: mock_init_def)
  obtain bs where bs: "read_bytes m fn len = Some bs"
      "mock_set m (mock_init len) fn mock_fn 0 0 = Some (0, ?m1, mock_init len\<lparr>mk_fn := fn, mk_mock := bs\<rparr>)"
    using mock_set_mem [of m fn "mock_init len" mock_fn] assms(1-3) unfolding k by blast
  have b: "bs = map (\<lambda>i. the (cm_bytes m (fn + of_nat i))) [0..<len]" using read_bytes_mem [of len m fn] assms(1) bs(1) by (auto simp: mapped_def)
  have at: "cm_bytes m (fn + of_nat i) = Some (bs ! i)" if "i < len" for i using assms(1) that by (auto simp: b mapped_def)
  let ?w = "?m1\<lparr>cm_writable := (cm_writable ?m1)(alignpage fn := True)\<rparr>"
  have len: "length bs = len" using b by simp
  have "mapped ?w fn (length bs)" using assms(1) unfolding mapped_def len by (simp add: patched_def)
  then have "write_bytes ?w fn bs = Some (?w\<lparr>cm_bytes := patched (patched (cm_bytes m) fn (jump_bytes fn mock_fn)) fn bs\<rparr>)"
    using write_bytes_patched [of ?w fn bs] assms(3) len by simp
  moreover have "patched (patched (cm_bytes m) fn (jump_bytes fn mock_fn)) fn bs = cm_bytes m"
    using at assms(2) len by (intro patched_back [where n = len]) simp_all
  moreover have "(cm_writable m)(alignpage fn := False) = cm_writable m" using assms(4) by (auto simp: fun_eq_iff)
  ultimately have "mock_reset ?m1 (mock_init len\<lparr>mk_fn := fn, mk_mock := bs\<rparr>) 0 0 = Some (0, m)"
    using len by (cases m) (simp add: mock_reset_def mprotect_write_def mprotect_recovery_def mock_init_def)
  moreover have "cm_bytes ?m1 x = cm_bytes m x" if "5 \<le> unat (x - fn)" for x using that by (simp add: patched_def)
  ultimately show ?thesis using bs(2) jump_target_patched [OF assms(5,6)] by blast
qed

theorem mock_roundtrip_witness:
  "\<exists>m1 k. mock_set \<lparr>cm_bytes = (\<lambda>a. Some 0x90), cm_writable = (\<lambda>p. False)\<rparr> (mock_init 5) 8192 12293 0 0 = Some (0, m1, k) \<and>
    jump_target m1 8192 = Some 12293 \<and> mock_reset m1 k 0 0 = Some (0, \<lparr>cm_bytes = (\<lambda>a. Some 0x90), cm_writable = (\<lambda>p. False)\<rparr>)"
proof -
  have "mapped \<lparr>cm_bytes = (\<lambda>a. Some 0x90), cm_writable = (\<lambda>p. False)\<rparr> 8192 5"
    by (auto simp: mapped_def alignpage_def PAGE_SIZE_def eval_nat_numeral less_Suc_eq)
  then show ?thesis using mock_roundtrip [of "\<lparr>cm_bytes = (\<lambda>a. Some 0x90), cm_writable = (\<lambda>p. False)\<rparr>" 8192 5 12293] by auto
qed

end
