(* ===== verification/Options.thy ===== *)
theory Options
  imports Cli_Server
begin

text \<open>
  The options of a command, \<^verbatim>\<open>src/cli/options.c\<close>.  \<^verbatim>\<open>getopt_long\<close> is a parameter: given the arguments, the option string and the
  table of long options, the list of what its calls return before \<open>-1\<close>, each with the value of \<^verbatim>\<open>optarg\<close> (\<open>None\<close> for \<^verbatim>\<open>NULL\<close>).  \<^verbatim>\<open>strtod\<close>
  is a parameter too; a double is its 64 bits.  The variables behind the \<^verbatim>\<open>value\<close> pointers are a map from addresses to typed values; a
  store of another type than the variable has, or through a \<^verbatim>\<open>NULL\<close> argument, is undefined (\<open>None\<close>).
\<close>

section \<open>Options and their variables\<close>

datatype option_flag = OPTION_FLAG_NO_ARG | OPTION_FLAG_REQ_ARG | OPTION_FLAG_OPT_ARG

datatype option_type = OPTION_INT | OPTION_LONG | OPTION_FLOAT | OPTION_BOOL | OPTION_DOUBLE | OPTION_STRING32 | OPTION_STRING64 | OPTION_CALLBACK

datatype opt_value = V_Int "32 word" | V_Long "64 word" | V_Bool bool | V_Double "64 word" | V_Buf "byte list"

record cli_option =
  co_type :: option_type
  co_flag :: option_flag
  co_short :: byte
  co_long :: "byte list"
  co_value :: addr
  co_argh :: "byte list"
  co_help :: "byte list"
  co_callback :: "(opt_value \<Rightarrow> byte list option \<Rightarrow> opt_value option) option"
  co_defval :: int

type_synonym opt_store = "addr \<rightharpoonup> opt_value"

record long_option =
  lo_name :: "byte list option"
  lo_has_arg :: option_flag
  lo_val :: byte

definition no_long_option :: long_option where
  "no_long_option = \<lparr>lo_name = None, lo_has_arg = OPTION_FLAG_NO_ARG, lo_val = 0\<rparr>"

section \<open>The functions\<close>

fun print_help_loop :: "allocator \<Rightarrow> cmdprint_t \<Rightarrow> cli_option list \<Rightarrow> cmdprint_t option" where
  "print_help_loop alloc out [] = Some out"
| "print_help_loop alloc out (o1 # os) =
     do { out \<leftarrow> CMD_PRINTLN alloc out (ascii ''    -'' @ [co_short o1] @ ascii '', --'' @ co_long o1 @ [9] @ co_help o1);
          print_help_loop alloc out os }"

definition print_help :: "allocator \<Rightarrow> cmdprint_t \<Rightarrow> cli_option list \<Rightarrow> cmdprint_t option" where
  "print_help alloc out copts = do { out \<leftarrow> CMD_PRINTLN alloc out (ascii ''help:''); print_help_loop alloc out copts }"

fun find_option :: "cli_option list \<Rightarrow> byte \<Rightarrow> cli_option option" where
  "find_option [] c = None"
| "find_option (o1 # os) c = (if co_short o1 = c then Some o1 else find_option os c)"

text \<open>The characters of one option in the option string.\<close>

definition opt_chars :: "cli_option \<Rightarrow> byte list" where
  "opt_chars o1 =
     (case co_flag o1 of
        OPTION_FLAG_NO_ARG \<Rightarrow> [co_short o1]
      | OPTION_FLAG_REQ_ARG \<Rightarrow> [co_short o1, 58]
      | OPTION_FLAG_OPT_ARG \<Rightarrow> [co_short o1, 58, 58])"

text \<open>The loop that fills the two tables, from option \<open>i\<close> on.\<close>

fun build_tables :: "byte list \<Rightarrow> nat \<Rightarrow> long_option list \<Rightarrow> cli_option list \<Rightarrow> nat \<Rightarrow> (byte list \<times> long_option list) option" where
  "build_tables optstring idx longopts [] i = Some (optstring, longopts)"
| "build_tables optstring idx longopts (o1 # os) i =
     do { longopts \<leftarrow> put_index longopts (int (i + 1)) \<lparr>lo_name = Some (co_long o1), lo_has_arg = co_flag o1, lo_val = co_short o1\<rparr>;
          optstring \<leftarrow> put_bytes optstring idx (opt_chars o1);
          build_tables optstring (idx + length (opt_chars o1)) longopts os (i + 1) }"

definition option_tables :: "cli_option list \<Rightarrow> (byte list \<times> long_option list) option" where
  "option_tables copts =
     do { longopts \<leftarrow> put_index (replicate (length copts + 2) no_long_option) 0 \<lparr>lo_name = Some (ascii ''help''), lo_has_arg = OPTION_FLAG_NO_ARG, lo_val = 104\<rparr>;
          optstring \<leftarrow> put_bytes (replicate ((length copts + 1) * 3 + 1) 0) 0 [104];
          build_tables optstring 1 longopts copts 0 }"

text \<open>The switch over the type of the option: the new value of its variable.  \<^verbatim>\<open>OPTION_FLOAT\<close> has no case.\<close>

definition set_value :: "(byte list \<Rightarrow> 64 word) \<Rightarrow> cli_option \<Rightarrow> byte list option \<Rightarrow> opt_value \<Rightarrow> opt_value option" where
  "set_value strtod o1 optarg v =
     (case co_type o1 of
        OPTION_INT \<Rightarrow> (case v of V_Int _ \<Rightarrow> map_option (\<lambda>s. V_Int (word_of_int (fst (strtol s)))) optarg | _ \<Rightarrow> None)
      | OPTION_LONG \<Rightarrow> (case v of V_Long _ \<Rightarrow> map_option (\<lambda>s. V_Long (word_of_int (fst (strtol s)))) optarg | _ \<Rightarrow> None)
      | OPTION_FLOAT \<Rightarrow> Some v
      | OPTION_BOOL \<Rightarrow> (case v of V_Bool _ \<Rightarrow> Some (V_Bool True) | _ \<Rightarrow> None)
      | OPTION_DOUBLE \<Rightarrow> (case v of V_Double _ \<Rightarrow> map_option (\<lambda>s. V_Double (strtod s)) optarg | _ \<Rightarrow> None)
      | OPTION_STRING32 \<Rightarrow> (case v of V_Buf bs \<Rightarrow> if 31 \<le> length bs then map_option (\<lambda>s. V_Buf (strncpy bs s 31)) optarg else None | _ \<Rightarrow> None)
      | OPTION_STRING64 \<Rightarrow> (case v of V_Buf bs \<Rightarrow> if 63 \<le> length bs then map_option (\<lambda>s. V_Buf (strncpy bs s 63)) optarg else None | _ \<Rightarrow> None)
      | OPTION_CALLBACK \<Rightarrow> do { cb \<leftarrow> co_callback o1; cb v optarg })"

fun option_loop ::
  "allocator \<Rightarrow> (byte list \<Rightarrow> 64 word) \<Rightarrow> cli_option list \<Rightarrow> cmdprint_t \<Rightarrow> opt_store \<Rightarrow> (byte \<times> byte list option) list \<Rightarrow> (int \<times> cmdprint_t \<times> opt_store) option" where
  "option_loop alloc strtod copts out st [] = Some (0, out, st)"
| "option_loop alloc strtod copts out st ((c, optarg) # evs) =
     (if c = 104 then do { out \<leftarrow> print_help alloc out copts; Some (- EINVAL, out, st) }
      else (case find_option copts c of
              None \<Rightarrow> option_loop alloc strtod copts out st evs
            | Some o1 \<Rightarrow> do {
                v \<leftarrow> load st (co_value o1);
                v \<leftarrow> set_value strtod o1 optarg v;
                option_loop alloc strtod copts out (st(co_value o1 \<mapsto> v)) evs }))"

definition parse_options ::
  "(byte list list \<Rightarrow> byte list \<Rightarrow> long_option list \<Rightarrow> (byte \<times> byte list option) list) \<Rightarrow> allocator \<Rightarrow> (byte list \<Rightarrow> 64 word) \<Rightarrow>
   cmdprint_t \<Rightarrow> opt_store \<Rightarrow> byte list list \<Rightarrow> cli_option list \<Rightarrow> (int \<times> cmdprint_t \<times> opt_store) option" where
  "parse_options getopt_long alloc strtod out st argv copts =
     do { (optstring, longopts) \<leftarrow> option_tables copts;
          s \<leftarrow> string_at optstring 0;
          option_loop alloc strtod copts out st (getopt_long (ascii ''temp'' # argv) s longopts) }"

section \<open>The tables\<close>

definition long_of :: "cli_option \<Rightarrow> long_option" where
  "long_of o1 = \<lparr>lo_name = Some (co_long o1), lo_has_arg = co_flag o1, lo_val = co_short o1\<rparr>"

definition opt_string :: "cli_option list \<Rightarrow> byte list" where
  "opt_string copts = 104 # concat (map opt_chars copts)"

definition long_table :: "cli_option list \<Rightarrow> long_option list" where
  "long_table copts = \<lparr>lo_name = Some (ascii ''help''), lo_has_arg = OPTION_FLAG_NO_ARG, lo_val = 104\<rparr> # map long_of copts @ [no_long_option]"

lemma length_opt_chars: "length (opt_chars o1) \<le> 3"
  by (simp add: opt_chars_def split: option_flag.splits)

lemma build_tables_ok:
  "length ls = i + 1 \<Longrightarrow> 3 * length os < k \<Longrightarrow>
   \<exists>j. build_tables (t @ replicate k 0) (length t) (ls @ replicate (length os + 1) no_long_option) os i =
     Some (t @ concat (map opt_chars os) @ replicate (Suc j) 0, ls @ map long_of os @ [no_long_option])"
proof (induction os arbitrary: t ls i k)
  case Nil
  then show ?case by (cases k) auto
next
  case (Cons o1 os)
  let ?c = "opt_chars o1"
  have len: "length ?c \<le> 3" by (rule length_opt_chars)
  have "put_index (ls @ replicate (length (o1 # os) + 1) no_long_option) (int (i + 1)) (long_of o1) =
      Some ((ls @ [long_of o1]) @ replicate (length os + 1) no_long_option)"
    using Cons.prems(1) put_index_nat [of "i + 1" "ls @ replicate (length (o1 # os) + 1) no_long_option" "long_of o1"] by (simp add: list_update_append)
  moreover have "put_bytes (t @ replicate k 0) (length t) ?c = Some ((t @ ?c) @ replicate (k - length ?c) 0)"
    using Cons.prems(2) len by (simp add: put_bytes_def)
  moreover have "\<exists>j. build_tables ((t @ ?c) @ replicate (k - length ?c) 0) (length (t @ ?c)) ((ls @ [long_of o1]) @ replicate (length os + 1) no_long_option) os (i + 1) =
      Some ((t @ ?c) @ concat (map opt_chars os) @ replicate (Suc j) 0, (ls @ [long_of o1]) @ map long_of os @ [no_long_option])"
    using Cons.prems len by (intro Cons.IH) auto
  ultimately show ?case by (simp flip: long_of_def del: replicate_Suc)
qed

lemma option_tables_ok: "\<exists>j. option_tables copts = Some (opt_string copts @ replicate (Suc j) 0, long_table copts)"
proof -
  let ?h = "\<lparr>lo_name = Some (ascii ''help''), lo_has_arg = OPTION_FLAG_NO_ARG, lo_val = 104\<rparr>"
  have "put_index (replicate (length copts + 2) no_long_option) 0 ?h = Some ([?h] @ replicate (length copts + 1) no_long_option)"
    using put_index_nat [of 0 "replicate (length copts + 2) no_long_option" ?h] by simp
  moreover have "put_bytes (replicate ((length copts + 1) * 3 + 1) 0) 0 [104] = Some ([104] @ replicate (3 * length copts + 3) 0)"
    by (simp add: put_bytes_def algebra_simps)
  moreover have "\<exists>j. build_tables ([104] @ replicate (3 * length copts + 3) 0) (length [104 :: byte]) ([?h] @ replicate (length copts + 1) no_long_option) copts 0 =
      Some ([104] @ concat (map opt_chars copts) @ replicate (Suc j) 0, [?h] @ map long_of copts @ [no_long_option])"
    by (rule build_tables_ok) simp_all
  ultimately show ?thesis by (auto simp: option_tables_def opt_string_def long_table_def simp del: replicate_Suc)
qed

section \<open>Values\<close>

text \<open>The variable has the type of the option; the argument is there when the option needs one.\<close>

fun fits :: "option_type \<Rightarrow> opt_value \<Rightarrow> bool" where
  "fits OPTION_INT (V_Int _) = True"
| "fits OPTION_LONG (V_Long _) = True"
| "fits OPTION_FLOAT v = True"
| "fits OPTION_BOOL (V_Bool _) = True"
| "fits OPTION_DOUBLE (V_Double _) = True"
| "fits OPTION_STRING32 (V_Buf bs) = (31 \<le> length bs)"
| "fits OPTION_STRING64 (V_Buf bs) = (63 \<le> length bs)"
| "fits _ _ = False"

definition needs_arg :: "option_type \<Rightarrow> bool" where
  "needs_arg t \<longleftrightarrow> t \<noteq> OPTION_FLOAT \<and> t \<noteq> OPTION_BOOL"

lemma strncpy_last: "n \<le> length bs \<Longrightarrow> strncpy (strncpy bs s n) u n = strncpy bs u n"
  by (simp add: strncpy_def)

lemma set_value_fits:
  assumes "fits (co_type o1) v" "needs_arg (co_type o1) \<Longrightarrow> a \<noteq> None"
  shows "\<exists>v'. set_value strtod o1 a v = Some v' \<and> fits (co_type o1) v' \<and> (\<forall>b. set_value strtod o1 b v' = set_value strtod o1 b v)"
  using assms by (cases "co_type o1"; cases v) (auto simp: set_value_def needs_arg_def strncpy_last)

lemma find_option_member:
  assumes "distinct (map co_short copts)" "o1 \<in> set copts"
  shows "find_option copts (co_short o1) = Some o1"
  using assms by (induction copts) (auto simp: image_iff dest: sym)

lemma find_option_SomeD: "find_option copts c = Some o1 \<Longrightarrow> o1 \<in> set copts \<and> co_short o1 = c"
  by (induction copts) (auto split: if_splits)

text \<open>The argument of the last occurrence of an option.\<close>

fun last_arg :: "byte \<Rightarrow> (byte \<times> byte list option) list \<Rightarrow> byte list option option" where
  "last_arg c [] = None"
| "last_arg c ((d, a) # evs) = (case last_arg c evs of Some x \<Rightarrow> Some x | None \<Rightarrow> if d = c then Some a else None)"

definition opts_ok :: "cli_option list \<Rightarrow> opt_store \<Rightarrow> bool" where
  "opts_ok copts st \<longleftrightarrow> distinct (map co_short copts) \<and> distinct (map co_value copts) \<and>
     (\<forall>o1 \<in> set copts. co_short o1 \<noteq> 0 \<and> co_value o1 \<noteq> NULL \<and> (\<exists>v. st (co_value o1) = Some v \<and> fits (co_type o1) v))"

definition evs_ok :: "cli_option list \<Rightarrow> (byte \<times> byte list option) list \<Rightarrow> bool" where
  "evs_ok copts evs \<longleftrightarrow> (\<forall>(c, a) \<in> set evs. c \<noteq> 104 \<and> (\<forall>o1 \<in> set copts. co_short o1 = c \<longrightarrow> needs_arg (co_type o1) \<longrightarrow> a \<noteq> None))"

text \<open>The variable of an option after all occurrences have been handled.\<close>

definition final_value :: "(byte list \<Rightarrow> 64 word) \<Rightarrow> opt_store \<Rightarrow> (byte \<times> byte list option) list \<Rightarrow> cli_option \<Rightarrow> opt_value option" where
  "final_value strtod st evs o1 =
     (case last_arg (co_short o1) evs of
        None \<Rightarrow> st (co_value o1)
      | Some a \<Rightarrow> do { v \<leftarrow> st (co_value o1); set_value strtod o1 a v })"

lemma value_member:
  assumes "distinct (map co_value copts)" "o1 \<in> set copts" "o2 \<in> set copts" "co_value o1 = co_value o2"
  shows "o1 = o2"
  using assms by (metis distinct_map inj_onD)

lemma short_member:
  assumes "distinct (map co_short copts)" "o1 \<in> set copts" "o2 \<in> set copts" "co_short o1 = co_short o2"
  shows "o1 = o2"
  using assms by (metis distinct_map inj_onD)

lemma option_loop_last:
  assumes "opts_ok copts st" "evs_ok copts evs"
  shows "\<exists>st'. option_loop alloc strtod copts out st evs = Some (0, out, st') \<and> (\<forall>o1 \<in> set copts. st' (co_value o1) = final_value strtod st evs o1) \<and>
     (\<forall>p. p \<notin> co_value ` set copts \<longrightarrow> st' p = st p)"
  using assms
proof (induction evs arbitrary: st)
  case Nil
  then show ?case by (simp add: final_value_def)
next
  case (Cons e evs)
  obtain c a where e: "e = (c, a)" by (cases e)
  have evs: "evs_ok copts evs" "c \<noteq> 104" using Cons.prems(2) by (auto simp: evs_ok_def e)
  show ?case
  proof (cases "find_option copts c")
    case None
    then have "co_short o1 \<noteq> c" if "o1 \<in> set copts" for o1
      using that find_option_member [of copts o1] Cons.prems(1) by (auto simp: opts_ok_def)
    then have "final_value strtod st (e # evs) o1 = final_value strtod st evs o1" if "o1 \<in> set copts" for o1
      using that by (auto simp: final_value_def e split: option.splits)
    then show ?thesis using Cons.IH [OF Cons.prems(1) evs(1)] None evs(2) e by auto
  next
    case (Some o2)
    then have o2: "o2 \<in> set copts" "co_short o2 = c" using find_option_SomeD [of copts c o2] by auto
    then obtain v where v: "st (co_value o2) = Some v" "fits (co_type o2) v" "co_value o2 \<noteq> NULL" using Cons.prems(1) by (auto simp: opts_ok_def)
    obtain v' where v': "set_value strtod o2 a v = Some v'" "fits (co_type o2) v'" "\<And>b. set_value strtod o2 b v' = set_value strtod o2 b v"
      using set_value_fits [OF v(2), of a strtod] Cons.prems(2) o2 by (auto simp: evs_ok_def e)
    let ?st = "st(co_value o2 \<mapsto> v')"
    have "opts_ok copts ?st" using Cons.prems(1) v'(2) o2(1) value_member [of copts _ o2] by (auto simp: opts_ok_def)
    then obtain st' where st': "option_loop alloc strtod copts out ?st evs = Some (0, out, st')" "\<forall>o1 \<in> set copts. st' (co_value o1) = final_value strtod ?st evs o1"
        "\<forall>p. p \<notin> co_value ` set copts \<longrightarrow> st' p = ?st p"
      using Cons.IH [OF _ evs(1)] by blast
    have "final_value strtod ?st evs o1 = final_value strtod st (e # evs) o1" if "o1 \<in> set copts" for o1
    proof (cases "o1 = o2")
      case True
      then show ?thesis using v(1) v'(1,3) o2(2) by (auto simp: final_value_def e split: option.splits)
    next
      case False
      then have "co_value o1 \<noteq> co_value o2" "co_short o1 \<noteq> c"
        using that o2 value_member [of copts o1 o2] short_member [of copts o1 o2] Cons.prems(1) by (auto simp: opts_ok_def)
      then show ?thesis by (auto simp: final_value_def e split: option.splits)
    qed
    then show ?thesis using st' Some evs(2) v v'(1) o2(1) e by (auto simp: load_known)
  qed
qed

lemma opt_string_plain: "\<forall>o1 \<in> set copts. co_short o1 \<noteq> 0 \<Longrightarrow> 0 \<notin> set (opt_string copts)"
  by (auto simp: opt_string_def opt_chars_def split: option_flag.splits)

lemma parse_options_loop:
  assumes "\<forall>o1 \<in> set copts. co_short o1 \<noteq> 0"
  shows "parse_options getopt_long alloc strtod out st argv copts =
    option_loop alloc strtod copts out st (getopt_long (ascii ''temp'' # argv) (opt_string copts) (long_table copts))"
proof -
  obtain j where "option_tables copts = Some (opt_string copts @ replicate (Suc j) 0, long_table copts)" using option_tables_ok by blast
  moreover have "string_at (opt_string copts @ replicate (Suc j) 0) 0 = Some (opt_string copts)"
    using string_at_terminated [OF opt_string_plain [OF assms], of "[]" "replicate j 0"] by simp
  ultimately show ?thesis by (simp add: parse_options_def)
qed

section \<open>Properties\<close>


definition sample_opts :: "cli_option list" where
  "sample_opts =
     [\<lparr>co_type = OPTION_INT, co_flag = OPTION_FLAG_REQ_ARG, co_short = 97, co_long = ascii ''age'', co_value = 8, co_argh = [], co_help = [], co_callback = None, co_defval = 0\<rparr>,
      \<lparr>co_type = OPTION_BOOL, co_flag = OPTION_FLAG_OPT_ARG, co_short = 112, co_long = ascii ''pass'', co_value = 16, co_argh = [], co_help = [], co_callback = None, co_defval = 0\<rparr>]"


end
