(* ===== verification/Cli_Example.thy ===== *)
theory Cli_Example
  imports Option_Types
begin

text \<open>
  The server with two commands of its own, \<^verbatim>\<open>src/cli/cli_server_example.c\<close>.  A struct on the stack is a group of typed variables at their offsets
  from its address; \<^verbatim>\<open>printf\<close> of a double and of a hexadecimal number are parameters.
\<close>

section \<open>Fields\<close>

definition int_field :: "opt_store \<Rightarrow> addr \<Rightarrow> 32 word option" where
  "int_field st p = (case load st p of Some (V_Int v) \<Rightarrow> Some v | _ \<Rightarrow> None)"

definition long_field :: "opt_store \<Rightarrow> addr \<Rightarrow> 64 word option" where
  "long_field st p = (case load st p of Some (V_Long v) \<Rightarrow> Some v | _ \<Rightarrow> None)"

definition bool_field :: "opt_store \<Rightarrow> addr \<Rightarrow> bool option" where
  "bool_field st p = (case load st p of Some (V_Bool v) \<Rightarrow> Some v | _ \<Rightarrow> None)"

definition double_field :: "opt_store \<Rightarrow> addr \<Rightarrow> 64 word option" where
  "double_field st p = (case load st p of Some (V_Double v) \<Rightarrow> Some v | _ \<Rightarrow> None)"

definition string_field :: "opt_store \<Rightarrow> addr \<Rightarrow> byte list option" where
  "string_field st p = (case load st p of Some (V_Buf bs) \<Rightarrow> string_at bs 0 | _ \<Rightarrow> None)"

definition CMD_PRINT :: "allocator \<Rightarrow> cmdprint_t \<Rightarrow> byte list \<Rightarrow> cmdprint_t option" where
  "CMD_PRINT alloc out t = cdp_print alloc out t"

text \<open>\<^verbatim>\<open>"==> name: ...\n"\<close>\<close>

definition report :: "string \<Rightarrow> byte list \<Rightarrow> byte list" where
  "report name t = ascii ''==> '' @ ascii name @ ascii '': '' @ t @ [10]"

type_synonym getopt_fn = "byte list list \<Rightarrow> byte list \<Rightarrow> long_option list \<Rightarrow> (byte \<times> byte list option) list"

section \<open>The command \<^verbatim>\<open>stu\<close>\<close>

definition student_opts :: "addr \<Rightarrow> cli_option list" where
  "student_opts s =
     [OPT_STRING32 110 (ascii ''name'') s (ascii ''student name''),
      OPT_INT 97 (ascii ''age'') (s + 32) (ascii ''student age''),
      OPT_INT 115 (ascii ''sex'') (s + 36) (ascii ''student sex''),
      OPT_DOUBLE 83 (ascii ''score'') (s + 40) (ascii ''student score''),
      OPT_BOOL 112 (ascii ''pass'') (s + 48) (ascii ''student score'')]"

definition student_zero :: "addr \<Rightarrow> opt_store" where
  "student_zero s = [s \<mapsto> V_Buf (replicate 32 0), s + 32 \<mapsto> V_Int 0, s + 36 \<mapsto> V_Int 0, s + 40 \<mapsto> V_Double 0, s + 48 \<mapsto> V_Bool False]"

definition cmd_student ::
  "getopt_fn \<Rightarrow> allocator \<Rightarrow> (byte list \<Rightarrow> 64 word) \<Rightarrow> (64 word \<Rightarrow> byte list) \<Rightarrow> addr \<Rightarrow> cmdprint_t \<Rightarrow> byte list list \<Rightarrow> cmdprint_t option" where
  "cmd_student getopt_long alloc strtod lf s out argv =
     do { (ret, out, st) \<leftarrow> parse_options getopt_long alloc strtod out (student_zero s) argv (student_opts s);
          if ret \<noteq> 0 then Some out
          else do {
            name \<leftarrow> string_field st s;
            out \<leftarrow> CMD_PRINT alloc out (report ''name'' name);
            age \<leftarrow> int_field st (s + 32);
            out \<leftarrow> CMD_PRINT alloc out (report ''age'' (dec_int (sint age)));
            sex \<leftarrow> int_field st (s + 36);
            out \<leftarrow> CMD_PRINT alloc out (report ''sex'' (dec_int (sint sex)));
            score \<leftarrow> double_field st (s + 40);
            out \<leftarrow> CMD_PRINT alloc out (report ''score'' (lf score));
            pass \<leftarrow> bool_field st (s + 48);
            CMD_PRINT alloc out (report ''pass'' (if pass then ascii ''true'' else ascii ''false'')) } }"

section \<open>The command \<^verbatim>\<open>fault\<close>\<close>

definition fault_opts :: "addr \<Rightarrow> cli_option list" where
  "fault_opts f =
     [OPT_STRING64 110 (ascii ''name'') f (ascii ''fault name''),
      OPT_BOOL 101 (ascii ''enable'') (f + 64) (ascii ''fault switch''),
      OPT_INT 115 (ascii ''sleep_time'') (f + 68) (ascii ''faullt sleep time''),
      OPT_INT 97 (ascii ''after_times'') (f + 72) (ascii ''fault after times''),
      OPT_INT 69 (ascii ''enable_times'') (f + 76) (ascii ''fault enable times''),
      OPT_INT 114 (ascii ''inject_err'') (f + 80) (ascii ''fault inject error''),
      OPT_INT 72 (ascii ''hit_times'') (f + 84) (ascii ''fault hit times''),
      OPT_LONG 112 (ascii ''private'') (f + 88) (ascii ''fault private data'')]"

definition fault_zero :: "addr \<Rightarrow> opt_store" where
  "fault_zero f =
     [f \<mapsto> V_Buf (replicate 64 0), f + 64 \<mapsto> V_Bool False, f + 68 \<mapsto> V_Int 0, f + 72 \<mapsto> V_Int 0, f + 76 \<mapsto> V_Int 0, f + 80 \<mapsto> V_Int 0,
      f + 84 \<mapsto> V_Int 0, f + 88 \<mapsto> V_Long 0]"

definition cmd_fault ::
  "getopt_fn \<Rightarrow> allocator \<Rightarrow> (byte list \<Rightarrow> 64 word) \<Rightarrow> (64 word \<Rightarrow> byte list) \<Rightarrow> addr \<Rightarrow> cmdprint_t \<Rightarrow> byte list list \<Rightarrow> cmdprint_t option" where
  "cmd_fault getopt_long alloc strtod lx f out argv =
     do { (ret, out, st) \<leftarrow> parse_options getopt_long alloc strtod out (fault_zero f) argv (fault_opts f);
          if ret \<noteq> 0 then Some out
          else do {
            name \<leftarrow> string_field st f;
            out \<leftarrow> CMD_PRINT alloc out (report ''name'' name);
            enable \<leftarrow> bool_field st (f + 64);
            out \<leftarrow> CMD_PRINT alloc out (report ''enable'' (dec_int (if enable then 1 else 0)));
            sleep_time \<leftarrow> int_field st (f + 68);
            out \<leftarrow> CMD_PRINT alloc out (report ''sleep_time'' (dec_int (sint sleep_time)));
            after_times \<leftarrow> int_field st (f + 72);
            out \<leftarrow> CMD_PRINT alloc out (report ''after_time'' (dec_int (sint after_times)));
            enable_times \<leftarrow> int_field st (f + 76);
            out \<leftarrow> CMD_PRINT alloc out (report ''enable_times'' (dec_int (sint enable_times)));
            inject_err \<leftarrow> int_field st (f + 80);
            out \<leftarrow> CMD_PRINT alloc out (report ''inject_err'' (dec_int (sint inject_err)));
            hit_times \<leftarrow> int_field st (f + 84);
            out \<leftarrow> CMD_PRINT alloc out (report ''hit_times'' (dec_int (sint hit_times)));
            priv \<leftarrow> long_field st (f + 88);
            CMD_PRINT alloc out (report ''private'' (lx priv)) } }"

section \<open>The program\<close>

text \<open>\<^verbatim>\<open>main\<close> up to its endless loop; what it does with the results of the calls is nothing.\<close>

definition example_main :: "allocator \<Rightarrow> create_answers \<Rightarrow> addr \<Rightarrow> addr \<Rightarrow> addr \<Rightarrow> addr \<Rightarrow> cli_state option" where
  "example_main alloc ans help_fn test_fn student_fn fault_fn =
     do { (_, st) \<leftarrow> cli_create alloc ans help_fn test_fn cli_initial (ascii ''wchen'');
          (_, st) \<leftarrow> cli_register st (ascii ''stu'') (ascii ''query student'') student_fn;
          (_, st) \<leftarrow> cli_register st (ascii ''fault'') (ascii ''fault inject'') fault_fn;
          Some st }"

section \<open>What \<^verbatim>\<open>stu\<close> prints\<close>

definition int_arg :: "(byte \<times> byte list option) list \<Rightarrow> byte \<Rightarrow> int" where
  "int_arg evs c = (case last_arg c evs of Some (Some a) \<Rightarrow> sint (word_of_int (fst (strtol a)) :: 32 word) | _ \<Rightarrow> 0)"

definition string_arg :: "(byte \<times> byte list option) list \<Rightarrow> byte \<Rightarrow> byte list" where
  "string_arg evs c = (case last_arg c evs of Some (Some a) \<Rightarrow> take 31 (takeWhile (\<lambda>b. b \<noteq> 0) a) | _ \<Rightarrow> [])"

definition double_arg :: "(byte list \<Rightarrow> 64 word) \<Rightarrow> (byte \<times> byte list option) list \<Rightarrow> byte \<Rightarrow> 64 word" where
  "double_arg strtod evs c = (case last_arg c evs of Some (Some a) \<Rightarrow> strtod a | _ \<Rightarrow> 0)"

definition student_lines :: "(byte list \<Rightarrow> 64 word) \<Rightarrow> (64 word \<Rightarrow> byte list) \<Rightarrow> (byte \<times> byte list option) list \<Rightarrow> byte list list" where
  "student_lines strtod lf evs =
     [report ''name'' (string_arg evs 110), report ''age'' (dec_int (int_arg evs 97)), report ''sex'' (dec_int (int_arg evs 115)),
      report ''score'' (lf (double_arg strtod evs 83)),
      report ''pass'' (if last_arg 112 evs \<noteq> None then ascii ''true'' else ascii ''false'')]"

lemma string_at_strncpy: "string_at (strncpy (replicate 32 0) a 31) 0 = Some (take 31 (takeWhile (\<lambda>b. b \<noteq> 0) a))"
proof -
  let ?w = "takeWhile (\<lambda>b. b \<noteq> 0) a"
  have "strncpy (replicate 32 0) a 31 = take 31 ?w @ 0 # replicate (31 - length (take 31 ?w)) 0"
    by (simp add: strncpy_def replicate_append_same [symmetric] min_def flip: replicate_Suc)
      (simp add: replicate_append_same)
  moreover have "0 \<notin> set (take 31 ?w)" by (auto dest: in_set_takeD set_takeWhileD)
  ultimately show ?thesis using string_at_terminated [of "take 31 ?w" "[]"] by simp
qed

lemma last_arg_in: "last_arg c evs = Some a \<Longrightarrow> (c, a) \<in> set evs"
  by (induction c evs rule: last_arg.induct) (auto split: option.splits if_splits)

lemma last_arg_given:
  assumes "args_given copts evs" and "o1 \<in> set copts" and "co_flag o1 = OPTION_FLAG_REQ_ARG"
  shows "last_arg (co_short o1) evs \<noteq> Some None"
  using assms by (auto simp: args_given_def dest!: last_arg_in)

text \<open>The struct does not contain the address \<^verbatim>\<open>NULL\<close>.\<close>

definition placed :: "cli_option list \<Rightarrow> bool" where
  "placed copts \<longleftrightarrow> NULL \<notin> co_value ` set copts"

lemma opts_ok_five:
  assumes "distinct [p1, p2, p3, p4, p5]" and "NULL \<notin> {p1, p2, p3, p4, p5}"
  shows "opts_ok [OPT_STRING32 110 n1 p1 h1, OPT_INT 97 n2 p2 h2, OPT_INT 115 n3 p3 h3, OPT_DOUBLE 83 n4 p4 h4, OPT_BOOL 112 n5 p5 h5]
    [p1 \<mapsto> V_Buf (replicate 32 0), p2 \<mapsto> V_Int 0, p3 \<mapsto> V_Int 0, p4 \<mapsto> V_Double 0, p5 \<mapsto> V_Bool False]"
  using assms by (auto simp: opts_ok_def opt_macros)

lemma student_placed: "placed (student_opts s) \<longleftrightarrow> NULL \<notin> {s, s + 32, s + 36, s + 40, s + 48}"
  unfolding placed_def student_opts_def opt_macros by (simp only: list.set image_insert image_empty cli_option.simps)

lemma student_opts_ok:
  assumes "placed (student_opts s)"
  shows "opts_ok (student_opts s) (student_zero s)"
proof -
  have "distinct [s, s + 32, s + 36, s + 40, s + 48]" by simp
  from opts_ok_five [OF this assms [unfolded student_placed]] show ?thesis
    unfolding student_opts_def student_zero_def .
qed

lemma student_evs_ok: "args_given (student_opts s) evs \<Longrightarrow> 104 \<notin> fst ` set evs \<Longrightarrow> evs_ok (student_opts s) evs"
  by (force simp: args_given_def evs_ok_def student_opts_def opt_macros needs_arg_def)

lemma student_fields:
  assumes "placed (student_opts s)" and "args_given (student_opts s) evs"
    and st: "\<forall>o1 \<in> set (student_opts s). st (co_value o1) = final_value strtod (student_zero s) evs o1"
  shows "string_field st s = Some (string_arg evs 110)"
    and "map_option sint (int_field st (s + 32)) = Some (int_arg evs 97)"
    and "map_option sint (int_field st (s + 36)) = Some (int_arg evs 115)"
    and "double_field st (s + 40) = Some (double_arg strtod evs 83)"
    and "bool_field st (s + 48) = Some (last_arg 112 evs \<noteq> None)"
proof -
  have nn: "s \<noteq> NULL" "s + 32 \<noteq> NULL" "s + 36 \<noteq> NULL" "s + 40 \<noteq> NULL" "s + 48 \<noteq> NULL"
    using assms(1) unfolding student_placed by simp_all
  have given: "last_arg 110 evs \<noteq> Some None" "last_arg 97 evs \<noteq> Some None" "last_arg 115 evs \<noteq> Some None" "last_arg 83 evs \<noteq> Some None"
  proof -
    have "\<forall>o1 \<in> set (student_opts s). co_flag o1 = OPTION_FLAG_REQ_ARG \<longrightarrow> last_arg (co_short o1) evs \<noteq> Some None"
      using last_arg_given [OF assms(2)] by blast
    then show "last_arg 110 evs \<noteq> Some None" "last_arg 97 evs \<noteq> Some None" "last_arg 115 evs \<noteq> Some None" "last_arg 83 evs \<noteq> Some None"
      by (simp_all add: student_opts_def opt_macros)
  qed
  have v: "st s = final_value strtod (student_zero s) evs (student_opts s ! 0)" "st (s + 32) = final_value strtod (student_zero s) evs (student_opts s ! 1)"
    "st (s + 36) = final_value strtod (student_zero s) evs (student_opts s ! 2)" "st (s + 40) = final_value strtod (student_zero s) evs (student_opts s ! 3)"
    "st (s + 48) = final_value strtod (student_zero s) evs (student_opts s ! 4)"
    using st by (simp_all add: student_opts_def opt_macros)
  note defs = final_value_def student_opts_def student_zero_def opt_macros set_value_def load_def
  have z: "string_at (replicate 32 0) 0 = Some []" using string_at_terminated [of "[]" "[]" "replicate 31 0"] by (simp flip: replicate_Suc)
  show "string_field st s = Some (string_arg evs 110)"
    using given(1) nn(1) by (simp add: string_field_def v(1) defs string_arg_def z string_at_strncpy split: option.splits)
  show "map_option sint (int_field st (s + 32)) = Some (int_arg evs 97)"
    using given(2) nn(2) by (simp add: int_field_def v(2) defs int_arg_def split: option.splits)
  show "map_option sint (int_field st (s + 36)) = Some (int_arg evs 115)"
    using given(3) nn(3) by (simp add: int_field_def v(3) defs int_arg_def split: option.splits)
  show "double_field st (s + 40) = Some (double_arg strtod evs 83)"
    using given(4) nn(4) by (simp add: double_field_def v(4) defs double_arg_def split: option.splits)
  show "bool_field st (s + 48) = Some (last_arg 112 evs \<noteq> None)"
    using nn(5) by (simp add: bool_field_def v(5) defs split: option.splits)
qed

text \<open>
  The command \<^verbatim>\<open>stu\<close> on any command line: with \<^verbatim>\<open>-h\<close> somewhere it prints the help, and otherwise a line per field with the last value given, or
  zero; a name is cut after 31 bytes.
\<close>

lemma cmd_student_prints:
  assumes "placed (student_opts s)" and evs: "evs = getopt_long (ascii ''temp'' # argv) (opt_string (student_opts s)) (long_table (student_opts s))"
    and "args_given (student_opts s) evs" and "104 \<notin> fst ` set evs"
  shows "cmd_student getopt_long alloc strtod lf s out argv = cdp_prints alloc out (student_lines strtod lf evs)"
proof -
  obtain st where "option_loop alloc strtod (student_opts s) out (student_zero s) evs = Some (0, out, st)"
    and st: "\<forall>o1 \<in> set (student_opts s). st (co_value o1) = final_value strtod (student_zero s) evs o1"
    using option_loop_last [OF student_opts_ok [OF assms(1)] student_evs_ok [OF assms(3,4)]] by blast
  moreover have "\<forall>o1 \<in> set (student_opts s). co_short o1 \<noteq> 0" by (simp add: student_opts_def opt_macros)
  ultimately have p: "parse_options getopt_long alloc strtod out (student_zero s) argv (student_opts s) = Some (0, out, st)"
    by (simp add: parse_options_loop evs)
  from student_fields [OF assms(1,3) st] show ?thesis
    by (auto simp: cmd_student_def p CMD_PRINT_def student_lines_def)
qed

text \<open>Both tables are well typed for the structs they point into, so that \<^verbatim>\<open>parse_options\<close> does not go wrong on them.\<close>

definition types_of :: "opt_store \<Rightarrow> addr \<rightharpoonup> c_type" where
  "types_of st p = map_option value_type (st p)"

lemma types_of_typed: "NULL \<notin> dom st \<Longrightarrow> store_typed (types_of st) st"
  by (auto simp: types_of_def store_typed_def)

lemma example_opts_typed:
  "\<forall>o1 \<in> set (student_opts s). opt_typed (types_of (student_zero s)) o1"
  "\<forall>o1 \<in> set (fault_opts f). opt_typed (types_of (fault_zero f)) o1"
  by (simp_all add: student_opts_def student_zero_def fault_opts_def fault_zero_def types_of_def
      typed_int typed_long typed_bool typed_double typed_string32 [of _ _ 32] typed_string64 [of _ _ 64])

end
