(* ===== verification/Json_Helper.thy ===== *)
theory Json_Helper
  imports Byte_Codec
begin

text \<open>
  \<^verbatim>\<open>src/json_helper.c\<close>: the members of a JSON object are stored into the fields of a struct, as a table says.  The cJSON library is not part of the
  program: \<open>get\<close> is \<^verbatim>\<open>cJSON_GetObjectItem\<close> on the object at hand, an item its three value fields.  The struct is its bytes; a store
  outside of it is undefined (\<open>None\<close>), as is an access to a member that is \<^verbatim>\<open>NULL\<close>.  Doubles are their 64 bits; the conversion to \<^verbatim>\<open>float\<close> is
  the parameter \<open>to_float\<close>.
\<close>

record cjson_item =
  ji_valueint :: "32 word"
  ji_valuedouble :: "64 word"
  ji_valuestring :: "byte list option"

record json2struct_t =
  js_name :: "byte list"
  js_type :: byte
  js_offset :: nat
  js_length :: nat
  js_must :: bool

definition CH_TYPE_INT :: byte where "CH_TYPE_INT = 1"

definition CH_TYPE_FLOAT :: byte where "CH_TYPE_FLOAT = 2"

definition CH_TYPE_STRING :: byte where "CH_TYPE_STRING = 3"

text \<open>The bytes that one entry stores; no store for an unknown type, which does not look at the item.\<close>

definition int_bytes :: "nat \<Rightarrow> 32 word \<Rightarrow> byte list" where
  "int_bytes len v =
     (if len = 1 then le_bytes 1 v else if len = 2 then le_bytes 2 v else if len = 4 then u32_bytes v else u64_bytes (scast v))"

definition float_bytes :: "(64 word \<Rightarrow> 32 word) \<Rightarrow> nat \<Rightarrow> 64 word \<Rightarrow> byte list" where
  "float_bytes to_float len v = (if len = 4 then u32_bytes (to_float v) else u64_bytes v)"

definition entry_bytes :: "(64 word \<Rightarrow> 32 word) \<Rightarrow> json2struct_t \<Rightarrow> cjson_item option \<Rightarrow> byte list option" where
  "entry_bytes to_float e item =
     (if js_type e = CH_TYPE_INT then map_option (\<lambda>i. int_bytes (js_length e) (ji_valueint i)) item
      else if js_type e = CH_TYPE_FLOAT then map_option (\<lambda>i. float_bytes to_float (js_length e) (ji_valuedouble i)) item
      else if js_type e = CH_TYPE_STRING then
        do { i \<leftarrow> item; s \<leftarrow> ji_valuestring i; Some (strncpy (replicate (js_length e) 0) s (js_length e)) }
      else Some [])"

fun json_object_helper ::
  "(64 word \<Rightarrow> 32 word) \<Rightarrow> (byte list \<Rightarrow> cjson_item option) \<Rightarrow> byte list \<Rightarrow> json2struct_t list \<Rightarrow> (int \<times> byte list) option" where
  "json_object_helper to_float get st [] = Some (0, st)"
| "json_object_helper to_float get st (e # es) =
     (let item = get (js_name e) in
      if item = None \<and> js_must e then Some (- 2, st)
      else do {
        bs \<leftarrow> entry_bytes to_float e item;
        st \<leftarrow> put_bytes st (js_offset e) bs;
        json_object_helper to_float get st es })"

section \<open>Fields\<close>

definition field_size :: "json2struct_t \<Rightarrow> nat" where
  "field_size e =
     (if js_type e = CH_TYPE_INT then if js_length e \<in> {1, 2, 4} then js_length e else 8
      else if js_type e = CH_TYPE_FLOAT then if js_length e = 4 then 4 else 8
      else if js_type e = CH_TYPE_STRING then js_length e
      else 0)"

definition field :: "json2struct_t \<Rightarrow> nat set" where
  "field e = {js_offset e ..< js_offset e + field_size e}"

lemma length_values: "length (int_bytes n v) = (if n \<in> {1, 2, 4} then n else 8)" "length (float_bytes to_float n d) = (if n = 4 then 4 else 8)"
  by (auto simp: int_bytes_def float_bytes_def)

lemma entry_bytes_length: "entry_bytes to_float e item = Some bs \<Longrightarrow> length bs = field_size e"
  by (auto simp: entry_bytes_def field_size_def length_values bind_eq_Some_conv split: if_split_asm)

lemma put_bytes_nth:
  assumes "put_bytes buf off bs = Some buf'" "i < length buf"
  shows "buf' ! i = (if off \<le> i \<and> i < off + length bs then bs ! (i - off) else buf ! i)"
  using assms by (auto simp: put_bytes_def nth_append min_def split: if_splits)

text \<open>What a field holds.\<close>

definition field_of :: "byte list \<Rightarrow> json2struct_t \<Rightarrow> byte list" where
  "field_of st e = take (field_size e) (drop (js_offset e) st)"

lemma field_of_cong:
  assumes "length st' = length st" "\<And>i. i < length st \<Longrightarrow> i \<in> field e \<Longrightarrow> st' ! i = st ! i"
  shows "field_of st' e = field_of st e"
proof (rule nth_equalityI)
  show "field_of st' e ! i = field_of st e ! i" if "i < length (field_of st' e)" for i
  proof -
    have "js_offset e + i < length st" "i < field_size e" using that assms(1) by (auto simp: field_of_def)
    then show ?thesis using assms(2) [of "js_offset e + i"] assms(1) by (simp add: field_of_def field_def)
  qed
qed (use assms(1) in \<open>simp add: field_of_def\<close>)

lemma field_of_put: "put_bytes st (js_offset e) bs = Some st' \<Longrightarrow> length bs = field_size e \<Longrightarrow> field_of st' e = bs"
  by (auto simp: put_bytes_def field_of_def split: if_splits)

definition table_ok :: "(64 word \<Rightarrow> 32 word) \<Rightarrow> (byte list \<Rightarrow> cjson_item option) \<Rightarrow> nat \<Rightarrow> json2struct_t list \<Rightarrow> bool" where
  "table_ok to_float get n es \<longleftrightarrow>
     (\<forall>e \<in> set es. get (js_name e) \<noteq> None \<and> entry_bytes to_float e (get (js_name e)) \<noteq> None \<and> js_offset e + field_size e \<le> n) \<and>
     (\<forall>i < length es. \<forall>j < length es. i \<noteq> j \<longrightarrow> field (es ! i) \<inter> field (es ! j) = {})"

lemma table_ok_Cons:
  assumes "table_ok to_float get n (e # es)"
  shows "table_ok to_float get n es" "\<And>f. f \<in> set es \<Longrightarrow> field e \<inter> field f = {}"
proof -
  have apart: "field ((e # es) ! i) \<inter> field ((e # es) ! j) = {}" if "i < length (e # es)" "j < length (e # es)" "i \<noteq> j" for i j
    using assms that unfolding table_ok_def by blast
  have "field (es ! i) \<inter> field (es ! j) = {}" if "i < length es" "j < length es" "i \<noteq> j" for i j
    using apart [of "Suc i" "Suc j"] that by simp
  then show "table_ok to_float get n es" using assms by (simp add: table_ok_def)
  show "field e \<inter> field f = {}" if "f \<in> set es" for f
  proof -
    from that obtain j where "j < length es" "f = es ! j" by (auto simp: in_set_conv_nth)
    then show ?thesis using apart [of 0 "Suc j"] by simp
  qed
qed

lemma json_fill:
  "table_ok to_float get (length st) es \<Longrightarrow>
   \<exists>st'. json_object_helper to_float get st es = Some (0, st') \<and> length st' = length st \<and>
     (\<forall>e \<in> set es. Some (field_of st' e) = entry_bytes to_float e (get (js_name e))) \<and>
     (\<forall>i < length st. (\<forall>e \<in> set es. i \<notin> field e) \<longrightarrow> st' ! i = st ! i)"
proof (induction es arbitrary: st)
  case (Cons e es)
  obtain item bs where e: "get (js_name e) = Some item" "entry_bytes to_float e (Some item) = Some bs" "js_offset e + field_size e \<le> length st"
    using Cons.prems by (auto simp: table_ok_def)
  have len: "length bs = field_size e" using e(2) by (rule entry_bytes_length)
  obtain st1 where st1: "put_bytes st (js_offset e) bs = Some st1" "length st1 = length st" using e(3) len by (simp add: put_bytes_def)
  obtain st' where st': "json_object_helper to_float get st1 es = Some (0, st')" "length st' = length st"
      "\<forall>f \<in> set es. Some (field_of st' f) = entry_bytes to_float f (get (js_name f))" "\<forall>i < length st. (\<forall>f \<in> set es. i \<notin> field f) \<longrightarrow> st' ! i = st1 ! i"
    using Cons.IH [of st1] table_ok_Cons(1) [OF Cons.prems] st1(2) by auto
  have "field_of st' e = field_of st1 e"
    using st'(2,4) st1(2) table_ok_Cons(2) [OF Cons.prems] by (intro field_of_cong) auto
  then have "Some (field_of st' e) = entry_bytes to_float e (get (js_name e))" using field_of_put [OF st1(1) len] e(1,2) by simp
  moreover have "st' ! i = st ! i" if "i < length st" "\<forall>f \<in> set (e # es). i \<notin> field f" for i
    using that st'(4) put_bytes_nth [OF st1(1) that(1)] len by (auto simp: field_def)
  ultimately show ?case using st' e st1(1) by auto
qed simp

section \<open>Properties\<close>


definition sample_table :: "json2struct_t list" where
  "sample_table = [\<lparr>js_name = ascii ''a'', js_type = CH_TYPE_INT, js_offset = 4, js_length = 4, js_must = True\<rparr>,
     \<lparr>js_name = ascii ''b'', js_type = CH_TYPE_STRING, js_offset = 0, js_length = 3, js_must = False\<rparr>]"

definition sample_item :: cjson_item where
  "sample_item = \<lparr>ji_valueint = 7, ji_valuedouble = 0, ji_valuestring = Some (ascii ''x'')\<rparr>"


end
