(* ===== verification/Small_Utils.thy ===== *)
theory Small_Utils
  imports Byte_Codec
begin

text \<open>
  Two small helpers: the allocation functions of \<^verbatim>\<open>src/malloc_plus.c\<close> over a heap of blocks, and the parameter check of
  \<^verbatim>\<open>src/check_param_list.c\<close>, which collects its message in an array of 256 bytes.  The debug output of the first is not modelled.
\<close>

section \<open>Allocation\<close>

type_synonym block_heap = "addr \<rightharpoonup> byte list"

text \<open>\<open>a\<close> is what \<^verbatim>\<open>malloc\<close> returns; clearing the block \<^verbatim>\<open>NULL\<close> is undefined.\<close>

definition malloc_plus :: "block_heap \<Rightarrow> addr \<Rightarrow> int \<Rightarrow> (addr \<times> block_heap) option" where
  "malloc_plus h a n =
     (if n \<le> 0 then Some (NULL, h)
      else if a = NULL then None
      else Some (a, h(a \<mapsto> replicate (nat n) 0)))"

text \<open>The pointer variable after the call, and the heap.\<close>

definition free_plus :: "block_heap \<Rightarrow> addr \<Rightarrow> (addr \<times> block_heap) option" where
  "free_plus h ptr = do { h \<leftarrow> (if ptr \<noteq> NULL then release h ptr else Some h); Some (NULL, h) }"

lemma malloc_free_plus:
  assumes "h a = None" "malloc_plus h a n = Some (p, h1)"
  shows "\<exists>h2. free_plus h1 p = Some (NULL, h2) \<and> h2 = h \<and> free_plus h2 NULL = Some (NULL, h2)"
  using assms by (auto simp: malloc_plus_def free_plus_def release_def split: if_splits)

section \<open>The parameter check\<close>

definition MAX_BUF_SIZE :: nat where
  "MAX_BUF_SIZE = 256"

text \<open>
  \<^verbatim>\<open>offset += snprintf(buf + offset, MAX_BUF_SIZE - offset, ...)\<close>: the size is unsigned, so that it is huge when the offset has passed the end, and
  the text is written behind the array.
\<close>

definition msg_append :: "byte list \<times> nat \<Rightarrow> byte list \<Rightarrow> (byte list \<times> nat) option" where
  "msg_append bo t =
     (let (buf, offset) = bo in
      if MAX_BUF_SIZE < offset then None
      else if offset = MAX_BUF_SIZE then Some (buf, offset + length t)
      else do {
        buf \<leftarrow> put_bytes buf offset (take (MAX_BUF_SIZE - offset - 1) t @ [0]);
        Some (buf, offset + length t) })"

definition param_text :: "nat \<Rightarrow> byte list" where
  "param_text i = (if i = 0 then [] else ascii '', '') @ ascii ''param'' @ dec_nat i @ ascii '' is invalid''"

fun check_loop :: "byte list \<times> nat \<Rightarrow> addr list \<Rightarrow> nat \<Rightarrow> (byte list \<times> nat) option" where
  "check_loop bo [] i = Some bo"
| "check_loop bo (a # as) i = do { bo \<leftarrow> (if a = 0 then msg_append bo (param_text i) else Some bo); check_loop bo as (i + 1) }"

text \<open>The result and the line printed.\<close>

definition check_addr_valid :: "byte list \<Rightarrow> int \<Rightarrow> addr list \<Rightarrow> (bool \<times> byte list) option" where
  "check_addr_valid func line_num addrs =
     do { bo \<leftarrow> msg_append (replicate MAX_BUF_SIZE 0, 0) (ascii ''Check Param['' @ func @ ascii '':'' @ dec_int line_num @ ascii ''] '');
          (buf, _) \<leftarrow> check_loop bo addrs 0;
          buf \<leftarrow> put_index buf (int (MAX_BUF_SIZE - 1)) 0;
          s \<leftarrow> string_at buf 0;
          Some (True, s @ [10]) }"

text \<open>The texts for the null pointers.\<close>

fun null_texts :: "addr list \<Rightarrow> nat \<Rightarrow> byte list" where
  "null_texts [] i = []"
| "null_texts (a # as) i = (if a = 0 then param_text i else []) @ null_texts as (i + 1)"

definition check_head :: "byte list \<Rightarrow> int \<Rightarrow> byte list" where
  "check_head func line_num = ascii ''Check Param['' @ func @ ascii '':'' @ dec_int line_num @ ascii ''] ''"

definition msg_holds :: "byte list \<times> nat \<Rightarrow> byte list \<Rightarrow> bool" where
  "msg_holds bo t \<longleftrightarrow> length (fst bo) = MAX_BUF_SIZE \<and> snd bo = length t \<and> length t < MAX_BUF_SIZE \<and> take (Suc (length t)) (fst bo) = t @ [0]"

lemma msg_append_holds:
  assumes "msg_holds bo t" "length (t @ u) < MAX_BUF_SIZE"
  shows "\<exists>bo'. msg_append bo u = Some bo' \<and> msg_holds bo' (t @ u)"
proof -
  obtain buf off where bo: "bo = (buf, off)" by (cases bo)
  have h: "length buf = MAX_BUF_SIZE" "off = length t" "take (length t) buf = t"
    using assms(1) by (auto simp: msg_holds_def bo take_Suc_conv_app_nth)
  then have "put_bytes buf off (u @ [0]) = Some (t @ u @ [0] @ drop (length t + length u + 1) buf)" using assms(2) by (simp add: put_bytes_def)
  then show ?thesis using assms(2) h by (simp add: msg_append_def bo msg_holds_def)
qed

lemma check_loop_holds:
  "msg_holds bo t \<Longrightarrow> length (t @ null_texts as i) < MAX_BUF_SIZE \<Longrightarrow> \<exists>bo'. check_loop bo as i = Some bo' \<and> msg_holds bo' (t @ null_texts as i)"
proof (induction as arbitrary: bo t i)
  case (Cons a as)
  show ?case
  proof (cases "a = 0")
    case True
    then obtain bo1 where "msg_append bo (param_text i) = Some bo1" "msg_holds bo1 (t @ param_text i)"
      using msg_append_holds [OF Cons.prems(1), of "param_text i"] Cons.prems(2) by auto
    then show ?thesis using Cons.IH [of bo1 "t @ param_text i" "i + 1"] Cons.prems(2) True by auto
  next
    case False
    then show ?thesis using Cons.IH [of bo t "i + 1"] Cons.prems by auto
  qed
qed simp

text \<open>
  \<^verbatim>\<open>check_addr_valid\<close> prints the place and the numbers of the null pointers when that fits its array; with a longer function name and a null
  pointer it writes behind the array.  The result is true even when a pointer is null.
\<close>

lemma check_addr_message:
  assumes "0 \<notin> set func"
  shows "(length (check_head func l @ null_texts addrs 0) < 256 \<longrightarrow>
      check_addr_valid func l addrs = Some (True, check_head func l @ null_texts addrs 0 @ [10])) \<and>
    (256 < length (check_head func l) \<longrightarrow> addrs \<noteq> [] \<longrightarrow> hd addrs = 0 \<longrightarrow> check_addr_valid func l addrs = None)"
proof (intro conjI impI)
  let ?t = "check_head func l @ null_texts addrs 0"
  assume len: "length ?t < 256"
  have plain: "0 \<notin> set ?t"
  proof -
    have "0 \<notin> set (param_text i)" for i using dec_nat_nonzero [of i] by (auto simp: param_text_def ascii_def)
    then have "0 \<notin> set (null_texts addrs i)" for i by (induction addrs arbitrary: i) auto
    then show ?thesis using assms dec_nat_nonzero by (auto simp: check_head_def ascii_def dec_int_def)
  qed
  have start: "msg_holds (replicate MAX_BUF_SIZE 0, 0) []" by (simp add: msg_holds_def MAX_BUF_SIZE_def)
  obtain bo where bo: "msg_append (replicate MAX_BUF_SIZE 0, 0) (check_head func l) = Some bo" "msg_holds bo (check_head func l)"
    using msg_append_holds [OF start, of "check_head func l"] len by (auto simp: MAX_BUF_SIZE_def)
  obtain buf off where b: "check_loop bo addrs 0 = Some (buf, off)" "msg_holds (buf, off) ?t"
    using check_loop_holds [OF bo(2), of addrs 0] len by (auto simp: MAX_BUF_SIZE_def)
  have buf: "length buf = 256" "take (Suc (length ?t)) buf = ?t @ [0]" using b(2) by (auto simp: msg_holds_def MAX_BUF_SIZE_def)
  let ?buf = "buf[255 := 0]"
  have "take (Suc (length ?t)) ?buf = ?t @ [0]"
  proof (cases "length ?t = 255")
    case True
    then have "buf = ?t @ [0]" using buf by simp
    then show ?thesis using True by (simp add: list_update_append)
  next
    case False
    then show ?thesis using buf len by (simp add: take_update_cancel)
  qed
  then have "?buf = ?t @ 0 # drop (Suc (length ?t)) ?buf" using append_take_drop_id [of "Suc (length ?t)" ?buf] by simp
  then have "string_at ?buf 0 = Some ?t" using string_at_terminated [OF plain, of "[]"] by (metis append_Nil list.size(3))
  moreover have "put_index buf (int (MAX_BUF_SIZE - 1)) 0 = Some ?buf" using put_index_nat [of 255 buf 0] buf(1) by (simp add: MAX_BUF_SIZE_def)
  ultimately show "check_addr_valid func l addrs = Some (True, check_head func l @ null_texts addrs 0 @ [10])"
    using bo(1) b(1) by (simp add: check_addr_valid_def check_head_def)
next
  assume "256 < length (check_head func l)" "addrs \<noteq> []" "hd addrs = 0"
  then show "check_addr_valid func l addrs = None"
    by (cases addrs) (auto simp: check_addr_valid_def check_head_def msg_append_def MAX_BUF_SIZE_def put_bytes_def)
qed

end
