(* ===== verification/Rdma_Verbs.thy ===== *)
theory Rdma_Verbs
  imports Byte_Codec
begin

text \<open>
  The RDMA server of \<^verbatim>\<open>src/rdma_verbs.c\<close>.  What the verbs and connection manager libraries answer is an argument of the definitions; the state
  records the objects that have been created and not been released: protection domains, channels, completion queues, queue pairs (by the
  connection or the pair they belong to), memory regions, blocks of the heap, and connection manager events.  Reading an event that has been
  released is \<open>None\<close>, and so is \<^verbatim>\<open>memset\<close> through \<^verbatim>\<open>NULL\<close>.
\<close>

section \<open>State\<close>

record ibv_qp_init_attr =
  send_cq :: addr
  recv_cq :: addr
  max_send_wr :: nat
  max_recv_wr :: nat
  max_send_sge :: nat
  max_recv_sge :: nat

record rdma_state =
  rs_pds :: "addr set"
  rs_channels :: "addr set"
  rs_cqs :: "addr set"
  rs_qps :: "addr \<rightharpoonup> ibv_qp_init_attr"
  rs_mrs :: "(addr \<times> nat) set"
  rs_heap :: "addr \<rightharpoonup> nat"
  rs_log :: "byte list list"

definition EFAULT :: int where
  "EFAULT = 14"

definition EIO :: int where
  "EIO = 5"

definition LOG_INFO :: "byte list \<Rightarrow> byte list" where
  "LOG_INFO s = ascii ''[INFO]: '' @ s @ [10]"

definition LOG_ERR :: "byte list \<Rightarrow> byte list" where
  "LOG_ERR s = ascii ''[ERROR]: '' @ s @ [10]"

definition LOG_DBG :: "byte list \<Rightarrow> byte list" where
  "LOG_DBG s = ascii ''[DBG]: '' @ s @ [10]"

definition logged :: "byte list \<Rightarrow> rdma_state \<Rightarrow> rdma_state" where
  "logged l st = st\<lparr>rs_log := rs_log st @ [l]\<rparr>"

definition LOG_ASSERT :: "bool \<Rightarrow> unit run option" where
  "LOG_ASSERT c = Some (if c then Done () else Aborted)"

lemma LOG_ASSERT_then [simp]: "andthen (LOG_ASSERT c) f = (if c then f () else Some Aborted)"
  by (simp add: LOG_ASSERT_def)

section \<open>Queue pairs and devices\<close>

text \<open>\<open>qp\<close> is the result of \<^verbatim>\<open>ibv_create_qp\<close> and \<open>ret\<close> the one of \<^verbatim>\<open>ibv_destroy_qp\<close>.\<close>

definition qp_create :: "addr \<Rightarrow> rdma_state \<Rightarrow> addr \<Rightarrow> (addr \<times> rdma_state) run option" where
  "qp_create qp st cq =
     andthen (LOG_ASSERT (qp \<noteq> NULL)) (\<lambda>_.
       Some (Done (qp, st\<lparr>rs_qps := (rs_qps st)(qp \<mapsto>
         \<lparr>send_cq = cq, recv_cq = cq, max_send_wr = 2, max_recv_wr = 2, max_send_sge = 1, max_recv_sge = 1\<rparr>)\<rparr>)))"

definition qp_destroy :: "int \<Rightarrow> rdma_state \<Rightarrow> addr \<Rightarrow> rdma_state run option" where
  "qp_destroy ret st qp =
     andthen (LOG_ASSERT (qp \<noteq> NULL)) (\<lambda>_.
     andthen (LOG_ASSERT (ret = 0)) (\<lambda>_. Some (Done (st\<lparr>rs_qps := (rs_qps st)(qp := None)\<rparr>))))"

text \<open>\<^verbatim>\<open>%-16s\<close>, \<^verbatim>\<open>%016llx\<close>, and \<^verbatim>\<open>be64toh\<close> on a little-endian machine.\<close>

definition pad16 :: "byte list \<Rightarrow> byte list" where
  "pad16 s = s @ replicate (16 - length s) 32"

definition hex_digit :: "nat \<Rightarrow> byte" where
  "hex_digit n = of_nat (if n < 10 then 48 + n else 87 + n)"

fun hex_digits :: "nat \<Rightarrow> nat \<Rightarrow> byte list" where
  "hex_digits 0 n = []"
| "hex_digits (Suc k) n = hex_digits k (n div 16) @ [hex_digit (n mod 16)]"

definition be64toh :: "64 word \<Rightarrow> 64 word" where
  "be64toh w = of_le (rev (u64_bytes w))"

text \<open>A device is its name and its node GUID.\<close>

definition dev_show :: "(byte list \<times> 64 word) list \<Rightarrow> byte list list" where
  "dev_show devs =
     [ascii ''    '' @ pad16 (ascii ''device'') @ [9] @ ascii ''   node GUID'' @ [10],
      ascii ''    '' @ pad16 (ascii ''------'') @ [9] @ ascii ''----------------'' @ [10]] @
     map (\<lambda>(name, guid). ascii ''    '' @ pad16 name @ [9] @ hex_digits 16 (unat (be64toh guid)) @ [10]) devs"

section \<open>The objects of one connection\<close>

record wverbs_req_t =
  req_cm_id :: addr
  req_pd :: addr
  req_channel :: addr
  req_cq :: addr

record setup_answers =
  sa_pd :: addr
  sa_channel :: addr
  sa_cq :: addr
  sa_notify :: int
  sa_qp :: int

definition verbs_create_qp :: "setup_answers \<Rightarrow> rdma_state \<Rightarrow> wverbs_req_t \<Rightarrow> addr \<Rightarrow> int \<times> wverbs_req_t \<times> rdma_state" where
  "verbs_create_qp ans st req cm_id =
     (let req = req\<lparr>req_cm_id := cm_id, req_pd := sa_pd ans\<rparr> in
      if req_pd req = NULL then (- EFAULT, req, logged (LOG_ERR (ascii ''alloc pd faild.'')) st)
      else let st = st\<lparr>rs_pds := insert (req_pd req) (rs_pds st)\<rparr>; req = req\<lparr>req_channel := sa_channel ans\<rparr> in
        if req_channel req = NULL then (- EFAULT, req, logged (LOG_ERR (ascii ''create complete channel faild.'')) st)
        else let st = st\<lparr>rs_channels := insert (req_channel req) (rs_channels st)\<rparr>; req = req\<lparr>req_cq := sa_cq ans\<rparr> in
          if req_cq req = NULL then (- EFAULT, req, logged (LOG_ERR (ascii ''create complete queue faild.'')) st)
          else let st = st\<lparr>rs_cqs := insert (req_cq req) (rs_cqs st)\<rparr> in
            if sa_notify ans \<noteq> 0 then (sa_notify ans, req, logged (LOG_ERR (ascii ''request notify CQ faild.'')) st)
            else if sa_qp ans \<noteq> 0 then (sa_qp ans, req, logged (LOG_ERR (ascii ''create queue pair faild.'')) st)
            else (0, req, st\<lparr>rs_qps := (rs_qps st)(cm_id \<mapsto>
              \<lparr>send_cq = req_cq req, recv_cq = req_cq req, max_send_wr = 512, max_recv_wr = 512, max_send_sge = 1, max_recv_sge = 1\<rparr>)\<rparr>))"

record ibv_sge =
  sge_addr :: addr
  sge_length :: nat
  sge_lkey :: "32 word"

text \<open>The block of \<^verbatim>\<open>aligned_alloc\<close>, and the key of the memory region, or \<open>None\<close> when \<^verbatim>\<open>ibv_reg_mr\<close> fails.\<close>

definition verbs_mem_alloc ::
  "addr \<Rightarrow> 32 word option \<Rightarrow> rdma_state \<Rightarrow> ibv_sge \<Rightarrow> nat \<Rightarrow> (int \<times> ibv_sge \<times> rdma_state) option" where
  "verbs_mem_alloc buf mr st sge n =
     (if buf = NULL then None
      else let st = st\<lparr>rs_heap := (rs_heap st)(buf \<mapsto> n)\<rparr> in
        (case mr of
           None \<Rightarrow> Some (- EFAULT, sge, st\<lparr>rs_heap := (rs_heap st)(buf := None)\<rparr>)
         | Some lkey \<Rightarrow> Some (0, sge\<lparr>sge_addr := buf, sge_length := 4096, sge_lkey := lkey\<rparr>,
                             st\<lparr>rs_mrs := insert (buf, 4096) (rs_mrs st)\<rparr>)))"

text \<open>\<^verbatim>\<open>inet_ntop\<close> of the four bytes of an address.\<close>

fun dotted :: "byte list \<Rightarrow> byte list" where
  "dotted [] = []"
| "dotted [b] = dec_nat (unat b)"
| "dotted (b # bs) = dec_nat (unat b) @ 46 # dotted bs"

definition verbs_show_peer :: "byte list \<Rightarrow> byte list" where
  "verbs_show_peer ip = LOG_INFO (ascii ''cm from peer:'' @ dotted ip @ ascii '' .'')"

section \<open>Serving a connection\<close>

datatype ibv_wc_status = IBV_WC_SUCCESS | IBV_WC_ERR "byte list"

record ibv_wc =
  wr_id :: "64 word"
  wc_status :: ibv_wc_status
  byte_len :: "32 word"

text \<open>What one call of \<^verbatim>\<open>ibv_poll_cq\<close> returns and stores in the array \<^verbatim>\<open>wc\<close>, and what the registered buffer holds by then.\<close>

record cq_answer =
  po_n :: int
  po_wc :: "ibv_wc list"
  po_buf :: "byte list"

text \<open>The text of \<^verbatim>\<open>%.*s\<close>: at most \<open>n\<close> bytes, up to a terminator; a negative \<open>n\<close> is no bound.  \<open>None\<close> when the buffer ends first.\<close>

definition text_upto :: "int \<Rightarrow> byte list \<Rightarrow> byte list option" where
  "text_upto n buf =
     (let s = takeWhile (\<lambda>b. b \<noteq> 0) (if n < 0 then buf else take (nat n) buf) in
      if (0 \<le> n \<and> n \<le> int (length buf)) \<or> length s < length buf then Some s else None)"

definition recv_line :: "int \<Rightarrow> byte list \<Rightarrow> byte list" where
  "recv_line n t = LOG_INFO (ascii ''recv:'' @ dec_int n @ ascii '' bytes, '' @ [39] @ t @ [39])"

definition wc_error_line :: "nat \<Rightarrow> byte list \<Rightarrow> byte list" where
  "wc_error_line i s = LOG_INFO (ascii ''wc['' @ dec_nat i @ ascii ''].status != IBV_WC_SUCCESS, wc.status: '' @ s)"

text \<open>The loop over the completions: whether the function returns \<^verbatim>\<open>-EIO\<close>.  \<^verbatim>\<open>byte_len\<close> is printed as an \<^verbatim>\<open>int\<close>.\<close>

fun wc_loop :: "byte list \<Rightarrow> nat \<Rightarrow> ibv_wc list \<Rightarrow> rdma_state \<Rightarrow> (bool \<times> rdma_state) run option" where
  "wc_loop buf i [] st = Some (Done (False, st))"
| "wc_loop buf i (w # ws) st =
     andthen (LOG_ASSERT (wr_id w = 1)) (\<lambda>_.
       case wc_status w of
         IBV_WC_ERR s \<Rightarrow> Some (Done (True, logged (wc_error_line i s) st))
       | IBV_WC_SUCCESS \<Rightarrow>
           do { t \<leftarrow> text_upto (sint (byte_len w)) buf;
                wc_loop buf (i + 1) ws (logged (recv_line (sint (byte_len w)) t) st) })"

text \<open>The polling loop; \<open>None\<close> as the value returned means that it is still polling.  A negative \<open>n\<close> is true, and no completion is read.\<close>

fun poll_loop :: "cq_answer list \<Rightarrow> rdma_state \<Rightarrow> (int option \<times> rdma_state) run option" where
  "poll_loop [] st = Some (Done (None, st))"
| "poll_loop (p # ps) st =
     (if po_n p = 0 then Some (Done (Some 0, st))
      else if int (length (po_wc p)) < po_n p then None
      else andthen (wc_loop (po_buf p) 0 (take (nat (po_n p)) (po_wc p)) st) (\<lambda>(failed, st).
        if failed then Some (Done (Some (- EIO), st)) else poll_loop ps st))"

record request_answers =
  ra_setup :: setup_answers
  ra_buf :: addr
  ra_mr :: "32 word option"
  ra_post :: int
  ra_accept :: int
  ra_peer :: "byte list"
  ra_polls :: "cq_answer list"

text \<open>\<open>req\<close> and \<open>sge\<close> are the structs on the stack before they are written; the results of the calls on the completion channel are ignored.\<close>

definition handle_client_cm_request ::
  "request_answers \<Rightarrow> rdma_state \<Rightarrow> wverbs_req_t \<Rightarrow> ibv_sge \<Rightarrow> addr \<Rightarrow> (int option \<times> rdma_state) run option" where
  "handle_client_cm_request ans st req sge cm_id =
     (let (rc, req, st) = verbs_create_qp (ra_setup ans) st req cm_id in
      andthen (LOG_ASSERT (rc = 0)) (\<lambda>_. do {
        (rc, sge, st) \<leftarrow> verbs_mem_alloc (ra_buf ans) (ra_mr ans) st sge 4096;
        andthen (LOG_ASSERT (rc = 0)) (\<lambda>_.
        andthen (LOG_ASSERT (ra_post ans = 0)) (\<lambda>_.
        andthen (LOG_ASSERT (ra_accept ans = 0)) (\<lambda>_.
        poll_loop (ra_polls ans) (logged (LOG_INFO (ascii ''begin polling CQ'')) (logged (verbs_show_peer (ra_peer ans)) st))))) }))"

section \<open>The thread of the connection manager\<close>

datatype cm_event_type =
  RDMA_CM_EVENT_CONNECT_REQUEST | RDMA_CM_EVENT_ESTABLISHED | RDMA_CM_EVENT_ADDR_RESOLVED | RDMA_CM_EVENT_ROUTE_RESOLVED |
  RDMA_CM_EVENT_CONNECT_RESPONSE | RDMA_CM_EVENT_ADDR_ERROR | RDMA_CM_EVENT_ROUTE_ERROR | RDMA_CM_EVENT_CONNECT_ERROR |
  RDMA_CM_EVENT_UNREACHABLE | RDMA_CM_EVENT_REJECTED | RDMA_CM_EVENT_DEVICE_REMOVAL | RDMA_CM_EVENT_OTHER

record cm_event =
  ev_type :: cm_event_type
  ev_id :: addr

text \<open>An answer of \<^verbatim>\<open>rdma_get_cm_event\<close>: an error, or an event at an address, with what the library answers while it is handled.\<close>

datatype cm_answer = Cm_Fail int | Cm_Event addr cm_event request_answers

text \<open>
  \<open>ack\<close> is \<^verbatim>\<open>rdma_ack_cm_event\<close> on the events that may be read, and \<open>event_str\<close> is \<^verbatim>\<open>rdma_event_str\<close>.  Without a further answer the
  thread is waiting.
\<close>

fun cm_thread_loop ::
  "((addr \<rightharpoonup> cm_event) \<Rightarrow> addr \<Rightarrow> (addr \<rightharpoonup> cm_event) option) \<Rightarrow> (cm_event_type \<Rightarrow> byte list) \<Rightarrow> wverbs_req_t \<Rightarrow> ibv_sge \<Rightarrow> cm_answer list \<Rightarrow>
   addr \<Rightarrow> (addr \<rightharpoonup> cm_event) \<Rightarrow> rdma_state \<Rightarrow> rdma_state run option" where
  "cm_thread_loop ack event_str req sge [] event live st = Some (Done st)"
| "cm_thread_loop ack event_str req sge (Cm_Fail rc # as) event live st =
     do { live \<leftarrow> ack live event;
          cm_thread_loop ack event_str req sge as event live
            (logged (LOG_ERR (ascii ''rdma get cm event faild, rc = '' @ dec_int rc @ ascii ''.'')) st) }"
| "cm_thread_loop ack event_str req sge (Cm_Event event ev ra # as) old live st =
     do { let live = live(event \<mapsto> ev);
          new_event \<leftarrow> load live event;
          live \<leftarrow> ack live event;
          ev \<leftarrow> load live event;
          if ev_type ev = RDMA_CM_EVENT_CONNECT_REQUEST
          then andthen (handle_client_cm_request ra
                  (logged (LOG_INFO (ascii ''handle RDMA_CM_EVENT_CONNECT_REQUEST and enqueue.'')) st) req sge (ev_id new_event)) (\<lambda>(ret, st).
                 cm_thread_loop ack event_str req sge as event live st)
          else cm_thread_loop ack event_str req sge as event live
                 (logged (LOG_INFO (ascii ''ignore event '' @ event_str (ev_type ev) @ ascii ''.'')) st) }"

definition verbs_cm_thread ::
  "((addr \<rightharpoonup> cm_event) \<Rightarrow> addr \<Rightarrow> (addr \<rightharpoonup> cm_event) option) \<Rightarrow> (cm_event_type \<Rightarrow> byte list) \<Rightarrow> wverbs_req_t \<Rightarrow> ibv_sge \<Rightarrow> cm_answer list \<Rightarrow>
   rdma_state \<Rightarrow> rdma_state run option" where
  "verbs_cm_thread ack event_str req sge as st =
     cm_thread_loop ack event_str req sge as NULL Map.empty (logged (LOG_INFO (ascii ''start cm thread process.'')) st)"

section \<open>Starting the server\<close>

record sockaddr_in =
  sin_family :: nat
  sin_addr :: "byte list"
  sin_port :: "byte list"

text \<open>\<^verbatim>\<open>inet_addr("192.168.2.160")\<close> and \<^verbatim>\<open>htons(8080)\<close>, as bytes in network order; the arguments are not used.\<close>

definition socket_init :: "sockaddr_in \<Rightarrow> byte list \<Rightarrow> nat \<Rightarrow> sockaddr_in" where
  "socket_init sin ipaddr port = sin\<lparr>sin_family := 2, sin_addr := [192, 168, 2, 160], sin_port := [31, 144]\<rparr>"

record wrnet_context_t =
  ctx_cm_id :: addr
  ctx_cm_channel :: addr

record cm_state =
  cs_channels :: "addr set"
  cs_ids :: "addr set"
  cs_bound :: "addr \<rightharpoonup> sockaddr_in"
  cs_listening :: "addr set"
  cs_thread :: bool
  cs_log :: "byte list list"

record ctx_answers =
  xa_channel :: addr
  xa_errno :: int
  xa_id :: "int + addr"
  xa_bind :: int
  xa_port :: "16 word"
  xa_listen :: int
  xa_thread :: int

definition cm_logged :: "byte list \<Rightarrow> cm_state \<Rightarrow> cm_state" where
  "cm_logged l st = st\<lparr>cs_log := cs_log st @ [l]\<rparr>"

definition verbs_create_ctx :: "ctx_answers \<Rightarrow> cm_state \<Rightarrow> wrnet_context_t \<Rightarrow> int \<times> wrnet_context_t \<times> cm_state" where
  "verbs_create_ctx ans st ctx =
     (let ctx = ctx\<lparr>ctx_cm_channel := xa_channel ans\<rparr> in
      if ctx_cm_channel ctx = NULL then (- xa_errno ans, ctx, cm_logged (LOG_ERR (ascii ''create event channcel faild.'')) st)
      else let st = st\<lparr>cs_channels := insert (ctx_cm_channel ctx) (cs_channels st)\<rparr>;
               sin = socket_init \<lparr>sin_family = 0, sin_addr = [0, 0, 0, 0], sin_port = [0, 0]\<rparr> (ascii ''192.168.2.160'') 8080 in
        (case xa_id ans of
           Inl rc \<Rightarrow> (rc, ctx, cm_logged (LOG_ERR (ascii ''create cm id faild.'')) st)
         | Inr new_id \<Rightarrow>
             let ctx = ctx\<lparr>ctx_cm_id := new_id\<rparr>; st = st\<lparr>cs_ids := insert new_id (cs_ids st)\<rparr> in
             if xa_bind ans \<noteq> 0 then (xa_bind ans, ctx, st)
             else let st = st\<lparr>cs_bound := (cs_bound st)(new_id \<mapsto> sin)\<rparr>;
                      st = cm_logged (LOG_DBG (ascii ''rdma bind addr 192.168.2.160 port '' @ dec_int (sint (xa_port ans)) @ ascii '' success.'')) st;
                      st = (if xa_listen ans = 0 then st\<lparr>cs_listening := insert new_id (cs_listening st)\<rparr> else st);
                      st = (if xa_thread ans = 0 then st\<lparr>cs_thread := True\<rparr>
                            else cm_logged (LOG_ERR (ascii ''create cm thread faild.'')) st) in
               (0, ctx, st)))"

text \<open>\<^verbatim>\<open>main\<close> up to its endless loop; \<open>ptr\<close> is the text of \<^verbatim>\<open>%p\<close> for the list of devices.\<close>

definition rdma_main ::
  "byte list \<Rightarrow> (byte list \<times> 64 word) list \<Rightarrow> ctx_answers \<Rightarrow> cm_state \<Rightarrow> (wrnet_context_t \<times> cm_state) run option" where
  "rdma_main ptr devs ans st =
     (let st = cm_logged (LOG_INFO (ascii ''devs = '' @ ptr @ ascii '', num_dev = '' @ dec_nat (length devs))) st;
          st = st\<lparr>cs_log := cs_log st @ dev_show devs\<rparr>;
          (rc, ctx, st) = verbs_create_ctx ans st \<lparr>ctx_cm_id = NULL, ctx_cm_channel = NULL\<rparr> in
      andthen (LOG_ASSERT (rc = 0)) (\<lambda>_. Some (Done (ctx, st))))"


section \<open>What the server does\<close>

lemma rs_logged [simp]:
  "rs_pds (logged l st) = rs_pds st" "rs_channels (logged l st) = rs_channels st" "rs_cqs (logged l st) = rs_cqs st"
  "rs_qps (logged l st) = rs_qps st" "rs_mrs (logged l st) = rs_mrs st" "rs_heap (logged l st) = rs_heap st"
  "rs_log (logged l st) = rs_log st @ [l]"
  by (simp_all add: logged_def)

text \<open>The answers with which a connection is set up, the objects it then has, and the state with them.\<close>

definition setup_ok :: "request_answers \<Rightarrow> bool" where
  "setup_ok ans \<longleftrightarrow>
     sa_pd (ra_setup ans) \<noteq> NULL \<and> sa_channel (ra_setup ans) \<noteq> NULL \<and> sa_cq (ra_setup ans) \<noteq> NULL \<and>
     sa_notify (ra_setup ans) = 0 \<and> sa_qp (ra_setup ans) = 0 \<and> ra_buf ans \<noteq> NULL \<and> ra_mr ans \<noteq> None \<and>
     ra_post ans = 0 \<and> ra_accept ans = 0"

definition qp_attr_of :: "addr \<Rightarrow> ibv_qp_init_attr" where
  "qp_attr_of cq = \<lparr>send_cq = cq, recv_cq = cq, max_send_wr = 512, max_recv_wr = 512, max_send_sge = 1, max_recv_sge = 1\<rparr>"

definition with_objects :: "request_answers \<Rightarrow> addr \<Rightarrow> rdma_state \<Rightarrow> rdma_state" where
  "with_objects ans cm_id st = st
     \<lparr>rs_pds := insert (sa_pd (ra_setup ans)) (rs_pds st),
      rs_channels := insert (sa_channel (ra_setup ans)) (rs_channels st),
      rs_cqs := insert (sa_cq (ra_setup ans)) (rs_cqs st),
      rs_qps := (rs_qps st)(cm_id \<mapsto> qp_attr_of (sa_cq (ra_setup ans))),
      rs_heap := (rs_heap st)(ra_buf ans \<mapsto> 4096),
      rs_mrs := insert (ra_buf ans, 4096) (rs_mrs st)\<rparr>"

definition begin_lines :: "request_answers \<Rightarrow> byte list list" where
  "begin_lines ans = [verbs_show_peer (ra_peer ans), LOG_INFO (ascii ''begin polling CQ'')]"

lemma handle_setup_ok:
  assumes "setup_ok ans"
  shows "handle_client_cm_request ans st req sge cm_id = poll_loop (ra_polls ans) ((with_objects ans cm_id st)\<lparr>rs_log := rs_log st @ begin_lines ans\<rparr>)"
  using assms
  by (auto simp: setup_ok_def handle_client_cm_request_def verbs_create_qp_def verbs_mem_alloc_def with_objects_def begin_lines_def logged_def
      qp_attr_of_def Let_def)

lemma handle_setup_fails:
  assumes "\<not> setup_ok ans"
  shows "handle_client_cm_request ans st req sge cm_id = Some Aborted \<or> handle_client_cm_request ans st req sge cm_id = None"
  using assms
  by (auto simp: setup_ok_def handle_client_cm_request_def verbs_create_qp_def verbs_mem_alloc_def EFAULT_def Let_def
      split: option.splits)

text \<open>Receiving: what a completion shows, and the completions that are shown.\<close>

definition good_wc :: "ibv_wc \<Rightarrow> bool" where
  "good_wc w \<longleftrightarrow> wr_id w = 1 \<and> wc_status w = IBV_WC_SUCCESS \<and> unat (byte_len w) \<le> 4096"

definition good_poll :: "cq_answer \<Rightarrow> bool" where
  "good_poll p \<longleftrightarrow> po_n p = int (length (po_wc p)) \<and> po_wc p \<noteq> [] \<and> list_all good_wc (po_wc p) \<and> length (po_buf p) = 4096"

definition shown :: "byte list \<Rightarrow> ibv_wc list \<Rightarrow> byte list list" where
  "shown buf ws = map (\<lambda>w. recv_line (uint (byte_len w)) (takeWhile (\<lambda>b. b \<noteq> 0) (take (unat (byte_len w)) buf))) ws"

lemma shown_simps [simp]: "shown buf [] = []"
  "shown buf (w # ws) = recv_line (uint (byte_len w)) (takeWhile (\<lambda>b. b \<noteq> 0) (take (unat (byte_len w)) buf)) # shown buf ws"
  by (simp_all add: shown_def)

lemma sint_byte_len: "unat w \<le> 4096 \<Longrightarrow> sint w = uint w" for w :: "32 word"
proof -
  assume "unat w \<le> 4096"
  then have "int (unat w) \<le> 4096" by linarith
  then have "uint w \<le> 4096" by (simp only: uint_nat)
  moreover have "- (2 ^ 31) \<le> uint w" by (rule order_trans [OF _ uint_ge_0]) simp
  ultimately have "signed_take_bit 31 (uint w) = uint w" by (intro signed_take_bit_int_eq_self) simp_all
  then show ?thesis by (simp add: sint_uint)
qed

lemma text_upto_nat: "n \<le> length buf \<Longrightarrow> text_upto (int n) buf = Some (takeWhile (\<lambda>b. b \<noteq> 0) (take n buf))"
  by (simp add: text_upto_def Let_def)

lemma text_upto_uint: "unat w \<le> length buf \<Longrightarrow> text_upto (uint w) buf = Some (takeWhile (\<lambda>b. b \<noteq> 0) (take (unat w) buf))"
  by (simp only: uint_nat text_upto_nat)

lemma wc_loop_good:
  assumes "list_all good_wc ws" "length buf = 4096"
  shows "wc_loop buf i (ws @ ws') st = wc_loop buf (i + length ws) ws' (st\<lparr>rs_log := rs_log st @ shown buf ws\<rparr>)"
  using assms
  by (induction ws arbitrary: i st) (simp_all add: good_wc_def sint_byte_len text_upto_uint logged_def)

lemma poll_loop_good:
  assumes "list_all good_poll ps"
  shows "poll_loop (ps @ qs) st = poll_loop qs (st\<lparr>rs_log := rs_log st @ concat (map (\<lambda>p. shown (po_buf p) (po_wc p)) ps)\<rparr>)"
  using assms
proof (induction ps arbitrary: st)
  case (Cons p ps)
  then show ?case using wc_loop_good [of "po_wc p" "po_buf p" 0 "[]"] by (simp add: good_poll_def)
qed simp

lemma poll_loop_failed:
  assumes "po_wc p = ws @ w # ws'" "po_n p = int (length (po_wc p))" "list_all good_wc ws" "length (po_buf p) = 4096"
    and "wr_id w = 1" "wc_status w = IBV_WC_ERR s"
  shows "poll_loop (p # ps) st =
    Some (Done (Some (- EIO), st\<lparr>rs_log := rs_log st @ shown (po_buf p) ws @ [wc_error_line (length ws) s]\<rparr>))"
  using assms wc_loop_good [of ws "po_buf p" 0 "w # ws'"] by (simp add: logged_def)

text \<open>A poll that ends the handler: an empty one, or one with a completion that failed; with the value returned and the lines it prints.\<close>

inductive poll_end :: "cq_answer \<Rightarrow> int \<Rightarrow> byte list list \<Rightarrow> bool" where
  empty: "po_n p = 0 \<Longrightarrow> poll_end p 0 []"
| failed: "po_wc p = ws @ w # ws' \<Longrightarrow> po_n p = int (length (po_wc p)) \<Longrightarrow> list_all good_wc ws \<Longrightarrow> length (po_buf p) = 4096 \<Longrightarrow>
    wr_id w = 1 \<Longrightarrow> wc_status w = IBV_WC_ERR s \<Longrightarrow> poll_end p (- EIO) (shown (po_buf p) ws @ [wc_error_line (length ws) s])"

lemma poll_loop_end:
  assumes "poll_end p ret lines"
  shows "poll_loop (p # ps) st = Some (Done (Some ret, st\<lparr>rs_log := rs_log st @ lines\<rparr>))"
  using assms by cases (simp_all only: poll_loop_failed, simp)

text \<open>
  C31: A connection that is set up is served: the peer is printed, every completion of every poll is printed with the bytes that arrived, up to a
  terminator.  The first empty poll ends the handler with 0, and the first completion that failed ends it with \<^verbatim>\<open>-EIO\<close> after the
  completions before it have been printed.  In both cases the protection domain, the channel, the queues, the memory region and the block that
  were created for the connection remain.
\<close>

theorem handle_client_cm_request_serves:
  assumes "setup_ok ans" "ra_polls ans = ps @ p # qs" "list_all good_poll ps" "poll_end p ret lines"
  shows "handle_client_cm_request ans st req sge cm_id =
    Some (Done (Some ret, (with_objects ans cm_id st)
      \<lparr>rs_log := rs_log st @ begin_lines ans @ concat (map (\<lambda>p. shown (po_buf p) (po_wc p)) ps) @ lines\<rparr>))"
  by (simp only: handle_setup_ok [OF assms(1)] assms(2) poll_loop_good [OF assms(3)] poll_loop_end [OF assms(4)]) simp

definition serve_example :: request_answers where
  "serve_example =
     \<lparr>ra_setup = \<lparr>sa_pd = 16, sa_channel = 32, sa_cq = 48, sa_notify = 0, sa_qp = 0\<rparr>, ra_buf = 4096, ra_mr = Some 7, ra_post = 0, ra_accept = 0,
      ra_peer = [192, 168, 2, 7],
      ra_polls =
        [\<lparr>po_n = 1, po_wc = [\<lparr>wr_id = 1, wc_status = IBV_WC_SUCCESS, byte_len = 3\<rparr>], po_buf = [104, 105] @ replicate 4094 0\<rparr>,
         \<lparr>po_n = 2, po_wc = [\<lparr>wr_id = 1, wc_status = IBV_WC_SUCCESS, byte_len = 1\<rparr>, \<lparr>wr_id = 1, wc_status = IBV_WC_ERR [88], byte_len = 0\<rparr>],
          po_buf = [104, 105] @ replicate 4094 0\<rparr>]\<rparr>"

theorem handle_client_cm_request_serves_witness:
  "handle_client_cm_request serve_example \<lparr>rs_pds = {}, rs_channels = {}, rs_cqs = {}, rs_qps = Map.empty, rs_mrs = {}, rs_heap = Map.empty, rs_log = []\<rparr>
     \<lparr>req_cm_id = 0, req_pd = 0, req_channel = 0, req_cq = 0\<rparr> \<lparr>sge_addr = 0, sge_length = 0, sge_lkey = 0\<rparr> 64 =
   Some (Done (Some (- 5), \<lparr>rs_pds = {16}, rs_channels = {32}, rs_cqs = {48}, rs_qps = [64 \<mapsto> qp_attr_of 48], rs_mrs = {(4096, 4096)},
     rs_heap = [4096 \<mapsto> 4096],
     rs_log = [LOG_INFO (ascii ''cm from peer:192.168.2.7 .''), LOG_INFO (ascii ''begin polling CQ''), recv_line 3 [104, 105], recv_line 1 [104],
       wc_error_line 1 [88]]\<rparr>))"
proof -
  define p where "p = \<lparr>po_n = 2, po_wc = [\<lparr>wr_id = 1, wc_status = IBV_WC_SUCCESS, byte_len = 1\<rparr>,
    \<lparr>wr_id = 1, wc_status = IBV_WC_ERR [88], byte_len = 0\<rparr>], po_buf = [104, 105] @ replicate 4094 (0 :: byte)\<rparr>"
  have p: "poll_end p (- EIO) (shown (po_buf p) [\<lparr>wr_id = 1, wc_status = IBV_WC_SUCCESS, byte_len = 1\<rparr>] @ [wc_error_line 1 [88]])"
    using poll_end.failed [of p "[\<lparr>wr_id = 1, wc_status = IBV_WC_SUCCESS, byte_len = 1\<rparr>]" "\<lparr>wr_id = 1, wc_status = IBV_WC_ERR [88], byte_len = 0\<rparr>" "[]" "[88]"]
    by (simp add: p_def good_wc_def)
  show ?thesis
    using handle_client_cm_request_serves [OF _ _ _ p, of serve_example "[hd (ra_polls serve_example)]" "[]"]
    by (simp add: serve_example_def p_def setup_ok_def good_poll_def good_wc_def with_objects_def begin_lines_def verbs_show_peer_def shown_def
        dec_nat.simps ascii_def EIO_def)
qed

section \<open>The connection manager thread\<close>

lemma cm_thread_fails:
  assumes "\<And>live. ack live NULL = Some live"
  shows "cm_thread_loop ack event_str req sge (map Cm_Fail rcs @ as) NULL live st =
    cm_thread_loop ack event_str req sge as NULL live
      (st\<lparr>rs_log := rs_log st @ map (\<lambda>rc. LOG_ERR (ascii ''rdma get cm event faild, rc = '' @ dec_int rc @ ascii ''.'')) rcs\<rparr>)"
  using assms by (induction rcs arbitrary: st) (simp_all add: logged_def)

text \<open>
  C39: The thread reads an event after it has released it: with a library whose \<^verbatim>\<open>rdma_ack_cm_event\<close> frees the event, whatever failures come
  first, the first event received is undefined behaviour.
\<close>

theorem verbs_cm_thread_reads_released_event:
  assumes "\<And>live. ack live NULL = Some live"
    and "\<And>live e live'. e \<noteq> NULL \<Longrightarrow> ack live e = Some live' \<Longrightarrow> live' e = None"
    and "event \<noteq> NULL"
  shows "verbs_cm_thread ack event_str req sge (map Cm_Fail rcs @ Cm_Event event ev ra # as) st = None"
proof (cases "ack [event \<mapsto> ev] event")
  case None
  then show ?thesis using assms(1,3) by (simp add: verbs_cm_thread_def cm_thread_fails load_def)
next
  case (Some live)
  then have "live event = None" using assms(2,3) by blast
  then show ?thesis using Some assms(1,3) by (simp add: verbs_cm_thread_def cm_thread_fails load_def)
qed

text \<open>The library's function: it refuses \<^verbatim>\<open>NULL\<close>, and releases an event once.\<close>

definition rdma_ack_cm_event :: "(addr \<rightharpoonup> cm_event) \<Rightarrow> addr \<Rightarrow> (addr \<rightharpoonup> cm_event) option" where
  "rdma_ack_cm_event live e = (if e = NULL then Some live else release live e)"

theorem verbs_cm_thread_reads_released_event_witness:
  "verbs_cm_thread rdma_ack_cm_event (\<lambda>_. ascii ''event'') \<lparr>req_cm_id = 0, req_pd = 0, req_channel = 0, req_cq = 0\<rparr>
     \<lparr>sge_addr = 0, sge_length = 0, sge_lkey = 0\<rparr> [Cm_Fail (- 1), Cm_Event 96 \<lparr>ev_type = RDMA_CM_EVENT_ESTABLISHED, ev_id = 64\<rparr> serve_example]
     \<lparr>rs_pds = {}, rs_channels = {}, rs_cqs = {}, rs_qps = Map.empty, rs_mrs = {}, rs_heap = Map.empty, rs_log = []\<rparr> = None"
proof -
  have null: "rdma_ack_cm_event live 0 = Some live" for live by (simp add: rdma_ack_cm_event_def)
  have freed: "e \<noteq> 0 \<Longrightarrow> rdma_ack_cm_event live e = Some live' \<Longrightarrow> live' e = None" for live e live'
    by (auto simp: rdma_ack_cm_event_def release_def split: if_splits)
  have "verbs_cm_thread rdma_ack_cm_event event_str req sge (map Cm_Fail [- 1] @ Cm_Event 96 ev ra # []) st = None" for event_str req sge ev ra st
    by (rule verbs_cm_thread_reads_released_event) (auto simp: null intro: freed)
  then show ?thesis by simp
qed

text \<open>With a library that leaves a released event readable, a connection request runs the handler on the identifier of the event.\<close>

lemma cm_thread_request:
  assumes "\<And>live e. ack live e = Some live" "event \<noteq> NULL" "ev_type ev = RDMA_CM_EVENT_CONNECT_REQUEST"
    and "handle_client_cm_request ra (logged (LOG_INFO (ascii ''handle RDMA_CM_EVENT_CONNECT_REQUEST and enqueue.'')) st) req sge (ev_id ev)
      = Some (Done (ret, st'))"
  shows "cm_thread_loop ack event_str req sge (Cm_Event event ev ra # as) old live st =
    cm_thread_loop ack event_str req sge as event (live(event \<mapsto> ev)) st'"
  using assms by (simp add: load_def)

lemma verbs_create_ctx_ok:
  assumes "xa_channel ans \<noteq> NULL" "xa_id ans = Inr new_id" "xa_bind ans = 0"
  shows "fst (verbs_create_ctx ans st ctx) = 0"
    and "cs_bound (snd (snd (verbs_create_ctx ans st ctx))) new_id = Some \<lparr>sin_family = 2, sin_addr = [192, 168, 2, 160], sin_port = [31, 144]\<rparr>"
  using assms by (auto simp: verbs_create_ctx_def cm_logged_def socket_init_def Let_def)

end
