(* ===== verification/Spec2Isabelle.thy ===== *)
theory Spec2Isabelle
  imports Rbtree_Iterate Rbtree_Augment Fault_Inject Bitmap Point_Array Cli_Client Num_Convert Binlog_Main
    Rw_Threads Spin Mock Cli_Example Json_Helper Small_Utils Rdma_Verbs
begin

text \<open>
  A verification of \<^verbatim>\<open>cc_utils\<close>, a collection of C utilities for Linux programs.

  \<^bold>\<open>The program.\<close>  The parts and how they depend on each other:

    \<^item> intrusive lists (\<^verbatim>\<open>include/list.h\<close>): \<^verbatim>\<open>sl\<close>, \<^verbatim>\<open>stq\<close>, \<^verbatim>\<open>dl\<close>, \<^verbatim>\<open>dtq\<close>, and the queues with a lock \<^verbatim>\<open>rwstq\<close>, \<^verbatim>\<open>rwdtq\<close>;
    \<^item> intrusive red-black trees (\<^verbatim>\<open>include/rbtree.h\<close>, \<^verbatim>\<open>src/rbtree.c\<close>) and the registry of injected faults built on them
      (\<^verbatim>\<open>src/fault_inject.c\<close>);
    \<^item> a command line served over a socket: server, client, output buffer, options (\<^verbatim>\<open>src/cli/*.c\<close>);
    \<^item> a binary log: a writer that stores only the arguments of a \<^verbatim>\<open>printf\<close>-like call, and a program that prints the log with the formats
      taken from a file (\<^verbatim>\<open>src/binlog/*.c\<close>);
    \<^item> an RDMA server over the verbs and connection manager libraries (\<^verbatim>\<open>src/rdma_verbs.c\<close>);
    \<^item> small utilities: bitmaps, arrays of pointers, number conversion, spin lock, mocking of functions, JSON to struct, parameter checks.

  \<^bold>\<open>How C is modelled.\<close>  A struct is a \<^theory_text>\<open>record\<close>, an enum or a tagged value a \<^theory_text>\<open>datatype\<close>, memory an explicit map from addresses (64-bit
  words) to nodes, blocks or bytes; each function of the source is one definition that takes the memory and returns the new one.  \<^const>\<open>None\<close> stands
  for everything after which C gives no guarantee: a null or dangling pointer, an access outside an array, signed overflow, a shift by a negative
  amount, the wrong \<^verbatim>\<open>va_arg\<close>; in the sequential model of the locked queues also for waiting forever.  A theorem that a function returns \<open>Some\<close>
  is therefore a proof of memory safety and of termination on the inputs it speaks about.  \<open>Aborted\<close> is \<^verbatim>\<open>abort\<close> or a failed \<^verbatim>\<open>assert\<close> (type \<open>run\<close> of \<open>C_Int\<close>).  Loops that follow pointers
  are \<^theory_text>\<open>partial_function (option)\<close>, where not terminating is \<^const>\<open>None\<close>; loops that count or consume a list are \<^theory_text>\<open>fun\<close>, or \<^theory_text>\<open>function\<close> with
  a measure; there is no fuel.  Integers that can overflow are words, or \<^typ>\<open>int\<close> with the range checked by \<open>int_result\<close> (theory \<open>C_Int\<close>).  What
  \<^verbatim>\<open>malloc\<close>, system calls, clocks and libraries answer is an argument of the definitions.

  \<^bold>\<open>The theories.\<close>

    \<^item> \<open>Prelude\<close>: addresses, loads and stores, chains of nodes.  \<open>List_Interfaces\<close>: the contracts of stacks, queues, removal and concatenation as
      locales, with their clients.  \<open>Sl_List\<close>, \<open>Stq_List\<close>, \<open>Dl_List\<close>, \<open>Dtq_List\<close>: all operations of the four list flavours, each interpreted as the
      contracts it fulfils.  \<open>Rw_Queue\<close>: the queues with a lock; by a \<^theory_text>\<open>sublocale\<close> they fulfil the contract of queues again.
      \<open>Rw_Threads\<close>: threads that interleave on such a queue, as a step relation; mutual exclusion, agreement with an abstract queue,
      absence of deadlock.  \<open>List_Iterate\<close>: the iteration macros, as loops with a body that is an argument; every flavour and direction interprets
      the locale \<open>iteration\<close>, those over the structs around the nodes by a \<^theory_text>\<open>sublocale\<close>.
    \<^item> \<open>Rbtree\<close>: the pointer code of the tree with the packed parent and colour; \<open>Rbtree_Repr\<close>, \<open>Rbtree_Insert\<close>, \<open>Rbtree_Rebalance\<close>, \<open>Rbtree_Erase\<close>,
      \<open>Rbtree_Walk\<close>: representation of inorder sequences, insertion, the two halves of erasure, traversal; \<open>Ordered_Index\<close>: the contract of an ordered index as a
      locale; \<open>Rbtree_Props\<close>: the properties, among them the height bound and the sorting of a batch.  The rebalancing is proved once, in the locales
      \<open>rb_insertion\<close>, \<open>rb_rebalance\<close> and \<open>rb_erasure\<close>, for any callbacks and any property of the augmented data that every rotation keeps;
      \<open>Rbtree_Augment\<close>: the callback templates, and trees in which every node stores the maximum of its subtree, as another interpretation.
      \<open>Rbtree_Iterate\<close>: the postorder as one more interpretation of \<open>iteration\<close>, and freeing a tree with it.
    \<^item> \<open>Fault_Inject\<close>: the registry refines a finite map from names to faults; when a fault fires, and the macros that put a fault around a call.
    \<^item> \<open>C_String\<close>, \<open>C_Int\<close>, \<open>Byte_Codec\<close>, \<open>Indexed_Store\<close>: C strings and numbers as text, checked integers and array accesses, little-endian words in
      buffers, arrays as a locale.
    \<^item> \<open>Bitmap\<close>, \<open>Point_Array\<close> (interpretations of \<open>Indexed_Store\<close>), \<open>Num_Convert\<close>.
    \<^item> \<open>Sys_Io\<close>: \<^verbatim>\<open>safe_read\<close> and \<^verbatim>\<open>safe_write\<close> over arbitrary sequences of results of the system calls.  \<open>Cli_Msg\<close>: the format of messages.
      \<open>Cli_Print\<close>: the output buffer.  \<open>Cli_Socket\<close>: descriptors, the socket and its file.  \<open>Cli_Server\<close>: commands, one connection, polling, creation
      and destruction with every failure, signals and exit.  \<open>Cli_Client\<close>: the client, and client and server together.  \<open>Options\<close>: the options of a
      command; \<open>Option_Types\<close>: the macros that make an option table and their typing; \<open>Cli_Example\<close>: the example server.
    \<^item> \<open>Blog_Format\<close>: typed arguments, their encoding, the scan of conversion specifications.  \<open>Binlog_Writer\<close>: the buffer of the thread,
      records, the log file.  \<open>Binlog_Parser\<close>: the reader of arguments, \<^verbatim>\<open>print_format\<close>, the loop over the records (through the locale
      \<open>record_loop\<close>).  \<open>Binlog_Main\<close>: opening and closing the parser, its \<^verbatim>\<open>main\<close>, and writer and parser together.
    \<^item> \<open>Rdma_Verbs\<close>: the set-up of the server, the thread of the connection manager, the service of one connection.
    \<^item> \<open>Spin\<close>, \<open>Mock\<close>, \<open>Json_Helper\<close>, \<open>Small_Utils\<close>.

  \<^bold>\<open>What is shown.\<close>  Every data structure does what its abstract counterpart does: lists and queues hold sequences, the tree a sorted
  sequence with the red-black invariant and a logarithmic height, the registry a finite map, bitmaps and pointer arrays are arrays, the output
  buffer is the concatenation of its texts.  The two protocols are closed: what the client sends is what the server decodes and executes and what the client
  prints; what a thread logs is what the parser prints, with the text \<^verbatim>\<open>fprintf\<close> would have made.  Threads on a locked queue see a queue, and
  the locks exclude.  Every iteration macro visits its sequence once and ends; the \<^verbatim>\<open>SAFE\<close> ones also when the body frees what it visits.  Options made by the
  macros cannot go wrong.  An RDMA connection is served completion by completion.  The error theorems show where the code fails: names of 63 bytes in the registry, an interrupted \<^verbatim>\<open>write\<close>, the buffers of
  the client, a server that is created without a socket, \<^verbatim>\<open>%%\<close> and long function names in the log, an RDMA event that is read after its release.

  \<^bold>\<open>Bounds.\<close>  The hypotheses on sizes are those of the code: 32-bit lengths, 1024 commands, 1024-byte messages, records below \<open>LOG_LIMIT\<close>
  (half a gigabyte, so that doubling the buffer does not overflow), a log file that fits the 4 MB buffer of the parser.

  \<^bold>\<open>Not modelled.\<close>  The refill of the parser's buffer is modelled, but the theorems treat files that need no refill, because \<^verbatim>\<open>memcpy\<close> on
  overlapping ranges and a length read before it has arrived make longer files undefined in general.  Floating point is real arithmetic with a
  rounding that is an argument; infinities and NaN are left out.  The text that \<^verbatim>\<open>printf\<close> makes of one conversion, \<^verbatim>\<open>strftime\<close>, \<^verbatim>\<open>strtod\<close>,
  \<^verbatim>\<open>getopt_long\<close>, the cJSON library and the RDMA libraries are parameters.  The mutexes of the server, the endless sleep of the two example
  servers, \<^verbatim>\<open>binlog_example.c\<close>, the tests, the benchmarks and the vendored formatter are left out.
\<close>

end
